(* ===== verification/Prelude.thy ===== *)
theory Prelude
  imports
    Complex_Main
    "HOL-Library.Word"
    "HOL-Library.AList"
    "HOL-Library.Log_Nat"
    "HOL-Library.Signed_Division"
    "HOL-Library.Monad_Syntax"
begin

text \<open>
  What every component of the development shares: Go's machine integers, durations and
  instants, Go maps, slices of bytes and IEEE double arithmetic, with the lemmas about
  them.

  \<^item> Unsigned integers are words of their width. Go's signed 64-bit integers
    (\<^verbatim>\<open>int64\<close>, \<^verbatim>\<open>int\<close>, \<^verbatim>\<open>time.Duration\<close>) are \<^typ>\<open>int\<close> and every operation that
    can leave the range is wrapped by \<open>s64\<close>.
  \<^item> An instant (\<^verbatim>\<open>time.Time\<close>) is an \<^typ>\<open>int\<close>, nanoseconds on an unbounded time line. A
    handler that calls \<^verbatim>\<open>time.Now()\<close> takes the reading as its argument \<open>now\<close>: one
    invocation runs on the dispatch goroutine and sees one instant.
  \<^item> A Go map is an association list. \<^verbatim>\<open>range\<close> visits it in list order; Go leaves that
    order open, so a theorem about every association list is a theorem about every order.
  \<^item> A \<^verbatim>\<open>float64\<close> is the rational number it denotes and every operation rounds its exact
    result with \<open>f64\<close> (round to nearest, ties to even, subnormals included). Infinities
    and NaN are not represented: the quantities of the program are bounded far below them.
\<close>

type_synonym u8 = "8 word"
type_synonym u16 = "16 word"
type_synonym u32 = "32 word"
type_synonym u64 = "64 word"

type_synonym duration = int
type_synonym instant = int
type_synonym f64 = rat
type_synonym bytes = "u8 list"
type_synonym ('k, 'v) gomap = "('k \<times> 'v) list"

text \<open>Collections the component proofs draw on.\<close>

named_theorems router_defs \<open>definitions of the router's small steps\<close>
named_theorems frame \<open>what an operation leaves unchanged\<close>
named_theorems unat_simps \<open>reading fixed-width arithmetic as arithmetic on naturals\<close>

subsection \<open>Signed 64-bit integers\<close>

definition s64 :: "int \<Rightarrow> int" where
  "s64 x = signed_take_bit 63 x"

definition in_s64 :: "int \<Rightarrow> bool" where
  "in_s64 x \<longleftrightarrow> - (2 ^ 63) \<le> x \<and> x < 2 ^ 63"

lemma s64_id [simp]: "in_s64 x \<Longrightarrow> s64 x = x"
  by (simp add: in_s64_def s64_def signed_take_bit_int_eq_self_iff)

lemma in_s64_s64 [simp]: "in_s64 (s64 x)"
  using signed_take_bit_int_less_exp [of 63 x] signed_take_bit_int_greater_eq_minus_exp [of 63 x]
  by (simp add: in_s64_def s64_def)

lemma s64_eqI: "- (2 ^ 63) \<le> x \<Longrightarrow> x < 2 ^ 63 \<Longrightarrow> s64 x = x"
  by (simp add: in_s64_def)

text \<open>\<^verbatim>\<open>time.Duration\<close> constants, in nanoseconds.\<close>

abbreviation (input) Nanosecond :: duration where "Nanosecond \<equiv> 1"
abbreviation (input) Microsecond :: duration where "Microsecond \<equiv> 1000"
abbreviation (input) Millisecond :: duration where "Millisecond \<equiv> 1000000"
abbreviation (input) Second :: duration where "Second \<equiv> 1000000000"
abbreviation (input) Minute :: duration where "Minute \<equiv> 60000000000"

definition MaxInt64 :: int where
  "MaxInt64 = 9223372036854775807"

text \<open>
  The zero \<^verbatim>\<open>time.Time\<close> is the first instant of year 1, on a line whose origin is the Unix
  epoch; \<^verbatim>\<open>Time.Sub\<close> saturates at the bounds of \<^verbatim>\<open>time.Duration\<close>.
\<close>

definition ZeroTime :: instant where
  "ZeroTime = - 62135596800000000000"

definition time_Sub :: "instant \<Rightarrow> instant \<Rightarrow> duration" where
  "time_Sub t u = max (- MaxInt64 - 1) (min MaxInt64 (t - u))"

lemma time_Sub_le: "d < MaxInt64 \<Longrightarrow> - MaxInt64 - 1 \<le> d \<Longrightarrow> time_Sub t u \<le> d \<longleftrightarrow> t - u \<le> d"
  by (auto simp: time_Sub_def)

text \<open>\<^verbatim>\<open>Duration.Microseconds\<close>: Go divides towards zero.\<close>

definition Microseconds :: "duration \<Rightarrow> int" where
  "Microseconds d = d sdiv 1000"

lemma Microseconds_nonneg: "0 \<le> d \<Longrightarrow> Microseconds d = d div 1000"
  by (cases "d = 0") (simp_all add: Microseconds_def signed_divide_int_def)

subsection \<open>Go maps\<close>

abbreviation mget :: "('k, 'v) gomap \<Rightarrow> 'k \<Rightarrow> 'v option" where
  "mget m \<equiv> map_of m"

abbreviation mput :: "'k \<Rightarrow> 'v \<Rightarrow> ('k, 'v) gomap \<Rightarrow> ('k, 'v) gomap" where
  "mput \<equiv> AList.update"

abbreviation mdel :: "'k \<Rightarrow> ('k, 'v) gomap \<Rightarrow> ('k, 'v) gomap" where
  "mdel \<equiv> AList.delete"

text \<open>Every key of a Go map occurs once.\<close>

abbreviation gomap_ok :: "('k, 'v) gomap \<Rightarrow> bool" where
  "gomap_ok m \<equiv> distinct (map fst m)"

lemma mget_mput [simp]: "mget (mput k v m) k' = (if k' = k then Some v else mget m k')"
  by (simp add: update_conv')

lemma mget_mdel [simp]: "mget (mdel k m) k' = (if k' = k then None else mget m k')"
  by (simp add: delete_conv')

lemma gomap_ok_mput [simp]: "gomap_ok m \<Longrightarrow> gomap_ok (mput k v m)"
  by (rule distinct_update)

lemma gomap_ok_mdel [simp]: "gomap_ok m \<Longrightarrow> gomap_ok (mdel k m)"
  by (rule distinct_delete)

lemma set_mput: "set (map fst (mput k v m)) = insert k (set (map fst m))"
  by (auto simp: dom_update)

lemma in_set_mget: "gomap_ok m \<Longrightarrow> (k, v) \<in> set m \<longleftrightarrow> mget m k = Some v"
  by simp

lemma in_set_mputD: "(k', v') \<in> set (mput k v m) \<Longrightarrow> k' = k \<and> v' = v \<or> (k', v') \<in> set m"
  by (induction m) (auto split: if_splits)

subsection \<open>Bytes\<close>

text \<open>
  \<^verbatim>\<open>encoding/binary\<close>: the \<open>n\<close> low bytes of a number, most significant first, and back.
  Little-endian order is the reverse.
\<close>

primrec be_enc :: "nat \<Rightarrow> nat \<Rightarrow> bytes" where
  "be_enc 0 x = []"
| "be_enc (Suc n) x = be_enc n (x div 256) @ [of_nat x]"

definition be_dec :: "bytes \<Rightarrow> nat" where
  "be_dec bs = foldl (\<lambda>a b. a * 256 + unat b) 0 bs"

definition le_enc :: "nat \<Rightarrow> nat \<Rightarrow> bytes" where
  "le_enc n x = rev (be_enc n x)"

definition le_dec :: "bytes \<Rightarrow> nat" where
  "le_dec bs = be_dec (rev bs)"

lemma be_dec_Nil [simp]: "be_dec [] = 0"
  by (simp add: be_dec_def)

lemma be_dec_snoc [simp]: "be_dec (bs @ [b]) = be_dec bs * 256 + unat b"
  by (simp add: be_dec_def)

lemma length_be_enc [simp]: "length (be_enc n x) = n"
  by (induction n arbitrary: x) auto

lemma length_le_enc [simp]: "length (le_enc n x) = n"
  by (simp add: le_enc_def)

lemma unat_u8_less [simp]: "unat (b :: u8) < 256"
  using unsigned_less [of b, where ?'a = nat] by simp

lemma unat_of_nat_u8: "unat (of_nat x :: u8) = x mod 256"
  by (simp add: unat_of_nat)

lemma be_dec_enc [simp]: "be_dec (be_enc n x) = x mod 256 ^ n"
proof (induction n arbitrary: x)
  case (Suc n)
  then show ?case
    by (simp add: unat_of_nat_u8 mod_mult2_eq mult.commute)
qed simp

lemma le_dec_enc [simp]: "le_dec (le_enc n x) = x mod 256 ^ n"
  by (simp add: le_dec_def le_enc_def)

lemma u8_256 [simp]: "(256 :: u8) = 0"
  using word_exp_length_eq_0 [where ?'a = 8] by simp

lemma be_enc_dec [simp]: "be_enc (length bs) (be_dec bs) = bs"
  by (induction bs rule: rev_induct) simp_all

lemma be_dec_less: "be_dec bs < 256 ^ length bs"
proof (induction bs rule: rev_induct)
  case (snoc b bs)
  have "be_dec bs * 256 + unat b < (be_dec bs + 1) * 256"
    by simp
  also have "\<dots> \<le> 256 ^ length bs * 256"
    using snoc by (intro mult_right_mono) auto
  finally show ?case
    by simp
qed simp

subsection \<open>Slices and loops\<close>

text \<open>
  Indexing a slice: \<open>None\<close> is the run-time panic of an index out of range. A loop over a
  slice whose body may panic is \<open>fold_opt\<close>.
\<close>

definition go_index :: "'a list \<Rightarrow> int \<Rightarrow> 'a option" where
  "go_index xs i = (if 0 \<le> i \<and> i < int (length xs) then Some (xs ! nat i) else None)"

fun fold_opt :: "('a \<Rightarrow> 's \<Rightarrow> 's option) \<Rightarrow> 'a list \<Rightarrow> 's \<Rightarrow> 's option" where
  "fold_opt f [] s = Some s"
| "fold_opt f (x # xs) s = (case f x s of None \<Rightarrow> None | Some s' \<Rightarrow> fold_opt f xs s')"

lemma fold_opt_append [simp]:
  "fold_opt f (xs @ ys) s = (case fold_opt f xs s of None \<Rightarrow> None | Some s' \<Rightarrow> fold_opt f ys s')"
  by (induction xs arbitrary: s) (auto split: option.splits)

text \<open>A loop invariant, indexed by the iterations done so far.\<close>

lemma fold_opt_inv:
  assumes "fold_opt f xs s = Some s'" and "P [] s"
    and "\<And>ys x zs u v. xs = ys @ x # zs \<Longrightarrow> P ys u \<Longrightarrow> f x u = Some v \<Longrightarrow> P (ys @ [x]) v"
  shows "P xs s'"
  using assms
proof (induction xs arbitrary: s' rule: rev_induct)
  case (snoc x xs)
  then obtain u where u: "fold_opt f xs s = Some u" "f x u = Some s'"
    by (auto split: option.splits)
  then have "P xs u"
    using snoc by fastforce
  then show ?case
    using snoc.prems(3) u by auto
qed simp

lemma fold_opt_total:
  assumes "P [] s"
    and "\<And>ys x zs u. xs = ys @ x # zs \<Longrightarrow> P ys u \<Longrightarrow> \<exists>v. f x u = Some v \<and> P (ys @ [x]) v"
  shows "\<exists>s'. fold_opt f xs s = Some s' \<and> P xs s'"
  using assms
proof (induction xs rule: rev_induct)
  case (snoc x xs)
  then obtain u where "fold_opt f xs s = Some u" "P xs u"
    by fastforce
  then show ?case
    using snoc.prems(2) [of xs x "[]" u] by auto
qed simp

fun map_opt :: "('a \<Rightarrow> 'b option) \<Rightarrow> 'a list \<Rightarrow> 'b list option" where
  "map_opt f [] = Some []"
| "map_opt f (x # xs) = do { y \<leftarrow> f x; ys \<leftarrow> map_opt f xs; Some (y # ys) }"

lemma map_opt_Some: "map_opt f xs = Some ys \<longleftrightarrow> map f xs = map Some ys"
proof (induction xs arbitrary: ys)
  case (Cons x xs)
  show ?case by (cases "f x"; cases ys) (auto simp: Option.bind_eq_Some_conv Cons.IH)
qed auto

lemma map_opt_None: "map_opt f xs = None \<longleftrightarrow> (\<exists>x \<in> set xs. f x = None)"
proof (induction xs)
  case (Cons x xs)
  show ?case by (cases "f x") (simp_all add: Option.bind_eq_None_conv Cons.IH)
qed simp

lemma fold_fold_concat: "fold (fold f) xss s = fold f (concat xss) s"
  by (induction xss arbitrary: s) simp_all

lemma upt_split:
  assumes "[0..<n] = ys @ i # zs"
  shows "ys = [0..<i]" and "i < n"
proof -
  have l: "length ys < n"
    using arg_cong [OF assms, of length] by simp
  have "i = length ys"
    using arg_cong [OF assms, of "\<lambda>xs. xs ! length ys"] l by simp
  moreover have "ys = [0..<length ys]"
    using arg_cong [OF assms, of "take (length ys)"] l by simp
  ultimately show "ys = [0..<i]" "i < n"
    using l by simp_all
qed

text \<open>
  A loop over a map that handles each key by itself: what the accumulator says about a key
  afterwards depends on that key's entry only, whatever the order of the visits.
\<close>

lemma fold_keys_inv:
  assumes "gomap_ok xs" and "I a"
    and "\<And>k v a. (k, v) \<in> set xs \<Longrightarrow> I a \<Longrightarrow> I (f (k, v) a)"
    and "\<And>k v a k'. (k, v) \<in> set xs \<Longrightarrow> I a \<Longrightarrow>
      look (f (k, v) a) k' = (if k' = k then g k v (look a k') else look a k')"
  shows "look (fold f xs a) k = (case mget xs k of None \<Rightarrow> look a k | Some v \<Rightarrow> g k v (look a k))"
  using assms
proof (induction xs arbitrary: a)
  case (Cons x xs)
  obtain k0 v0 where x: "x = (k0, v0)"
    by (cases x)
  have "look (fold f xs (f x a)) k =
      (case mget xs k of None \<Rightarrow> look (f x a) k | Some v \<Rightarrow> g k v (look (f x a) k))"
    using Cons.prems x by (intro Cons.IH) auto
  moreover have "mget xs k0 = None"
    using Cons.prems(1) x by (simp add: map_of_eq_None_iff)
  ultimately show ?case
    using x Cons.prems(2) Cons.prems(4) [of k0 v0 a k] by (auto split: option.splits)
qed simp

lemma fold_keys:
  assumes "gomap_ok xs"
    and "\<And>k v a k'. (k, v) \<in> set xs \<Longrightarrow> look (f (k, v) a) k' = (if k' = k then g k v (look a k') else look a k')"
  shows "look (fold f xs a) k = (case mget xs k of None \<Rightarrow> look a k | Some v \<Rightarrow> g k v (look a k))"
  using fold_keys_inv [OF assms(1), of "\<lambda>_. True" a f look g k] assms(2) by auto

lemma fold_inv: "I a \<Longrightarrow> (\<And>x a. x \<in> set xs \<Longrightarrow> I a \<Longrightarrow> I (f x a)) \<Longrightarrow> I (fold f xs a)"
  by (induction xs arbitrary: a) auto

lemma gomap_ok_fold:
  "gomap_ok m \<Longrightarrow> (\<And>x t. gomap_ok t \<Longrightarrow> gomap_ok (f x t)) \<Longrightarrow> gomap_ok (fold f xs m)"
  by (induction xs arbitrary: m) auto

text \<open>Two Go maps are equal when they answer every lookup alike.\<close>

definition same_map :: "('k, 'v) gomap \<Rightarrow> ('k, 'v) gomap \<Rightarrow> bool" where
  "same_map m n \<longleftrightarrow> mget m = mget n"

end
