(* ===== verification/Float64.thy ===== *)
theory Float64
  imports Prelude
begin

text \<open>
  Go's \<^verbatim>\<open>float64\<close>: a value is the rational number it denotes; \<open>f64\<close> rounds an exact result
  to the nearest double, ties to even, with the exponent bounded below as for subnormals.
  \<open>fadd\<close>, \<open>fsub\<close>, \<open>fmul\<close> and \<open>fdiv\<close> are the four operations, each the rounding of the
  exact result, evaluated without fused multiply-add. Overflow to infinity is left out.
\<close>

text \<open>The exponent of the binade of \<open>x\<close>: \<open>2 ^ flog2 x \<le> \<bar>x\<bar> < 2 ^ (flog2 x + 1)\<close>.\<close>

definition flog2 :: "rat \<Rightarrow> int" where
  "flog2 x =
     (case quotient_of x of (p, q) \<Rightarrow>
        let k = bitlen \<bar>p\<bar> - bitlen q
        in if 2 powi k \<le> \<bar>x\<bar> then k else k - 1)"

definition round_half_even :: "rat \<Rightarrow> int" where
  "round_half_even y =
     (let f = \<lfloor>y\<rfloor>; d = y - of_int f
      in if d < 1 / 2 then f else if d > 1 / 2 then f + 1 else if even f then f else f + 1)"

text \<open>The exponent of the last place of the double nearest to \<open>x\<close>.\<close>

definition fexp :: "rat \<Rightarrow> int" where
  "fexp x = max (flog2 x - 52) (- 1074)"

definition f64 :: "rat \<Rightarrow> f64" where
  "f64 x =
     (if x = 0 then 0
      else let e = fexp x in of_int (round_half_even (x / 2 powi e)) * 2 powi e)"

definition fadd :: "f64 \<Rightarrow> f64 \<Rightarrow> f64" where "fadd x y = f64 (x + y)"
definition fsub :: "f64 \<Rightarrow> f64 \<Rightarrow> f64" where "fsub x y = f64 (x - y)"
definition fmul :: "f64 \<Rightarrow> f64 \<Rightarrow> f64" where "fmul x y = f64 (x * y)"
definition fdiv :: "f64 \<Rightarrow> f64 \<Rightarrow> f64" where "fdiv x y = f64 (x / y)"

text \<open>\<^verbatim>\<open>float64(n)\<close> for an integer \<open>n\<close> and \<^verbatim>\<open>int64(x)\<close>, which truncates towards zero.\<close>

definition f64_of_int :: "int \<Rightarrow> f64" where
  "f64_of_int n = f64 (of_int n)"

definition int_of_f64 :: "f64 \<Rightarrow> int" where
  "int_of_f64 x = (if 0 \<le> x then \<lfloor>x\<rfloor> else \<lceil>x\<rceil>)"

lemma f64_zero [simp]: "f64 0 = 0"
  by (simp add: f64_def)

lemma round_half_even_bounds:
  "\<lfloor>y\<rfloor> \<le> round_half_even y \<and> round_half_even y \<le> \<lceil>y\<rceil>"
proof -
  have "y - of_int \<lfloor>y\<rfloor> = 0 \<or> \<lceil>y\<rceil> = \<lfloor>y\<rfloor> + 1"
    by (metis ceiling_altdef diff_self)
  then show ?thesis
    by (auto simp: round_half_even_def Let_def)
qed

lemma round_half_even_of_int [simp]: "round_half_even (of_int n) = n"
  by (simp add: round_half_even_def)

lemma f64_nonneg: "0 \<le> x \<Longrightarrow> 0 \<le> f64 x"
proof (cases "x = 0")
  case False
  assume "0 \<le> x"
  let ?e = "fexp x"
  have "0 \<le> \<lfloor>x / 2 powi ?e\<rfloor>"
    using \<open>0 \<le> x\<close> by simp
  then have "0 \<le> round_half_even (x / 2 powi ?e)"
    using round_half_even_bounds [of "x / 2 powi ?e"] by linarith
  then show ?thesis
    using False by (simp add: f64_def Let_def)
qed simp

text \<open>A multiple of \<open>2 ^ e\<close> at an exponent not above the rounding exponent is exact.\<close>

lemma f64_exact:
  assumes "x \<noteq> 0" and "x = of_int n * 2 powi fexp x"
  shows "f64 x = x"
proof -
  have "x / 2 powi fexp x = of_int n"
    by (subst assms(2)) simp
  then show ?thesis
    using assms by (simp add: f64_def Let_def)
qed

lemma bitlen_abs_pos: "n \<noteq> 0 \<Longrightarrow> 0 < bitlen \<bar>n\<bar>"
  using bitlen_eq_zero_iff [of "\<bar>n\<bar>"] bitlen_nonneg [of "\<bar>n\<bar>"] by linarith

lemma flog2_of_int: "n \<noteq> 0 \<Longrightarrow> flog2 (of_int n) = bitlen \<bar>n\<bar> - 1"
proof -
  assume n: "n \<noteq> 0"
  have q: "quotient_of (of_int n) = (n, 1)"
    by (simp add: quotient_of_int)
  have b1: "bitlen (1::int) = 1"
    by (simp add: bitlen_def floorlog_def)
  have bp: "0 < bitlen \<bar>n\<bar>"
    using n by (rule bitlen_abs_pos)
  have "2 ^ nat (bitlen \<bar>n\<bar> - 1) \<le> \<bar>n\<bar>"
    using bitlen_bounds [of "\<bar>n\<bar>"] n by simp
  then have "(2::rat) ^ nat (bitlen \<bar>n\<bar> - 1) \<le> of_int \<bar>n\<bar>"
    by (metis of_int_le_iff of_int_numeral of_int_power)
  then show ?thesis
    using bp by (simp add: flog2_def q b1 power_int_def)
qed

lemma f64_of_int_exact: "\<bar>n\<bar> < 2 ^ 53 \<Longrightarrow> f64_of_int n = of_int n"
proof (cases "n = 0")
  case False
  assume n: "\<bar>n\<bar> < 2 ^ 53"
  let ?b = "bitlen \<bar>n\<bar>"
  have b: "0 < ?b" "?b \<le> 53"
    using False n bitlen_abs_pos by (simp_all add: bitlen_le_iff_power)
  have e: "fexp (of_int n) = ?b - 53"
    using b False by (simp add: fexp_def flog2_of_int)
  have "(of_int n :: rat) = of_int (n * 2 ^ nat (53 - ?b)) * 2 powi (?b - 53)"
    using b by (simp add: power_int_def nat_diff_distrib field_simps)
  then show ?thesis
    using f64_exact [of "of_int n" "n * 2 ^ nat (53 - ?b)"] False e by (simp add: f64_of_int_def)
qed (simp add: f64_of_int_def)

lemma f64_one [simp]: "f64 1 = 1"
  using f64_of_int_exact [of 1] by (simp add: f64_of_int_def)

lemma int_of_f64_of_int [simp]: "int_of_f64 (of_int n) = n"
  by (simp add: int_of_f64_def)

subsection \<open>Rounding is odd and monotone\<close>

lemma round_half_even_mono: "x \<le> y \<Longrightarrow> round_half_even x \<le> round_half_even y"
proof -
  assume xy: "x \<le> y"
  then have f: "\<lfloor>x\<rfloor> \<le> \<lfloor>y\<rfloor>"
    by (rule floor_mono)
  show ?thesis
  proof (cases "\<lfloor>x\<rfloor> = \<lfloor>y\<rfloor>")
    case True
    then show ?thesis
      using xy by (auto simp: round_half_even_def Let_def)
  next
    case False
    then have "\<lfloor>x\<rfloor> + 1 \<le> \<lfloor>y\<rfloor>"
      using f by linarith
    moreover have "round_half_even x \<le> \<lfloor>x\<rfloor> + 1" "\<lfloor>y\<rfloor> \<le> round_half_even y"
      by (auto simp: round_half_even_def Let_def)
    ultimately show ?thesis
      by linarith
  qed
qed

lemma round_half_even_minus: "round_half_even (- y) = - round_half_even y"
proof (cases "y = of_int \<lfloor>y\<rfloor>")
  case True
  then show ?thesis
    by (metis of_int_minus round_half_even_of_int)
next
  case False
  then have "\<lfloor>- y\<rfloor> = - \<lfloor>y\<rfloor> - 1"
    by (simp add: floor_minus ceiling_altdef)
  then show ?thesis
    by (auto simp: round_half_even_def Let_def)
qed

lemma flog2_minus [simp]: "flog2 (- x) = flog2 x"
proof -
  obtain p q where "quotient_of x = (p, q)"
    by (cases "quotient_of x")
  then show ?thesis
    by (simp add: flog2_def rat_uminus_code)
qed

lemma fexp_minus [simp]: "fexp (- x) = fexp x"
  by (simp add: fexp_def)

lemma f64_minus: "f64 (- x) = - f64 x"
  using round_half_even_minus [of "x / 2 powi fexp x"]
  by (simp add: f64_def Let_def)

lemma rat_bitlen_bounds:
  assumes "0 < (p :: int)"
  shows "(2 :: rat) powi (bitlen p - 1) \<le> of_int p" and "of_int p < (2 :: rat) powi bitlen p"
proof -
  have b: "0 < bitlen p"
    using assms bitlen_abs_pos [of p] by simp
  have "2 ^ nat (bitlen p - 1) \<le> p \<and> p < 2 ^ nat (bitlen p)"
    using bitlen_bounds [OF assms] by simp
  then have "(2::rat) ^ nat (bitlen p - 1) \<le> of_int p \<and> of_int p < (2::rat) ^ nat (bitlen p)"
    by (metis of_int_le_iff of_int_less_iff of_int_numeral of_int_power)
  then show "(2 :: rat) powi (bitlen p - 1) \<le> of_int p" "of_int p < (2 :: rat) powi bitlen p"
    using b by (simp_all add: power_int_def)
qed

lemma flog2_bounds:
  assumes "0 < x"
  shows "2 powi flog2 x \<le> x" and "x < 2 powi (flog2 x + 1)"
proof -
  obtain p q where pq: "quotient_of x = (p, q)"
    by (cases "quotient_of x")
  have q: "0 < q" and x: "x = of_int p / of_int q"
    using pq by (simp_all add: quotient_of_denom_pos quotient_of_div)
  then have p: "0 < p"
    using assms by (simp add: zero_less_divide_iff)
  let ?k = "bitlen p - bitlen q"
  note bp = rat_bitlen_bounds [OF p] and bq = rat_bitlen_bounds [OF q]
  have q0: "(0 :: rat) < of_int q"
    using q by simp
  have "x < 2 powi bitlen p / 2 powi (bitlen q - 1)"
    unfolding x using bp(2) bq(1) q0 by (intro frac_less) (auto simp: p less_imp_le)
  also have "\<dots> = 2 powi (?k + 1)"
    by (simp add: power_int_diff power_int_add)
  finally have up: "x < 2 powi (?k + 1)" .
  have "2 powi (bitlen p - 1) / 2 powi bitlen q \<le> x"
    unfolding x using bp(1) bq(2) q0 p by (intro frac_le) auto
  moreover have "(2 :: rat) powi (bitlen p - 1) / 2 powi bitlen q = 2 powi (?k - 1)"
    by (simp add: power_int_diff)
  ultimately have lo: "2 powi (?k - 1) \<le> x"
    by simp
  show "2 powi flog2 x \<le> x" "x < 2 powi (flog2 x + 1)"
    using up lo assms p by (auto simp: flog2_def pq Let_def)
qed

lemma flog2_mono: "0 < x \<Longrightarrow> x \<le> y \<Longrightarrow> flog2 x \<le> flog2 y"
proof (rule ccontr)
  assume xy: "0 < x" "x \<le> y" and "\<not> flog2 x \<le> flog2 y"
  then have "(2 :: rat) powi (flog2 y + 1) \<le> 2 powi flog2 x"
    by (intro power_int_increasing) auto
  then show False
    using flog2_bounds(1) [of x] flog2_bounds(2) [of y] xy by linarith
qed

text \<open>The rounded significand lies between the bounds of the binade.\<close>

lemma f64_le_pow:
  assumes "0 < x" and "fexp x \<le> e"
  shows "f64 x \<le> 2 powi (e + 53)"
proof -
  let ?e = "fexp x"
  have "x < 2 powi (?e + 53)"
    using flog2_bounds(2) [OF assms(1)]
    by (rule order.strict_trans2) (rule power_int_increasing, auto simp: fexp_def)
  then have "x / 2 powi ?e \<le> of_int (2 ^ 53)"
    by (simp add: power_int_add field_simps)
  then have "round_half_even (x / 2 powi ?e) \<le> 2 ^ 53"
    by (metis round_half_even_mono round_half_even_of_int)
  then have "(of_int (round_half_even (x / 2 powi ?e)) :: rat) \<le> 2 ^ 53"
    by (metis of_int_le_iff of_int_numeral of_int_power)
  then have "f64 x \<le> 2 ^ 53 * 2 powi ?e"
    using assms(1) by (simp add: f64_def Let_def)
  also have "\<dots> = 2 powi (?e + 53)"
    by (simp add: power_int_add)
  also have "\<dots> \<le> 2 powi (e + 53)"
    using assms(2) by (intro power_int_increasing) auto
  finally show ?thesis .
qed

lemma f64_ge_pow:
  assumes "0 < x" and "e = fexp x" and "e = flog2 x - 52"
  shows "2 powi (e + 52) \<le> f64 x"
proof -
  have "2 powi (e + 52) \<le> x"
    using flog2_bounds(1) [OF assms(1)] assms(3) by simp
  then have "of_int (2 ^ 52) \<le> x / 2 powi e"
    by (simp add: power_int_add field_simps)
  then have "2 ^ 52 \<le> round_half_even (x / 2 powi e)"
    by (metis round_half_even_mono round_half_even_of_int)
  then have "(2 :: rat) ^ 52 \<le> of_int (round_half_even (x / 2 powi e))"
    by (metis of_int_le_iff of_int_numeral of_int_power)
  moreover have "f64 x = of_int (round_half_even (x / 2 powi e)) * 2 powi e"
    using assms(1) by (simp add: f64_def Let_def assms(2))
  moreover have "(2 :: rat) powi (e + 52) = 2 ^ 52 * 2 powi e"
    by (simp add: power_int_add)
  ultimately show ?thesis
    by simp
qed

lemma f64_mono_pos:
  assumes "0 < x" and "x \<le> y"
  shows "f64 x \<le> f64 y"
proof (cases "fexp x = fexp y")
  case True
  have "round_half_even (x / 2 powi fexp y) \<le> round_half_even (y / 2 powi fexp y)"
    using assms(2) by (intro round_half_even_mono divide_right_mono) simp_all
  then have "rat_of_int (round_half_even (x / 2 powi fexp y)) * 2 powi fexp y
      \<le> of_int (round_half_even (y / 2 powi fexp y)) * 2 powi fexp y"
    by (intro mult_right_mono) simp_all
  then show ?thesis
    using True assms by (simp add: f64_def Let_def)
next
  case False
  have fl: "flog2 x \<le> flog2 y"
    using assms by (rule flog2_mono)
  then have e: "fexp x \<le> fexp y - 1" "fexp y = flog2 y - 52"
    using False by (simp_all add: fexp_def max_def split: if_splits)
  have "f64 x \<le> 2 powi (fexp y - 1 + 53)"
    using assms(1) e(1) by (rule f64_le_pow)
  also have "\<dots> = 2 powi (fexp y + 52)"
    by (simp add: algebra_simps)
  also have "\<dots> \<le> f64 y"
    using assms e(2) by (intro f64_ge_pow) simp_all
  finally show ?thesis .
qed

lemma f64_mono: "x \<le> y \<Longrightarrow> f64 x \<le> f64 y"
proof -
  assume xy: "x \<le> y"
  consider "0 < x" | "x \<le> 0" "0 \<le> y" | "y < 0"
    by linarith
  then show ?thesis
  proof cases
    case 2
    then have "0 \<le> f64 (- x)" "0 \<le> f64 y"
      by (simp_all add: f64_nonneg)
    then show ?thesis
      by (simp add: f64_minus)
  next
    case 3
    then show ?thesis
      using f64_mono_pos [of "- y" "- x"] xy by (simp add: f64_minus)
  qed (simp add: f64_mono_pos xy)
qed

text \<open>A dyadic number with few enough significant bits is a double.\<close>

lemma f64_dyadic:
  assumes "0 < n" and "n < 2 ^ 53" and "k \<le> 1000"
  shows "f64 (of_int n / 2 ^ k) = of_int n / 2 ^ k"
proof -
  let ?x = "of_int n / (2 :: rat) ^ k"
  have x0: "0 < ?x"
    using assms by simp
  have fl: "flog2 ?x \<le> 52 - int k"
  proof (rule ccontr)
    assume "\<not> ?thesis"
    then have "(2 :: rat) powi (53 - int k) \<le> 2 powi flog2 ?x"
      by (intro power_int_increasing) auto
    also have "\<dots> \<le> ?x"
      using flog2_bounds(1) [OF x0] .
    finally have "(2 :: rat) ^ 53 \<le> of_int n"
      by (simp add: power_int_diff field_simps)
    then have "(2 :: int) ^ 53 \<le> n"
      by (metis of_int_le_iff of_int_numeral of_int_power)
    then show False
      using assms by simp
  qed
  have "fexp ?x \<le> - int k"
    using fl assms(3) unfolding fexp_def by linarith
  then obtain m where m: "fexp ?x = - int (k + m)"
    by (metis add.commute diff_add_cancel minus_diff_eq of_nat_add zle_iff_zadd uminus_add_conv_diff)
  have "?x = of_int (n * 2 ^ m) * 2 powi fexp ?x"
    unfolding m power_int_minus power_int_of_nat power_add by (simp add: field_simps)
  then show ?thesis
    using f64_exact x0 by (metis less_irrefl)
qed

end
