(* ===== verification/Metric.thy ===== *)
theory Metric
  imports Prelude
begin

text \<open>
  Metrics and sequence numbers: \<^verbatim>\<open>src/state/constants.go\<close> and \<^verbatim>\<open>src/core/utils.go\<close>.
  A metric is a \<^verbatim>\<open>uint32\<close> whose largest value \<open>M_INF\<close> (\<^verbatim>\<open>INF\<close> in the source) is a retraction and whose addition
  saturates at \<open>M_INFM\<close>; the locale \<open>metric_algebra\<close> states what route selection and link
  costs rely on and \<open>AddMetric\<close> is its model. A sequence number is a \<^verbatim>\<open>uint16\<close> compared
  modulo \<open>2 ^ 16\<close>.
\<close>

unbundle bit_operations_syntax

definition M_INF :: u32 where
  "M_INF = (NOT 0)"

definition M_INFM :: u32 where
  "M_INFM = M_INF - 1"

definition AddMetric :: "u32 \<Rightarrow> u32 \<Rightarrow> u32" where
  "AddMetric a b =
     (if a = M_INF \<or> b = M_INF then M_INF
      else ucast (min (ucast M_INFM :: u64) ((ucast a :: u64) + ucast b)))"

definition SeqnoLt :: "u16 \<Rightarrow> u16 \<Rightarrow> bool" where
  "SeqnoLt a b = (let x = b - a in 0 < x \<and> x < 32768)"

definition SeqnoLe :: "u16 \<Rightarrow> u16 \<Rightarrow> bool" where
  "SeqnoLe a b = (a = b \<or> SeqnoLt a b)"

definition SeqnoGt :: "u16 \<Rightarrow> u16 \<Rightarrow> bool" where
  "SeqnoGt a b = (\<not> SeqnoLe a b)"

definition SeqnoGe :: "u16 \<Rightarrow> u16 \<Rightarrow> bool" where
  "SeqnoGe a b = (\<not> SeqnoLt a b)"

text \<open>\<^verbatim>\<open>abs\<close> on \<^verbatim>\<open>int\<close>; the negation wraps at the smallest \<^verbatim>\<open>int\<close>.\<close>

definition abs_int :: "int \<Rightarrow> int" where
  "abs_int a = (if a < 0 then s64 (- a) else a)"

subsection \<open>Metrics\<close>

lemma M_INF_eval: "M_INF = 4294967295"
  by (simp add: M_INF_def)

lemma M_INFM_eval: "M_INFM = 4294967294"
  by (simp add: M_INFM_def M_INF_eval)

lemma unat_M_INF [simp]: "unat M_INF = 4294967295"
  by (simp add: M_INF_eval)

lemma unat_M_INFM [simp]: "unat M_INFM = 4294967294"
  by (simp add: M_INFM_eval)

lemma unat_u32_less: "unat (a :: u32) < 4294967296"
  using unsigned_less [of a, where ?'a = nat] by simp

lemma M_INFM_not_M_INF [simp]: "M_INFM \<noteq> M_INF" "M_INF \<noteq> M_INFM"
  by (simp_all add: M_INF_eval M_INFM_eval)

lemma zero_not_M_INF [simp]: "0 \<noteq> M_INF" "M_INF \<noteq> 0"
  by (simp_all add: M_INF_eval)

lemma le_M_INF [simp]: "a \<le> M_INF"
  using unat_u32_less [of a] by (simp add: word_le_nat_alt)

lemma finite_unat: "a \<noteq> M_INF \<longleftrightarrow> unat a \<le> 4294967294"
  using unat_u32_less [of a] by (simp add: word_unat_eq_iff) linarith

lemma finite_le_M_INFM: "a \<noteq> M_INF \<longleftrightarrow> a \<le> M_INFM"
  by (simp add: finite_unat word_le_nat_alt)

lemma finite_less_M_INF: "a \<noteq> M_INF \<longleftrightarrow> a < M_INF"
  by (simp add: order.strict_iff_order)

lemma unat_up_u64 [simp]: "unat (ucast (a :: u32) :: u64) = unat a"
  by (simp add: unsigned_ucast_eq take_bit_nat_eq_self_iff
      order.strict_trans [OF unat_u32_less])

lemma unat_AddMetric_finite:
  assumes "a \<noteq> M_INF" and "b \<noteq> M_INF"
  shows "unat (AddMetric a b) = min 4294967294 (unat a + unat b)"
proof -
  have s: "unat ((ucast a :: u64) + ucast b) = unat a + unat b"
    using unat_u32_less [of a] unat_u32_less [of b] by (simp add: unat_word_ariths)
  have m: "unat (min (ucast M_INFM :: u64) ((ucast a :: u64) + ucast b))
      = min 4294967294 (unat a + unat b)"
    by (simp add: min_def word_le_nat_alt s)
  have "min 4294967294 (unat a + unat b) < (2::nat) ^ 32"
    by simp
  then show ?thesis
    using assms by (simp add: AddMetric_def unsigned_ucast_eq m take_bit_nat_eq_self_iff)
qed

lemma AddMetric_inf [simp]: "AddMetric M_INF b = M_INF" "AddMetric a M_INF = M_INF"
  by (simp_all add: AddMetric_def)

lemma AddMetric_eq_inf [simp]: "AddMetric a b = M_INF \<longleftrightarrow> a = M_INF \<or> b = M_INF"
  using unat_AddMetric_finite [of a b] finite_unat [of "AddMetric a b"] by fastforce

lemma AddMetric_mono: "a \<le> a' \<Longrightarrow> b \<le> b' \<Longrightarrow> AddMetric a b \<le> AddMetric a' b'"
proof (cases "a' = M_INF \<or> b' = M_INF")
  case False
  assume "a \<le> a'" "b \<le> b'"
  with False have "a \<noteq> M_INF" "b \<noteq> M_INF"
    by (auto simp: finite_le_M_INFM)
  with False \<open>a \<le> a'\<close> \<open>b \<le> b'\<close> show ?thesis
    by (auto simp: word_le_nat_alt unat_AddMetric_finite)
qed auto

text \<open>
  What the rest of the router uses of metric addition: a commutative monoid with an
  absorbing element, ordered, in which adding never makes a cost smaller and never turns
  two finite costs into the absorbing one.
\<close>

locale metric_algebra =
  fixes add :: "'m :: linorder \<Rightarrow> 'm \<Rightarrow> 'm" and zero inf :: 'm
  assumes add_assoc: "add (add a b) c = add a (add b c)"
    and add_comm: "add a b = add b a"
    and add_zero: "add zero a = a"
    and add_eq_inf: "add a b = inf \<longleftrightarrow> a = inf \<or> b = inf"
    and add_mono: "a \<le> a' \<Longrightarrow> b \<le> b' \<Longrightarrow> add a b \<le> add a' b'"
    and zero_le: "zero \<le> a"
begin

lemma add_ge: "a \<le> add a b"
  using add_mono [of a a zero b] add_zero [of a] add_comm [of a zero] zero_le by simp

lemma path_finite: "foldr add cs m = inf \<longleftrightarrow> m = inf \<or> inf \<in> set cs"
  by (induction cs) (auto simp: add_eq_inf)

lemma path_ge: "m \<le> foldr add cs m"
proof (induction cs)
  case (Cons c cs)
  then show ?case
    using add_ge [of "foldr add cs m" c] by (simp add: add_comm [of c])
qed simp

lemma path_append: "foldr add (cs @ ds) m = add (foldr add cs zero) (foldr add ds m)"
  by (induction cs) (simp_all add: add_zero add_assoc)

end

interpretation metric: metric_algebra AddMetric 0 M_INF
proof unfold_locales
  fix a b c :: u32
  show "AddMetric (AddMetric a b) c = AddMetric a (AddMetric b c)"
  proof (cases "a = M_INF \<or> b = M_INF \<or> c = M_INF")
    case False
    then show ?thesis
      by (simp add: word_unat_eq_iff unat_AddMetric_finite finite_unat min_def)
  qed auto
  show "AddMetric a b = AddMetric b a"
    by (simp add: AddMetric_def add.commute conj_commute disj_commute)
  show "AddMetric 0 a = a"
  proof (cases "a = M_INF")
    case False
    then have "unat (AddMetric 0 a) = unat a"
      using finite_unat [of a] by (simp add: unat_AddMetric_finite)
    then show ?thesis
      by (simp only: word_unat_eq_iff)
  qed simp
qed (auto intro: AddMetric_mono)

subsection \<open>Sequence numbers\<close>

lemma unat_u16_less: "unat (a :: u16) < 65536"
  using unsigned_less [of a, where ?'a = nat] by simp

lemma SeqnoLt_unat: "SeqnoLt a b \<longleftrightarrow> 0 < unat (b - a) \<and> unat (b - a) < 32768"
  by (simp add: SeqnoLt_def Let_def word_less_nat_alt)

lemma SeqnoLt_irrefl [simp]: "\<not> SeqnoLt a a"
  by (simp add: SeqnoLt_def)

lemma unat_minus_swap: "a \<noteq> b \<Longrightarrow> unat (a - b) + unat (b - a :: u16) = 65536"
proof -
  assume ab: "a \<noteq> b"
  have sum_0: "x + y = 65536" if "(x + y) mod 65536 = 0" "x \<noteq> 0" "x < 65536" "y < 65536"
    for x y :: nat
    using that by (auto elim!: dvdE simp: mod_eq_0_iff_dvd)
  have "(unat (a - b) + unat (b - a)) mod 65536 = unat ((a - b) + (b - a))"
    by (simp only: unat_word_ariths) simp
  also have "\<dots> = 0"
    by (simp only: diff_add_eq_diff_diff_swap add_diff_eq) simp
  finally have "(unat (a - b) + unat (b - a)) mod 65536 = 0" .
  moreover have "unat (a - b) \<noteq> 0"
    using ab by (metis eq_iff_diff_eq_0 unat_0_iff)
  ultimately show ?thesis
    using unat_u16_less by (intro sum_0)
qed

lemma SeqnoLt_asym: "SeqnoLt a b \<Longrightarrow> \<not> SeqnoLt b a"
  using unat_minus_swap [of a b] by (cases "a = b") (auto simp: SeqnoLt_unat)

lemma SeqnoLt_neq: "SeqnoLt a b \<Longrightarrow> a \<noteq> b"
  by auto

text \<open>Comparison modulo \<open>2 ^ 16\<close> is a strict order on numbers less than half the space apart.\<close>

lemma SeqnoLt_trans:
  assumes "SeqnoLt a b" and "SeqnoLt b c" and "unat (b - a) + unat (c - b) < 32768"
  shows "SeqnoLt a c"
proof -
  have "c - a = (b - a) + (c - b)" by simp
  then have "unat (c - a) = unat (b - a) + unat (c - b)"
    using assms(3) by (simp only: unat_word_ariths) simp
  then show ?thesis
    using assms by (simp add: SeqnoLt_unat)
qed

lemma SeqnoLt_succ: "SeqnoLt a (a + 1)"
  by (simp add: SeqnoLt_def)

lemma SeqnoLt_shift: "SeqnoLt (a + d) (b + d) \<longleftrightarrow> SeqnoLt a b"
  by (simp add: SeqnoLt_def)

end
