(* ===== verification/Netip.thy ===== *)
theory Netip
  imports Prelude
begin

unbundle bit_operations_syntax

text \<open>
  Go's \<^verbatim>\<open>net/netip\<close> as far as the program uses it: addresses, prefixes, containment and the
  binary form in which prefixes travel in routing messages. \<^verbatim>\<open>Prefix.Bits()\<close> of an invalid
  prefix is \<open>- 1\<close>. The locale \<open>binary_codec\<close> is the contract of a binary encoding; the
  prefix encoding is a model of it.
\<close>

datatype Addr = AddrInvalid | Addr4 u32 | Addr6 "128 word" string

fun Addr_IsValid :: "Addr \<Rightarrow> bool" where
  "Addr_IsValid AddrInvalid = False"
| "Addr_IsValid _ = True"

fun Addr_Is4 :: "Addr \<Rightarrow> bool" where
  "Addr_Is4 (Addr4 _) = True"
| "Addr_Is4 _ = False"

fun Addr_Is6 :: "Addr \<Rightarrow> bool" where
  "Addr_Is6 (Addr6 _ _) = True"
| "Addr_Is6 _ = False"

fun Addr_BitLen :: "Addr \<Rightarrow> nat" where
  "Addr_BitLen AddrInvalid = 0"
| "Addr_BitLen (Addr4 _) = 32"
| "Addr_BitLen (Addr6 _ _) = 128"

fun Addr_WithoutZone :: "Addr \<Rightarrow> Addr" where
  "Addr_WithoutZone (Addr6 a z) = Addr6 a []"
| "Addr_WithoutZone a = a"

record Prefix =
  Prefix_Addr :: Addr
  Prefix_Bits :: int

definition PrefixFrom :: "Addr \<Rightarrow> int \<Rightarrow> Prefix" where
  "PrefixFrom ip bits =
     \<lparr>Prefix_Addr = Addr_WithoutZone ip,
      Prefix_Bits = (if ip \<noteq> AddrInvalid \<and> 0 \<le> bits \<and> bits \<le> int (Addr_BitLen ip) then bits else - 1)\<rparr>"

definition Prefix_IsValid :: "Prefix \<Rightarrow> bool" where
  "Prefix_IsValid p \<longleftrightarrow> 0 \<le> Prefix_Bits p"

definition Prefix_Contains :: "Prefix \<Rightarrow> Addr \<Rightarrow> bool" where
  "Prefix_Contains p ip =
     (Prefix_IsValid p \<and>
      (case (Prefix_Addr p, ip) of
         (Addr4 a, Addr4 b) \<Rightarrow> drop_bit (nat (32 - Prefix_Bits p)) (a XOR b) = 0
       | (Addr6 a _, Addr6 b z) \<Rightarrow> z = [] \<and> drop_bit (nat (128 - Prefix_Bits p)) (a XOR b) = 0
       | _ \<Rightarrow> False))"

text \<open>Every value of the Go type is made by \<^verbatim>\<open>PrefixFrom\<close> or is its zero value.\<close>

definition wf_Prefix :: "Prefix \<Rightarrow> bool" where
  "wf_Prefix p \<longleftrightarrow> p = PrefixFrom (Prefix_Addr p) (Prefix_Bits p)"

fun Addr_MarshalBinary :: "Addr \<Rightarrow> bytes" where
  "Addr_MarshalBinary AddrInvalid = []"
| "Addr_MarshalBinary (Addr4 a) = be_enc 4 (unat a)"
| "Addr_MarshalBinary (Addr6 a z) = be_enc 16 (unat a) @ map (\<lambda>c. of_nat (of_char c)) z"

definition Addr_UnmarshalBinary :: "bytes \<Rightarrow> Addr option" where
  "Addr_UnmarshalBinary b =
     (if length b = 0 then Some AddrInvalid
      else if length b = 4 then Some (Addr4 (of_nat (be_dec b)))
      else if length b \<ge> 16
        then Some (Addr6 (of_nat (be_dec (take 16 b))) (map (\<lambda>x. char_of (unat x)) (drop 16 b)))
      else None)"

definition Prefix_MarshalBinary :: "Prefix \<Rightarrow> bytes" where
  "Prefix_MarshalBinary p =
     Addr_MarshalBinary (Addr_WithoutZone (Prefix_Addr p)) @ [of_int (Prefix_Bits p)]"

definition Prefix_UnmarshalBinary :: "bytes \<Rightarrow> Prefix option" where
  "Prefix_UnmarshalBinary b =
     (if length b < 1 then None
      else map_option (\<lambda>a. PrefixFrom a (uint (last b))) (Addr_UnmarshalBinary (butlast b)))"

lemma length_Addr_MarshalBinary:
  "length (Addr_MarshalBinary (Addr_WithoutZone a)) = Addr_BitLen a div 8"
  by (cases a) simp_all

lemma unat_u128_less: "unat (a :: 128 word) < 256 ^ 16"
  using unsigned_less [of a, where ?'a = nat] by simp

lemma unat_u32_less_bytes: "unat (a :: u32) < 256 ^ 4"
  using unsigned_less [of a, where ?'a = nat] by simp

lemma Addr_binary_roundtrip:
  "Addr_UnmarshalBinary (Addr_MarshalBinary (Addr_WithoutZone a)) = Some (Addr_WithoutZone a)"
proof (cases a)
  case (Addr4 x)
  then show ?thesis
    using unat_u32_less_bytes [of x] by (simp add: Addr_UnmarshalBinary_def)
next
  case (Addr6 x z)
  then show ?thesis
    using unat_u128_less [of x] by (simp add: Addr_UnmarshalBinary_def)
qed (simp add: Addr_UnmarshalBinary_def)

lemma WithoutZone_idem [simp]:
  "Addr_WithoutZone (Addr_WithoutZone a) = Addr_WithoutZone a"
  by (cases a) simp_all

lemma WithoutZone_invalid [simp]: "Addr_WithoutZone a = AddrInvalid \<longleftrightarrow> a = AddrInvalid"
  by (cases a) simp_all

lemma BitLen_WithoutZone [simp]: "Addr_BitLen (Addr_WithoutZone a) = Addr_BitLen a"
  by (cases a) simp_all

lemma BitLen_le: "Addr_BitLen a \<le> 128"
  by (cases a) simp_all

lemma wf_PrefixFrom [simp]: "wf_Prefix (PrefixFrom a n)"
  by (simp add: wf_Prefix_def PrefixFrom_def)

lemma wf_Prefix_bits: "wf_Prefix p \<Longrightarrow> - 1 \<le> Prefix_Bits p \<and> Prefix_Bits p \<le> 128"
  using BitLen_le [of "Prefix_Addr p"]
  by (auto simp: wf_Prefix_def PrefixFrom_def dest!: arg_cong [where f = Prefix_Bits] split: if_splits)

text \<open>The contract of a binary encoding: decoding gives back every well-formed value.\<close>

locale binary_codec =
  fixes enc :: "'a \<Rightarrow> bytes" and dec :: "bytes \<Rightarrow> 'a option" and wf :: "'a \<Rightarrow> bool"
  assumes dec_enc: "wf x \<Longrightarrow> dec (enc x) = Some x"
begin

lemma enc_inj: "wf x \<Longrightarrow> wf y \<Longrightarrow> enc x = enc y \<Longrightarrow> x = y"
  by (metis dec_enc option.inject)

lemma enc_inj_on: "inj_on enc {x. wf x}"
  by (rule inj_onI) (auto dest: enc_inj)

end

lemma Prefix_binary_roundtrip:
  assumes "wf_Prefix p"
  shows "Prefix_UnmarshalBinary (Prefix_MarshalBinary p) = Some p"
proof -
  let ?b = "Prefix_Bits p" and ?a = "Prefix_Addr p"
  have p: "p = PrefixFrom ?a ?b"
    using assms by (simp add: wf_Prefix_def)
  have a: "Addr_WithoutZone ?a = ?a"
    using arg_cong [where f = Prefix_Addr, OF p] by (simp add: PrefixFrom_def)
  have u: "uint (of_int ?b :: u8) = (if ?b = - 1 then 255 else ?b)"
    using wf_Prefix_bits [OF assms] by (auto simp: uint_word_of_int)
  have "PrefixFrom ?a (uint (of_int ?b :: u8)) = PrefixFrom ?a ?b"
    using BitLen_le [of ?a] by (auto simp: u PrefixFrom_def)
  then show ?thesis
    using a p Addr_binary_roundtrip [of ?a]
    by (simp add: Prefix_UnmarshalBinary_def Prefix_MarshalBinary_def)
qed

interpretation prefix_codec: binary_codec Prefix_MarshalBinary Prefix_UnmarshalBinary wf_Prefix
  by unfold_locales (rule Prefix_binary_roundtrip)

end
