(* ===== verification/Tunables.thy ===== *)
theory Tunables
  imports Float64
begin

text \<open>
  \<^verbatim>\<open>src/state/tunables.go\<close>: the timing and algorithm parameters of the router, set once at
  startup, and their defaults. \<open>wf_tunables\<close> collects what the measurement code needs of
  them (no index out of range, no division by zero); the defaults satisfy it.
\<close>

record RouterTunables =
  HopCost :: u32
  TransitCost :: u32
  TCPCost :: duration
  UDPCost :: duration
  LargeChangeThreshold :: u32
  SeqnoRequestHopCount :: u8
  RouteUpdateDelay :: duration
  ProbeDelay :: duration
  ProbeRecoveryDelay :: duration
  ProbeDiscoveryDelay :: duration
  StarvationDelay :: duration
  SeqnoDedupTTL :: duration
  NeighbourIOFlushDelay :: duration
  IPCDispatchTimeout :: duration
  SafeMTU :: int
  WindowSamples :: int
  OutlierPercentage :: f64
  MinimumConfidenceWindow :: int
  GcDelay :: duration
  LinkDeadThreshold :: duration
  RouteExpiryTime :: duration
  LossSmoothingAlpha :: f64
  LossRetxFloor :: duration
  LossCap :: f64
  MetricSmoothingAlpha :: f64
  ClientKeepaliveInterval :: duration
  ClientDeadThreshold :: duration
  CentralUpdateDelay :: duration
  HealthCheckDelay :: duration
  HealthCheckMaxFailures :: int
  EndpointResolveExpiry :: duration
  EndpointResolveDelay :: duration
  MaxConfigSize :: int

definition DefaultRouterTunables :: RouterTunables where
  "DefaultRouterTunables =
     (let probeDelay = Millisecond * 1000; routeUpdateDelay = Second * 5 in
      \<lparr>HopCost = 5,
       TransitCost = 0,
       TCPCost = 0,
       UDPCost = 0,
       LargeChangeThreshold = 100 * 1000,
       SeqnoRequestHopCount = 64,
       RouteUpdateDelay = routeUpdateDelay,
       ProbeDelay = probeDelay,
       ProbeRecoveryDelay = Millisecond * 1500,
       ProbeDiscoveryDelay = Second * 10,
       StarvationDelay = Millisecond * 100,
       SeqnoDedupTTL = Second * 3,
       NeighbourIOFlushDelay = Millisecond * 500,
       IPCDispatchTimeout = Second,
       SafeMTU = 1200,
       WindowSamples = (Second * 60) sdiv probeDelay,
       OutlierPercentage = f64 (5 / 100),
       MinimumConfidenceWindow = Second * 15 sdiv probeDelay,
       GcDelay = Millisecond * 1000,
       LinkDeadThreshold = 5 * probeDelay,
       RouteExpiryTime = 5 * routeUpdateDelay,
       LossSmoothingAlpha = f64 (1 / 10),
       LossRetxFloor = Millisecond * 100,
       LossCap = f64 (95 / 100),
       MetricSmoothingAlpha = f64 (33 / 100),
       ClientKeepaliveInterval = 3 * probeDelay,
       ClientDeadThreshold = 6 * probeDelay,
       CentralUpdateDelay = Second * 10,
       HealthCheckDelay = Second * 15,
       HealthCheckMaxFailures = 3,
       EndpointResolveExpiry = Minute * 1,
       EndpointResolveDelay = Second * 15,
       MaxConfigSize = 2 ^ 20\<rparr>)"

text \<open>
  The trimmed window has both of its cut-offs inside the history when the outlier share is
  neither negligible nor more than a half, and the loss factor \<open>p / (1 - p)\<close> is finite when the
  cap stays below one.
\<close>

definition wf_tunables :: "RouterTunables \<Rightarrow> bool" where
  "wf_tunables t \<longleftrightarrow>
     1 \<le> MinimumConfidenceWindow t \<and> MinimumConfidenceWindow t \<le> WindowSamples t \<and>
     WindowSamples t < 2 ^ 31 \<and>
     1 / 2 ^ 20 \<le> OutlierPercentage t \<and> OutlierPercentage t \<le> 1 / 2 \<and>
     0 \<le> LossCap t \<and> LossCap t < 1 \<and>
     0 \<le> LinkDeadThreshold t \<and> LinkDeadThreshold t < MaxInt64 \<and>
     0 \<le> TCPCost t \<and> 0 \<le> UDPCost t \<and> 0 \<le> LossRetxFloor t"

lemma f64_bounds_dyadic:
  assumes "0 < m" and "m < 2 ^ 53" and "0 < n" and "n < 2 ^ 53" and "k \<le> 1000"
    and "of_int m / 2 ^ k \<le> x" and "x \<le> of_int n / 2 ^ k"
  shows "of_int m / 2 ^ k \<le> f64 x" and "f64 x \<le> of_int n / 2 ^ k"
  using f64_mono [OF assms(6)] f64_mono [OF assms(7)] f64_dyadic [of m k] f64_dyadic [of n k] assms
  by simp_all

lemma wf_DefaultRouterTunables: "wf_tunables DefaultRouterTunables"
proof -
  have "1 / 2 ^ 20 \<le> f64 (5 / 100)" "f64 (5 / 100) \<le> 1 / 2"
    using f64_bounds_dyadic [of 1 524288 20 "5 / 100"] by simp_all
  moreover have "0 \<le> f64 (95 / 100)" "f64 (95 / 100) < 1"
    using f64_bounds_dyadic [of 1 1048575 20 "95 / 100"] by simp_all
  ultimately show ?thesis
    by (simp add: wf_tunables_def DefaultRouterTunables_def signed_divide_int_def MaxInt64_def Let_def)
qed

end
