(* ===== verification/Link_Measure.thy ===== *)
theory Link_Measure
  imports Tunables Metric Netip
begin

text \<open>
  The measurement half of \<^verbatim>\<open>src/state/endpoint.go\<close>: the delay filter, the probe and echo
  bookkeeping of a link, its loss estimate and its metric. Reading a stabilised delay
  mutates the filter (it sorts the window and may move the median), so every reader returns
  the endpoint it leaves behind; \<open>None\<close> is the panic of an index outside the window.
\<close>

definition ProbeTimeout :: duration where "ProbeTimeout = 5 * Second"
definition EchoValidity :: duration where "EchoValidity = 10 * Second"
definition ClockJumpReset :: duration where "ClockJumpReset = Minute"
definition MinLinkDelay :: duration where "MinLinkDelay = 50 * Microsecond"
definition WarmupDelay :: duration where "WarmupDelay = Second"
definition pendingProbeCap :: nat where "pendingProbeCap = 128"

subsection \<open>The delay filter\<close>

record delayFilter =
  df_history :: "duration list"
  df_histSort :: "duration list"
  df_dirty :: bool
  df_prevMedian :: duration
  df_exp :: f64
  df_init :: bool

definition delayFilter_zero :: delayFilter where
  "delayFilter_zero = \<lparr>df_history = [], df_histSort = [], df_dirty = False, df_prevMedian = 0,
     df_exp = 0, df_init = False\<rparr>"

definition df_reset :: "delayFilter \<Rightarrow> delayFilter" where
  "df_reset f = f\<lparr>df_history := [], df_dirty := True, df_init := False, df_exp := 0, df_prevMedian := 0\<rparr>"

definition df_update :: "duration \<Rightarrow> RouterTunables \<Rightarrow> delayFilter \<Rightarrow> delayFilter" where
  "df_update sample t f =
     (let s = f64_of_int sample;
          f = (if df_init f \<and> \<bar>fsub s (df_exp f)\<bar> > f64_of_int ClockJumpReset then df_reset f else f);
          f = (if \<not> df_init f then f\<lparr>df_exp := s, df_init := True\<rparr> else f);
          e = fadd (fmul (f64 (836 / 10000)) s) (fmul (f64 (1 - 836 / 10000)) (df_exp f));
          h = df_history f @ [int_of_f64 e];
          h = (if int (length h) > WindowSamples t then tl h else h)
      in f\<lparr>df_exp := e, df_history := h, df_dirty := True\<rparr>)"

definition df_ready :: "RouterTunables \<Rightarrow> delayFilter \<Rightarrow> bool" where
  "df_ready t f \<longleftrightarrow> int (length (df_history f)) \<ge> MinimumConfidenceWindow t"

definition df_filtered :: "delayFilter \<Rightarrow> duration" where
  "df_filtered f = (if \<not> df_init f then 0 else int_of_f64 (df_exp f))"

definition df_stabilized :: "RouterTunables \<Rightarrow> delayFilter \<Rightarrow> (duration \<times> delayFilter) option" where
  "df_stabilized t f =
     (let f = (if df_dirty f then f\<lparr>df_histSort := sort (df_history f), df_dirty := False\<rparr> else f);
          hs = df_histSort f;
          le = int (length hs)
      in do {
        low \<leftarrow> go_index hs (int_of_f64 (fmul (f64_of_int le) (OutlierPercentage t)));
        high \<leftarrow> go_index hs (int_of_f64 (fmul (f64_of_int le) (fsub 1 (OutlierPercentage t))));
        med \<leftarrow> go_index hs (le sdiv 2);
        let f = (if low > df_prevMedian f \<or> high < df_prevMedian f then f\<lparr>df_prevMedian := med\<rparr> else f);
        Some (df_prevMedian f, f)
      })"

subsection \<open>The endpoint\<close>

datatype Transport = TransportUDP | TransportFakeTCP

record AddrPort =
  ap_Addr :: Addr
  ap_Port :: u16

definition AddrPort_zero :: AddrPort where
  "AddrPort_zero = \<lparr>ap_Addr = AddrInvalid, ap_Port = 0\<rparr>"

record LocalBind =
  lb_Interface :: string
  lb_Source :: Addr

record DynamicEndpoint =
  dep_Value :: string
  dep_lastValue :: AddrPort
  dep_lastUpdate :: instant

definition SameIPFamily :: "Addr \<Rightarrow> Addr \<Rightarrow> bool" where
  "SameIPFamily a b =
     (if \<not> Addr_IsValid a \<or> \<not> Addr_IsValid b then True else Addr_BitLen a = Addr_BitLen b)"

record NylonEndpoint =
  ep_t :: RouterTunables
  ep_lastHeardBack :: instant
  ep_remoteInit :: bool
  ep_WgEndpoint :: "AddrPort option"
  ep_DynEP :: DynamicEndpoint
  ep_Bind :: LocalBind
  ep_Transport :: Transport
  ep_LinkId :: u64
  ep_owdOut :: delayFilter
  ep_owdIn :: delayFilter
  ep_peerTx :: int
  ep_peerTxRxAt :: int
  ep_havePeerTx :: bool
  ep_pending :: "int list"
  ep_lossEWMA :: f64
  ep_lossInit :: bool
  ep_lossSamples :: int

text \<open>\<^verbatim>\<open>linkIdCounter\<close> is the argument \<open>ctr\<close>, returned incremented.\<close>

definition NewEndpoint ::
  "DynamicEndpoint \<Rightarrow> bool \<Rightarrow> AddrPort option \<Rightarrow> RouterTunables \<Rightarrow> u64 \<Rightarrow> NylonEndpoint \<times> u64" where
  "NewEndpoint endpoint remoteInit wgEndpoint t ctr =
     (\<lparr>ep_t = t, ep_lastHeardBack = ZeroTime, ep_remoteInit = remoteInit, ep_WgEndpoint = wgEndpoint,
       ep_DynEP = endpoint, ep_Bind = \<lparr>lb_Interface = [], lb_Source = AddrInvalid\<rparr>,
       ep_Transport = TransportUDP, ep_LinkId = ctr + 1,
       ep_owdOut = delayFilter_zero, ep_owdIn = delayFilter_zero,
       ep_peerTx = 0, ep_peerTxRxAt = 0, ep_havePeerTx = False, ep_pending = [],
       ep_lossEWMA = 0, ep_lossInit = False, ep_lossSamples = 0\<rparr>, ctr + 1)"

definition isActiveUnlocked :: "instant \<Rightarrow> NylonEndpoint \<Rightarrow> bool" where
  "isActiveUnlocked now u \<longleftrightarrow> time_Sub now (ep_lastHeardBack u) \<le> LinkDeadThreshold (ep_t u)"

definition Renew :: "instant \<Rightarrow> NylonEndpoint \<Rightarrow> NylonEndpoint" where
  "Renew now u =
     (let u = (if \<not> isActiveUnlocked now u
               then u\<lparr>ep_owdOut := df_reset (ep_owdOut u), ep_owdIn := df_reset (ep_owdIn u),
                      ep_havePeerTx := False, ep_pending := [],
                      ep_lossEWMA := 0, ep_lossInit := False, ep_lossSamples := 0\<rparr>
               else u)
      in u\<lparr>ep_lastHeardBack := now\<rparr>)"

definition IsAlive :: "instant \<Rightarrow> NylonEndpoint \<Rightarrow> bool" where
  "IsAlive now u \<longleftrightarrow> isActiveUnlocked now u \<or> \<not> ep_remoteInit u"

definition recordLossLocked :: "bool \<Rightarrow> NylonEndpoint \<Rightarrow> NylonEndpoint" where
  "recordLossLocked received u =
     (let sample = (if received then 0 else 1);
          u = (if \<not> ep_lossInit u then u\<lparr>ep_lossEWMA := sample, ep_lossInit := True\<rparr>
               else let a = LossSmoothingAlpha (ep_t u)
                    in u\<lparr>ep_lossEWMA := fadd (fmul a sample) (fmul (fsub 1 a) (ep_lossEWMA u))\<rparr>)
      in if ep_lossSamples u < MinimumConfidenceWindow (ep_t u)
         then u\<lparr>ep_lossSamples := ep_lossSamples u + 1\<rparr> else u)"

definition RegisterProbe :: "int \<Rightarrow> NylonEndpoint \<Rightarrow> NylonEndpoint" where
  "RegisterProbe txTs u =
     (let p = ep_pending u @ [txTs];
          p = (if length p > pendingProbeCap then drop (length p - pendingProbeCap) p else p)
      in u\<lparr>ep_pending := p\<rparr>)"

text \<open>\<^verbatim>\<open>slices.Delete\<close> at the index of the first occurrence, when there is one.\<close>

definition CancelProbe :: "int \<Rightarrow> NylonEndpoint \<Rightarrow> NylonEndpoint" where
  "CancelProbe txTs u = (if txTs \<in> set (ep_pending u) then u\<lparr>ep_pending := remove1 txTs (ep_pending u)\<rparr> else u)"

fun SweepProbes_loop :: "int \<Rightarrow> int list \<Rightarrow> int list \<Rightarrow> NylonEndpoint \<Rightarrow> NylonEndpoint" where
  "SweepProbes_loop nowNs [] kept u = u\<lparr>ep_pending := kept\<rparr>"
| "SweepProbes_loop nowNs (txTs # ts) kept u =
     (if s64 (nowNs - txTs) > ProbeTimeout
      then SweepProbes_loop nowNs ts kept (recordLossLocked False u)
      else SweepProbes_loop nowNs ts (kept @ [txTs]) u)"

definition SweepProbes :: "int \<Rightarrow> NylonEndpoint \<Rightarrow> NylonEndpoint" where
  "SweepProbes nowNs u = SweepProbes_loop nowNs (ep_pending u) [] u"

definition EchoInfo :: "int \<Rightarrow> NylonEndpoint \<Rightarrow> int \<times> int \<times> bool" where
  "EchoInfo nowNs u =
     (if \<not> ep_havePeerTx u \<or> s64 (nowNs - ep_peerTxRxAt u) > EchoValidity then (0, 0, False)
      else (ep_peerTx u, ep_peerTxRxAt u, True))"

definition ObserveInbound :: "int \<Rightarrow> int \<Rightarrow> NylonEndpoint \<Rightarrow> NylonEndpoint" where
  "ObserveInbound peerTx rxNs u =
     (if ep_havePeerTx u \<and> peerTx \<le> ep_peerTx u \<and> s64 (ep_peerTx u - peerTx) < ClockJumpReset then u
      else u\<lparr>ep_peerTx := peerTx, ep_peerTxRxAt := rxNs, ep_havePeerTx := True,
             ep_owdIn := df_update (s64 (rxNs - peerTx)) (ep_t u) (ep_owdIn u)\<rparr>)"

definition ObserveEcho :: "int \<Rightarrow> int \<Rightarrow> NylonEndpoint \<Rightarrow> NylonEndpoint \<times> bool" where
  "ObserveEcho originTx peerRx u =
     (if originTx \<notin> set (ep_pending u) then (u, False)
      else let u = u\<lparr>ep_pending := remove1 originTx (ep_pending u)\<rparr>;
               u = u\<lparr>ep_owdOut := df_update (s64 (peerRx - originTx)) (ep_t u) (ep_owdOut u)\<rparr>
           in (recordLossLocked True u, True))"

definition RelDelays :: "NylonEndpoint \<Rightarrow> ((duration \<times> duration) option \<times> NylonEndpoint) option" where
  "RelDelays u =
     (if \<not> df_ready (ep_t u) (ep_owdOut u) \<or> \<not> df_ready (ep_t u) (ep_owdIn u) then Some (None, u)
      else do {
        (o1, fo) \<leftarrow> df_stabilized (ep_t u) (ep_owdOut u);
        (i1, fi) \<leftarrow> df_stabilized (ep_t u) (ep_owdIn u);
        Some (Some (o1, i1), u\<lparr>ep_owdOut := fo, ep_owdIn := fi\<rparr>)
      })"

definition LossRate :: "NylonEndpoint \<Rightarrow> f64" where
  "LossRate u =
     (if ep_lossSamples u < MinimumConfidenceWindow (ep_t u) then 0
      else let l = ep_lossEWMA u;
               l = (if l < 0 then 0 else l);
               l = (if l > LossCap (ep_t u) then LossCap (ep_t u) else l)
           in l)"

definition dirScores :: "NylonEndpoint \<Rightarrow> ((int \<times> int) option \<times> NylonEndpoint) option" where
  "dirScores u = do {
     (r, u) \<leftarrow> RelDelays u;
     (case r of
        None \<Rightarrow> Some (None, u)
      | Some (rOut, rIn) \<Rightarrow>
          let p = min (LossRate u) (LossCap (ep_t u));
              pen = (if p > 0
                     then int_of_f64 (fdiv (fmul (f64_of_int (s64 (rOut + rIn + LossRetxFloor (ep_t u)))) p) (fsub 1 p))
                     else 0)
          in Some (Some (s64 (rOut + pen), s64 (rIn + pen)), u))
   }"

definition FilteredPing :: "NylonEndpoint \<Rightarrow> duration" where
  "FilteredPing u =
     (if \<not> df_init (ep_owdOut u) \<or> \<not> df_init (ep_owdIn u) then 0
      else s64 (df_filtered (ep_owdOut u) + df_filtered (ep_owdIn u)))"

definition StabilizedPing :: "NylonEndpoint \<Rightarrow> (duration \<times> NylonEndpoint) option" where
  "StabilizedPing u = do {
     (r, u) \<leftarrow> RelDelays u;
     Some (case r of None \<Rightarrow> 0 | Some (out, inn) \<Rightarrow> s64 (out + inn), u)
   }"

definition DurationToMetric :: "duration \<Rightarrow> u32" where
  "DurationToMetric d =
     (if d = MaxInt64 then M_INF else of_int (min (Microseconds d) (uint M_INF - 1)))"

definition MetricToDuration :: "u32 \<Rightarrow> duration" where
  "MetricToDuration m = (if m \<ge> M_INF then MaxInt64 else s64 (uint m * Microsecond))"

definition etxMetric :: "duration \<Rightarrow> f64 \<Rightarrow> RouterTunables \<Rightarrow> u32" where
  "etxMetric base p t =
     (if p \<le> 0 then DurationToMetric base
      else let factor = fdiv p (fsub 1 p);
               extra = int_of_f64 (fmul (f64_of_int (s64 (base + LossRetxFloor t))) factor)
           in DurationToMetric (s64 (base + extra)))"

definition NylonEndpoint_Metric :: "instant \<Rightarrow> NylonEndpoint \<Rightarrow> (u32 \<times> NylonEndpoint) option" where
  "NylonEndpoint_Metric now u =
     (if \<not> isActiveUnlocked now u then Some (M_INF, u)
      else do {
        (base, u) \<leftarrow> StabilizedPing u;
        let base = (if base = 0 then WarmupDelay else base);
        let base = max base MinLinkDelay;
        Some (etxMetric base (LossRate u) (ep_t u), u)
      })"

subsection \<open>The filter window\<close>

definition wf_filter :: "RouterTunables \<Rightarrow> delayFilter \<Rightarrow> bool" where
  "wf_filter t f \<longleftrightarrow>
     int (length (df_history f)) \<le> WindowSamples t \<and>
     (\<not> df_dirty f \<longrightarrow> df_histSort f = sort (df_history f))"

lemma wf_filter_zero: "wf_tunables t \<Longrightarrow> wf_filter t delayFilter_zero"
  by (simp add: wf_filter_def delayFilter_zero_def wf_tunables_def)

lemma wf_filter_reset: "wf_tunables t \<Longrightarrow> wf_filter t (df_reset f)"
  by (simp add: wf_filter_def df_reset_def wf_tunables_def)

lemma wf_filter_update: "wf_tunables t \<Longrightarrow> wf_filter t f \<Longrightarrow> wf_filter t (df_update s t f)"
  by (auto simp: wf_filter_def df_update_def df_reset_def wf_tunables_def Let_def)

text \<open>Both cut-offs of the trimmed window are indices of it, on either side of the median.\<close>

lemma trim_low:
  assumes "wf_tunables t" and "1 \<le> le" and "le < 2 ^ 31"
  shows "0 \<le> int_of_f64 (fmul (f64_of_int le) (OutlierPercentage t))"
    and "int_of_f64 (fmul (f64_of_int le) (OutlierPercentage t)) \<le> le div 2"
proof -
  let ?p = "OutlierPercentage t"
  have le: "f64_of_int le = of_int le"
    using assms by (intro f64_of_int_exact) simp
  have p: "0 \<le> ?p" "?p \<le> 1 / 2"
    using assms(1) unfolding wf_tunables_def by (auto intro: order.trans [rotated])
  have "0 \<le> f64 (of_int le * ?p)"
    using p assms by (intro f64_nonneg) simp
  then show "0 \<le> int_of_f64 (fmul (f64_of_int le) ?p)"
    by (simp add: le fmul_def int_of_f64_def)
  have "of_int le * ?p \<le> of_int le * (1 / 2)"
    using p assms by (intro mult_left_mono) simp_all
  then have "f64 (of_int le * ?p) \<le> f64 (of_int le / 2 ^ 1)"
    by (intro f64_mono) simp
  also have "\<dots> = of_int le / 2 ^ 1"
    using assms by (intro f64_dyadic) simp_all
  finally have "f64 (of_int le * ?p) \<le> of_int le / 2"
    by simp
  then have "\<lfloor>f64 (of_int le * ?p)\<rfloor> \<le> \<lfloor>(of_int le / of_int 2 :: rat)\<rfloor>"
    by (intro floor_mono) simp
  then show "int_of_f64 (fmul (f64_of_int le) ?p) \<le> le div 2"
    using \<open>0 \<le> f64 (of_int le * ?p)\<close> unfolding floor_divide_of_int_eq
    by (simp add: le fmul_def int_of_f64_def)
qed

lemma trim_high:
  assumes "wf_tunables t" and "1 \<le> le" and "le < 2 ^ 31"
  shows "le div 2 \<le> int_of_f64 (fmul (f64_of_int le) (fsub 1 (OutlierPercentage t)))"
    and "int_of_f64 (fmul (f64_of_int le) (fsub 1 (OutlierPercentage t))) < le"
proof -
  let ?p = "OutlierPercentage t" and ?q = "fsub 1 (OutlierPercentage t)"
  let ?x = "f64 (of_int le * ?q)"
  have le: "f64_of_int le = of_int le"
    using assms by (intro f64_of_int_exact) simp
  have p: "1 / 2 ^ 20 \<le> ?p" "?p \<le> 1 / 2"
    using assms(1) unfolding wf_tunables_def by auto
  have q: "1 / 2 \<le> ?q" "?q \<le> 1048575 / 2 ^ 20"
    using f64_bounds_dyadic [of 524288 1048575 20 "1 - ?p"] p by (simp_all add: fsub_def)
  have "(of_int le :: rat) / 2 ^ 1 = f64 (of_int le / 2 ^ 1)"
    using assms by (intro f64_dyadic [symmetric]) simp_all
  also have "\<dots> \<le> ?x"
    using mult_left_mono [OF q(1), of "of_int le"] assms by (intro f64_mono) simp
  finally have lo: "of_int le / 2 \<le> ?x"
    by simp
  then have "\<lfloor>(of_int le / of_int 2 :: rat)\<rfloor> \<le> \<lfloor>?x\<rfloor>"
    by (intro floor_mono) simp
  moreover have x0: "0 \<le> ?x"
    using lo assms by (intro order.trans [OF _ lo]) simp
  ultimately show "le div 2 \<le> int_of_f64 (fmul (f64_of_int le) ?q)"
    unfolding floor_divide_of_int_eq by (simp add: le fmul_def int_of_f64_def)
  have "of_int le * ?q \<le> of_int le * (1048575 / 2 ^ 20)"
    using q assms by (intro mult_left_mono) simp_all
  also have "\<dots> \<le> of_int (le * 1048576 - 1) / 2 ^ 20"
    using assms by (simp add: field_simps)
  finally have "?x \<le> f64 (of_int (le * 1048576 - 1) / 2 ^ 20)"
    by (rule f64_mono)
  also have "\<dots> = of_int (le * 1048576 - 1) / 2 ^ 20"
    using assms by (intro f64_dyadic) simp_all
  also have "\<dots> < of_int le"
    by (simp add: field_simps)
  finally have "\<lfloor>?x\<rfloor> < le"
    by (simp add: floor_less_iff)
  then show "int_of_f64 (fmul (f64_of_int le) ?q) < le"
    using x0 by (simp add: le fmul_def int_of_f64_def)
qed

text \<open>
  The specification of a stabilised reading: it never panics once the window is ready, it
  lies in the trimmed range, it leaves the window alone, and reading again changes nothing.
\<close>

definition trim_ix :: "RouterTunables \<Rightarrow> nat \<Rightarrow> nat \<times> nat" where
  "trim_ix t n = (nat (int_of_f64 (fmul (f64_of_int (int n)) (OutlierPercentage t))),
                  nat (int_of_f64 (fmul (f64_of_int (int n)) (fsub 1 (OutlierPercentage t)))))"

lemma trim_ix_bounds:
  assumes "wf_tunables t" and "1 \<le> n" and "int n \<le> WindowSamples t" and "trim_ix t n = (i, j)"
  shows "i \<le> n div 2 \<and> n div 2 \<le> j \<and> j < n"
proof -
  have n: "1 \<le> int n" "int n < 2 ^ 31"
    using assms unfolding wf_tunables_def by auto
  have "int (n div 2) = int n div 2"
    by simp
  then show ?thesis
    using trim_low [OF assms(1) n] trim_high [OF assms(1) n] assms(4)
    unfolding trim_ix_def by auto
qed

definition df_read :: "RouterTunables \<Rightarrow> delayFilter \<Rightarrow> duration" where
  "df_read t f =
     (let hs = sort (df_history f); (i, j) = trim_ix t (length hs)
      in if hs ! i > df_prevMedian f \<or> hs ! j < df_prevMedian f then hs ! (length hs div 2)
         else df_prevMedian f)"

lemma df_stabilized_eq:
  assumes "wf_tunables t" and "wf_filter t f" and "df_ready t f"
  shows "df_stabilized t f =
    Some (df_read t f, f\<lparr>df_histSort := sort (df_history f), df_dirty := False, df_prevMedian := df_read t f\<rparr>)"
proof -
  let ?hs = "sort (df_history f)" and ?n = "length (df_history f)"
  obtain i j where ij: "trim_ix t ?n = (i, j)"
    by (cases "trim_ix t ?n")
  have n: "1 \<le> ?n" "int ?n \<le> WindowSamples t" "1 \<le> int ?n" "int ?n < 2 ^ 31"
    using assms unfolding wf_tunables_def wf_filter_def df_ready_def by auto
  have b: "i \<le> ?n div 2" "?n div 2 \<le> j" "j < ?n"
    using trim_ix_bounds [OF assms(1) n(1,2) ij] by auto
  have ix: "int_of_f64 (fmul (f64_of_int (int ?n)) (OutlierPercentage t)) = int i"
    "int_of_f64 (fmul (f64_of_int (int ?n)) (fsub 1 (OutlierPercentage t))) = int j"
    using trim_low(1) [OF assms(1) n(3,4)] trim_high(1) [OF assms(1) n(3,4)] ij
    unfolding trim_ix_def by auto
  have m: "int ?n sdiv 2 = int (?n div 2)"
    using n by (auto simp: signed_divide_int_def zdiv_int)
  have ff: "(if df_dirty f then f\<lparr>df_histSort := ?hs, df_dirty := False\<rparr> else f)
      = f\<lparr>df_histSort := ?hs, df_dirty := False\<rparr>"
    using assms(2) by (cases f) (simp add: wf_filter_def)
  show ?thesis
    unfolding df_stabilized_def Let_def ff using b ij
    by (simp add: ix m go_index_def df_read_def Let_def)
qed

lemma df_read_trimmed:
  assumes "wf_tunables t" and "wf_filter t f" and "df_ready t f"
    and "trim_ix t (length (df_history f)) = (i, j)"
  shows "sort (df_history f) ! i \<le> df_read t f \<and> df_read t f \<le> sort (df_history f) ! j"
proof -
  let ?n = "length (df_history f)"
  have "i \<le> ?n div 2" "?n div 2 \<le> j" "j < ?n"
    using trim_ix_bounds [of t ?n i j] assms unfolding wf_tunables_def wf_filter_def df_ready_def by auto
  then have "sort (df_history f) ! i \<le> sort (df_history f) ! (?n div 2)"
    "sort (df_history f) ! (?n div 2) \<le> sort (df_history f) ! j"
    by (auto intro!: sorted_nth_mono)
  then show ?thesis
    using assms(4) by (auto simp: df_read_def Let_def not_less)
qed

text \<open>The filter a reading leaves behind.\<close>

definition df_settle :: "RouterTunables \<Rightarrow> delayFilter \<Rightarrow> delayFilter" where
  "df_settle t f =
     f\<lparr>df_histSort := sort (df_history f), df_dirty := False, df_prevMedian := df_read t f\<rparr>"

lemma df_settle_simps [simp]:
  "df_history (df_settle t f) = df_history f"
  "df_ready t (df_settle t f) = df_ready t f"
  "df_init (df_settle t f) = df_init f"
  "df_exp (df_settle t f) = df_exp f"
  by (simp_all add: df_settle_def df_ready_def)

lemma wf_df_settle [simp]: "wf_filter t f \<Longrightarrow> wf_filter t (df_settle t f)"
  by (simp add: wf_filter_def df_settle_def)

lemma df_read_settle [simp]:
  assumes "wf_tunables t" and "wf_filter t f" and "df_ready t f"
  shows "df_read t (df_settle t f) = df_read t f"
proof -
  obtain i j where ij: "trim_ix t (length (df_history f)) = (i, j)"
    by (cases "trim_ix t (length (df_history f))")
  moreover have "df_prevMedian (df_settle t f) = df_read t f"
    by (simp add: df_settle_def)
  ultimately show ?thesis
    using df_read_trimmed [OF assms ij] by (simp add: df_read_def [of t "df_settle t f"])
qed

lemma df_settle_idem [simp]:
  "wf_tunables t \<Longrightarrow> wf_filter t f \<Longrightarrow> df_ready t f \<Longrightarrow> df_settle t (df_settle t f) = df_settle t f"
  using df_read_settle [of t f] by (simp add: df_settle_def)

subsection \<open>Links\<close>

definition wf_ep :: "NylonEndpoint \<Rightarrow> bool" where
  "wf_ep u \<longleftrightarrow>
     wf_tunables (ep_t u) \<and> wf_filter (ep_t u) (ep_owdOut u) \<and> wf_filter (ep_t u) (ep_owdIn u) \<and>
     length (ep_pending u) \<le> pendingProbeCap \<and>
     0 \<le> ep_lossSamples u \<and> ep_lossSamples u \<le> MinimumConfidenceWindow (ep_t u)"

lemma wf_epD:
  assumes "wf_ep u"
  shows "wf_tunables (ep_t u)" "wf_filter (ep_t u) (ep_owdOut u)" "wf_filter (ep_t u) (ep_owdIn u)"
    "length (ep_pending u) \<le> pendingProbeCap"
  using assms by (simp_all add: wf_ep_def)

text \<open>What a link reports, without the bookkeeping of a reading.\<close>

definition ep_ready :: "NylonEndpoint \<Rightarrow> bool" where
  "ep_ready u \<longleftrightarrow> df_ready (ep_t u) (ep_owdOut u) \<and> df_ready (ep_t u) (ep_owdIn u)"

definition ep_rel :: "NylonEndpoint \<Rightarrow> (duration \<times> duration) option" where
  "ep_rel u = (if ep_ready u then Some (df_read (ep_t u) (ep_owdOut u), df_read (ep_t u) (ep_owdIn u)) else None)"

definition ep_settle :: "NylonEndpoint \<Rightarrow> NylonEndpoint" where
  "ep_settle u =
     (if ep_ready u
      then u\<lparr>ep_owdOut := df_settle (ep_t u) (ep_owdOut u), ep_owdIn := df_settle (ep_t u) (ep_owdIn u)\<rparr>
      else u)"

lemma RelDelays_eq: "wf_ep u \<Longrightarrow> RelDelays u = Some (ep_rel u, ep_settle u)"
  using wf_epD [of u]
  by (simp add: RelDelays_def ep_rel_def ep_settle_def ep_ready_def df_stabilized_eq df_settle_def)

lemma ep_settle_simps [simp]:
  "ep_t (ep_settle u) = ep_t u" "ep_lastHeardBack (ep_settle u) = ep_lastHeardBack u"
  "ep_Transport (ep_settle u) = ep_Transport u" "ep_ready (ep_settle u) = ep_ready u"
  "ep_remoteInit (ep_settle u) = ep_remoteInit u" "ep_pending (ep_settle u) = ep_pending u"
  "ep_lossSamples (ep_settle u) = ep_lossSamples u" "ep_lossEWMA (ep_settle u) = ep_lossEWMA u"
  "isActiveUnlocked now (ep_settle u) = isActiveUnlocked now u" "LossRate (ep_settle u) = LossRate u"
  by (simp_all add: ep_settle_def ep_ready_def isActiveUnlocked_def LossRate_def Let_def)

lemma wf_ep_settle [simp]: "wf_ep u \<Longrightarrow> wf_ep (ep_settle u)"
  by (auto simp: wf_ep_def ep_settle_def)

lemma ep_rel_settle [simp]: "wf_ep u \<Longrightarrow> ep_rel (ep_settle u) = ep_rel u"
  using wf_epD [of u] by (simp add: ep_rel_def) (simp add: ep_settle_def ep_ready_def)

lemma ep_settle_idem [simp]: "wf_ep u \<Longrightarrow> ep_settle (ep_settle u) = ep_settle u"
  using wf_epD [of u] by (simp add: ep_settle_def ep_ready_def)

definition ep_scores :: "NylonEndpoint \<Rightarrow> (int \<times> int) option" where
  "ep_scores u =
     (case ep_rel u of None \<Rightarrow> None
      | Some (rOut, rIn) \<Rightarrow>
          let p = min (LossRate u) (LossCap (ep_t u));
              pen = (if p > 0
                     then int_of_f64 (fdiv (fmul (f64_of_int (s64 (rOut + rIn + LossRetxFloor (ep_t u)))) p) (fsub 1 p))
                     else 0)
          in Some (s64 (rOut + pen), s64 (rIn + pen)))"

lemma dirScores_eq: "wf_ep u \<Longrightarrow> dirScores u = Some (ep_scores u, ep_settle u)"
  by (auto simp: dirScores_def RelDelays_eq ep_scores_def Let_def split: option.splits)

lemma ep_scores_settle [simp]: "wf_ep u \<Longrightarrow> ep_scores (ep_settle u) = ep_scores u"
  by (cases "ep_rel u") (auto simp: ep_scores_def Let_def)

lemma ep_scores_ready: "ep_scores u = None \<longleftrightarrow> \<not> ep_ready u"
  by (simp add: ep_scores_def ep_rel_def Let_def)

definition ep_base :: "NylonEndpoint \<Rightarrow> duration" where
  "ep_base u =
     (let ping = (case ep_rel u of None \<Rightarrow> 0 | Some (out, inn) \<Rightarrow> s64 (out + inn))
      in max (if ping = 0 then WarmupDelay else ping) MinLinkDelay)"

definition ep_metric :: "instant \<Rightarrow> NylonEndpoint \<Rightarrow> u32" where
  "ep_metric now u =
     (if isActiveUnlocked now u then etxMetric (ep_base u) (LossRate u) (ep_t u) else M_INF)"

definition ep_settle_if :: "instant \<Rightarrow> NylonEndpoint \<Rightarrow> NylonEndpoint" where
  "ep_settle_if now u = (if isActiveUnlocked now u then ep_settle u else u)"

lemma NylonEndpoint_Metric_eq:
  "wf_ep u \<Longrightarrow> NylonEndpoint_Metric now u = Some (ep_metric now u, ep_settle_if now u)"
  by (simp add: NylonEndpoint_Metric_def StabilizedPing_def RelDelays_eq ep_metric_def ep_base_def
      ep_settle_if_def Let_def)

lemma ep_metric_settle [simp]: "wf_ep u \<Longrightarrow> ep_metric now (ep_settle u) = ep_metric now u"
  by (simp add: ep_metric_def ep_base_def)

lemma recordLoss_simps [simp]:
  "ep_t (recordLossLocked r u) = ep_t u" "ep_pending (recordLossLocked r u) = ep_pending u"
  "ep_owdOut (recordLossLocked r u) = ep_owdOut u" "ep_owdIn (recordLossLocked r u) = ep_owdIn u"
  "ep_lastHeardBack (recordLossLocked r u) = ep_lastHeardBack u"
  by (simp_all add: recordLossLocked_def Let_def)

lemma wf_ep_recordLoss [simp]: "wf_ep u \<Longrightarrow> wf_ep (recordLossLocked r u)"
  by (auto simp: wf_ep_def) (auto simp: recordLossLocked_def Let_def)

lemma recordLoss_pending [simp]:
  "recordLossLocked r (u\<lparr>ep_pending := ps\<rparr>) = (recordLossLocked r u)\<lparr>ep_pending := ps\<rparr>"
  by (cases u) (simp add: recordLossLocked_def Let_def)

text \<open>The sweep keeps the probes that are still in time and counts every other one as lost.\<close>

lemma SweepProbes_loop_eq:
  "SweepProbes_loop nowNs ts kept u =
     ((recordLossLocked False ^^ length (filter (\<lambda>x. s64 (nowNs - x) > ProbeTimeout) ts)) u)
       \<lparr>ep_pending := kept @ filter (\<lambda>x. s64 (nowNs - x) \<le> ProbeTimeout) ts\<rparr>"
  by (induction ts arbitrary: kept u) (auto simp: funpow_swap1)

lemma recordLoss_iter [simp]:
  "wf_ep u \<Longrightarrow> wf_ep ((recordLossLocked r ^^ n) u)"
  "ep_pending ((recordLossLocked r ^^ n) u) = ep_pending u"
  by (induction n) auto

lemma wf_ep_pending: "wf_ep u \<Longrightarrow> length ps \<le> pendingProbeCap \<Longrightarrow> wf_ep (u\<lparr>ep_pending := ps\<rparr>)"
  by (simp add: wf_ep_def)

lemma wf_ep_SweepProbes: "wf_ep u \<Longrightarrow> wf_ep (SweepProbes nowNs u)"
  unfolding SweepProbes_def SweepProbes_loop_eq
  by (rule wf_ep_pending) (auto intro!: le_trans [OF length_filter_le] wf_epD(4))

lemma wf_ep_NewEndpoint: "wf_tunables t \<Longrightarrow> wf_ep (fst (NewEndpoint d r w t c))"
  by (auto simp: NewEndpoint_def wf_ep_def wf_filter_zero pendingProbeCap_def wf_tunables_def)

lemma wf_ep_Renew: "wf_ep u \<Longrightarrow> wf_ep (Renew now u)"
  by (auto simp: Renew_def wf_ep_def wf_filter_reset pendingProbeCap_def wf_tunables_def Let_def)

lemma wf_ep_RegisterProbe: "wf_ep u \<Longrightarrow> wf_ep (RegisterProbe tx u)"
  by (auto simp: RegisterProbe_def wf_ep_def Let_def)

lemma wf_ep_CancelProbe: "wf_ep u \<Longrightarrow> wf_ep (CancelProbe tx u)"
  by (auto simp: CancelProbe_def wf_ep_def length_remove1)

lemma wf_ep_ObserveInbound: "wf_ep u \<Longrightarrow> wf_ep (ObserveInbound tx rx u)"
  by (auto simp: ObserveInbound_def wf_ep_def wf_filter_update)

lemma wf_ep_ObserveEcho: "wf_ep u \<Longrightarrow> wf_ep (fst (ObserveEcho tx rx u))"
  by (auto simp: ObserveEcho_def Let_def intro!: wf_ep_recordLoss)
    (auto simp: wf_ep_def wf_filter_update length_remove1)

subsection \<open>Metrics and durations\<close>

lemma Microseconds_mult [simp]: "0 \<le> n \<Longrightarrow> Microseconds (n * 1000) = n"
  by (simp add: Microseconds_nonneg)

lemma uint_M_INF: "uint M_INF = 4294967295"
  by (simp add: M_INF_eval)

lemma uint_u32_less: "uint (m :: u32) < 4294967296"
  using unsigned_less [of m, where ?'a = int] by simp

lemma uint_DurationToMetric:
  assumes "0 \<le> d" and "d \<noteq> MaxInt64"
  shows "uint (DurationToMetric d) = min (d div 1000) 4294967294"
proof -
  have "0 \<le> min (d div 1000) 4294967294" "min (d div 1000) 4294967294 < 2 ^ 32"
    using assms by auto
  then show ?thesis
    using assms
    by (simp add: DurationToMetric_def Microseconds_nonneg uint_M_INF uint_word_of_int)
qed

lemma DurationToMetric_mono:
  assumes "0 \<le> d" and "d \<le> d'" and "d' < MaxInt64"
  shows "DurationToMetric d \<le> DurationToMetric d'"
proof -
  have "d div 1000 \<le> d' div 1000"
    using assms by (intro zdiv_mono1) auto
  then show ?thesis
    using assms by (simp add: word_le_def uint_DurationToMetric)
qed

lemma DurationToMetric_finite: "0 \<le> d \<Longrightarrow> d \<noteq> MaxInt64 \<Longrightarrow> DurationToMetric d \<noteq> M_INF"
  using uint_DurationToMetric [of d] uint_M_INF by auto

lemma extra_nonneg:
  assumes "0 \<le> (x :: int)" and "0 \<le> p" and "p < 1"
  shows "0 \<le> int_of_f64 (fmul (f64_of_int x) (fdiv p (fsub 1 p)))"
proof -
  have "0 \<le> f64 (1 - p)" "0 \<le> f64_of_int x"
    using assms by (auto simp: f64_of_int_def intro: f64_nonneg)
  then have "0 \<le> fdiv p (fsub 1 p)"
    using assms(2) unfolding fdiv_def fsub_def by (intro f64_nonneg [of "_ / _"] divide_nonneg_nonneg)
  then have "0 \<le> fmul (f64_of_int x) (fdiv p (fsub 1 p))"
    using \<open>0 \<le> f64_of_int x\<close> unfolding fmul_def by (intro f64_nonneg mult_nonneg_nonneg)
  then show ?thesis
    by (simp add: int_of_f64_def)
qed

text \<open>The retransmission surcharge of a lossy link, in nanoseconds.\<close>

definition etx_extra :: "duration \<Rightarrow> f64 \<Rightarrow> RouterTunables \<Rightarrow> duration" where
  "etx_extra base p t = int_of_f64 (fmul (f64_of_int (s64 (base + LossRetxFloor t))) (fdiv p (fsub 1 p)))"

subsection \<open>Properties\<close>

text \<open>C23: Once a filter window holds the minimum number of samples, reading the stabilised
delay never indexes outside the window, returns a value between the two trimmed quantiles of
the history, leaves the history alone, and a second reading returns the same value.\<close>

theorem df_stabilized_correct:
  assumes "wf_tunables t" and "wf_filter t f" and "df_ready t f"
    and "trim_ix t (length (df_history f)) = (i, j)"
  shows "\<exists>m f'. df_stabilized t f = Some (m, f') \<and>
      sort (df_history f) ! i \<le> m \<and> m \<le> sort (df_history f) ! j \<and>
      df_history f' = df_history f \<and> wf_filter t f' \<and> df_stabilized t f' = Some (m, f')"
proof -
  have 1: "df_stabilized t f = Some (df_read t f, df_settle t f)"
    using assms df_stabilized_eq by (simp add: df_settle_def)
  have "df_stabilized t (df_settle t f) = Some (df_read t f, df_settle t f)"
    using assms df_stabilized_eq [of t "df_settle t f"] df_settle_idem [of t f]
    by (simp add: df_settle_def [of t "df_settle t f"])
  then show ?thesis
    using 1 df_read_trimmed [OF assms] assms by auto
qed

definition filter_15 :: delayFilter where
  "filter_15 = \<lparr>df_history = map int [1..<16], df_histSort = [], df_dirty = True,
     df_prevMedian = 0, df_exp = 15, df_init = True\<rparr>"

lemma df_stabilized_correct_witness:
  "\<exists>m f'. df_stabilized DefaultRouterTunables filter_15 = Some (m, f') \<and> 1 \<le> m \<and> m \<le> 15 \<and>
     df_history f' = df_history filter_15 \<and> wf_filter DefaultRouterTunables f' \<and>
     df_stabilized DefaultRouterTunables f' = Some (m, f')"
proof -
  have t: "trim_ix DefaultRouterTunables (length (df_history filter_15)) = (0, 14)"
    by code_simp
  have f: "wf_filter DefaultRouterTunables filter_15" "df_ready DefaultRouterTunables filter_15"
    by code_simp+
  have "sort (df_history filter_15) ! 0 = 1" "sort (df_history filter_15) ! 14 = 15"
    by code_simp+
  then show ?thesis
    using df_stabilized_correct [OF wf_DefaultRouterTunables f t] by simp
qed

text \<open>C22: A link's bookkeeping stays within its bounds (windows no longer than the configured
sample count, sorted copy in step with the history, at most 128 unanswered probes, loss sample
count within the confidence window) from creation and across every operation of a link.\<close>

theorem link_invariant:
  assumes "wf_tunables t" and "wf_ep u"
  shows "wf_ep (fst (NewEndpoint d remote w t c)) \<and> wf_ep (Renew now u) \<and>
    wf_ep (RegisterProbe tx u) \<and> wf_ep (CancelProbe tx u) \<and> wf_ep (SweepProbes nowNs u) \<and>
    wf_ep (ObserveInbound tx rx u) \<and> wf_ep (fst (ObserveEcho tx rx u)) \<and>
    (\<exists>r u'. RelDelays u = Some (r, u') \<and> wf_ep u') \<and>
    (\<exists>m u'. NylonEndpoint_Metric now u = Some (m, u') \<and> wf_ep u')"
  using assms
  by (simp add: wf_ep_NewEndpoint wf_ep_Renew wf_ep_RegisterProbe wf_ep_CancelProbe
      wf_ep_SweepProbes wf_ep_ObserveInbound wf_ep_ObserveEcho RelDelays_eq
      NylonEndpoint_Metric_eq ep_settle_if_def)

definition link_0 :: NylonEndpoint where
  "link_0 = fst (NewEndpoint \<lparr>dep_Value = ''10.0.0.1:57175'', dep_lastValue = AddrPort_zero,
     dep_lastUpdate = ZeroTime\<rparr> False None DefaultRouterTunables 0)"

lemma wf_link_0: "wf_ep link_0"
  unfolding link_0_def by (rule wf_ep_NewEndpoint) (rule wf_DefaultRouterTunables)

lemma link_invariant_witness:
  "wf_ep (RegisterProbe 7 link_0) \<and> wf_ep (ObserveInbound 1 2 link_0) \<and>
   (\<exists>m u'. NylonEndpoint_Metric 0 link_0 = Some (m, u') \<and> wf_ep u')"
  using link_invariant [OF wf_DefaultRouterTunables wf_link_0] by blast



text \<open>C25: A sweep keeps exactly the pending probes that are not older than the probe timeout, in
order, and folds one lost probe into the loss estimate for each of the others.\<close>

theorem sweep_counts_losses:
  "SweepProbes nowNs u =
     ((recordLossLocked False ^^ length (filter (\<lambda>x. s64 (nowNs - x) > ProbeTimeout) (ep_pending u))) u)
       \<lparr>ep_pending := filter (\<lambda>x. s64 (nowNs - x) \<le> ProbeTimeout) (ep_pending u)\<rparr>"
  by (simp add: SweepProbes_def SweepProbes_loop_eq)



text \<open>C27: Converting a metric to a duration and back gives the metric, infinity included.\<close>

theorem metric_duration_roundtrip: "DurationToMetric (MetricToDuration m) = m"
proof (cases "m = M_INF")
  case False
  then have "\<not> m \<ge> M_INF"
    by (simp add: not_le finite_less_M_INF)
  moreover have m: "uint m \<le> 4294967294"
    using False uint_u32_less [of m] by (simp add: word_uint_eq_iff uint_M_INF)
  moreover have "s64 (uint m * 1000) = uint m * 1000"
    using m by (intro s64_eqI) (auto intro: order.trans [of _ 0])
  ultimately show ?thesis
    using m by (simp add: DurationToMetric_def MetricToDuration_def MaxInt64_def uint_M_INF)
qed (simp add: DurationToMetric_def MetricToDuration_def)

text \<open>C28: Packet loss never makes a link cheaper and never turns a live link's metric into a
retraction: with a loss rate below one and a sum that fits a duration, the penalised metric is finite
and at least the metric of the bare delay.\<close>

theorem etx_penalises:
  assumes "0 \<le> base" and "0 \<le> LossRetxFloor t" and "0 \<le> p" and "p < 1"
    and "base + LossRetxFloor t < MaxInt64" and "base + etx_extra base p t < MaxInt64"
  shows "DurationToMetric base \<le> etxMetric base p t \<and> etxMetric base p t \<noteq> M_INF"
proof -
  let ?x = "etx_extra base p t"
  have x: "0 \<le> ?x"
    unfolding etx_extra_def using assms by (intro extra_nonneg) (simp_all add: s64_eqI MaxInt64_def)
  then have s: "s64 (base + ?x) = base + ?x"
    using assms by (intro s64_eqI) (auto simp: MaxInt64_def)
  have "etxMetric base p t = DurationToMetric (if p \<le> 0 then base else base + ?x)"
    using s by (simp add: etxMetric_def etx_extra_def Let_def)
  then show ?thesis
    using x assms by (auto intro!: DurationToMetric_mono simp: DurationToMetric_finite)
qed

lemma etx_penalises_witness:
  "DurationToMetric 1000000 \<le> etxMetric 1000000 (1 / 2) DefaultRouterTunables \<and>
   etxMetric 1000000 (1 / 2) DefaultRouterTunables \<noteq> M_INF"
proof (rule etx_penalises)
  show "1000000 + etx_extra 1000000 (1 / 2) DefaultRouterTunables < MaxInt64"
    by code_simp
qed (simp_all add: DefaultRouterTunables_def MaxInt64_def)

end
