(* ===== verification/Link_Select.thy ===== *)
theory Link_Select
  imports Link_Measure "HOL-Library.Product_Lexorder"
begin

text \<open>
  The selection half of \<^verbatim>\<open>src/state/endpoint.go\<close>: how a neighbour's links are ordered, which
  one is sent on (\<open>BestEndpoint\<close>) and what the routing layer is charged for the hop
  (\<open>LinkCost\<close>). \<^verbatim>\<open>Endpoint\<close> has two implementations in the sources, \<^verbatim>\<open>NylonEndpoint\<close> and the
  \<^verbatim>\<open>MockEndpoint\<close> of \<^verbatim>\<open>src/core/router_harness.go\<close> (without its call counter). The locale
  \<open>link_order\<close> is the contract between the comparison and the selection loop;
  \<open>link_cost\<close> is the declarative cost that \<open>LinkCost\<close> refines.
\<close>

type_synonym NodeId = string

record MockEndpoint =
  me_node :: NodeId
  me_metric :: u32
  me_active :: bool
  me_remote :: bool

definition NewMockEndpoint :: "NodeId \<Rightarrow> u32 \<Rightarrow> MockEndpoint" where
  "NewMockEndpoint node metric = \<lparr>me_node = node, me_metric = metric, me_active = True, me_remote = False\<rparr>"

datatype Endpoint = EpNylon NylonEndpoint | EpMock MockEndpoint

fun AsNylonEndpoint :: "Endpoint \<Rightarrow> NylonEndpoint option" where
  "AsNylonEndpoint (EpNylon u) = Some u"
| "AsNylonEndpoint (EpMock m) = None"

fun Endpoint_IsActive :: "instant \<Rightarrow> Endpoint \<Rightarrow> bool" where
  "Endpoint_IsActive now (EpNylon u) = isActiveUnlocked now u"
| "Endpoint_IsActive now (EpMock m) = me_active m"

fun Endpoint_IsRemote :: "Endpoint \<Rightarrow> bool" where
  "Endpoint_IsRemote (EpNylon u) = ep_remoteInit u"
| "Endpoint_IsRemote (EpMock m) = me_remote m"

fun Endpoint_Metric :: "instant \<Rightarrow> Endpoint \<Rightarrow> (u32 \<times> Endpoint) option" where
  "Endpoint_Metric now (EpNylon u) =
     (case NylonEndpoint_Metric now u of None \<Rightarrow> None | Some (m, u') \<Rightarrow> Some (m, EpNylon u'))"
| "Endpoint_Metric now (EpMock m) = Some (me_metric m, EpMock m)"

definition endpointCost :: "NylonEndpoint \<Rightarrow> duration" where
  "endpointCost ep = (if ep_Transport ep = TransportFakeTCP then TCPCost (ep_t ep) else UDPCost (ep_t ep))"

definition addMetricCost :: "u32 \<Rightarrow> duration \<Rightarrow> u32" where
  "addMetricCost metric cost =
     (if metric = M_INF then M_INF
      else ucast (min ((ucast metric :: u64) + of_int (Microseconds cost)) (ucast M_INFM)))"

fun outboundScore :: "Endpoint \<Rightarrow> ((int \<times> bool) \<times> Endpoint) option" where
  "outboundScore (EpMock m) = Some ((0, False), EpMock m)"
| "outboundScore (EpNylon u) = do {
     (r, u) \<leftarrow> dirScores u;
     let out = (case r of None \<Rightarrow> 0 | Some (out, inn) \<Rightarrow> out);
     Some ((s64 (out + endpointCost u), r \<noteq> None), EpNylon u)
   }"

definition effectiveEndpointMetric :: "instant \<Rightarrow> Endpoint \<Rightarrow> (u32 \<times> Endpoint) option" where
  "effectiveEndpointMetric now ep = do {
     (metric, ep) \<leftarrow> Endpoint_Metric now ep;
     Some (case AsNylonEndpoint ep of None \<Rightarrow> metric | Some nep \<Rightarrow> addMetricCost metric (endpointCost nep), ep)
   }"

definition cmpBool :: "bool \<Rightarrow> bool \<Rightarrow> int" where
  "cmpBool a b = (if a = b then 0 else if a then - 1 else 1)"

text \<open>\<^verbatim>\<open>cmp.Compare\<close>\<close>

definition go_compare :: "'a :: linorder \<Rightarrow> 'a \<Rightarrow> int" where
  "go_compare a b = (if a < b then - 1 else if a > b then 1 else 0)"

definition CompareEndpoints :: "instant \<Rightarrow> Endpoint \<Rightarrow> Endpoint \<Rightarrow> (int \<times> Endpoint \<times> Endpoint) option" where
  "CompareEndpoints now a b =
     (let c = cmpBool (Endpoint_IsActive now a) (Endpoint_IsActive now b)
      in if c \<noteq> 0 then Some (c, a, b)
      else do {
        ((aOut, aOk), a) \<leftarrow> outboundScore a;
        ((bOut, bOk), b) \<leftarrow> outboundScore b;
        (let c = cmpBool aOk bOk
         in if c \<noteq> 0 then Some (c, a, b)
         else if aOk \<and> aOut \<noteq> bOut then Some (go_compare aOut bOut, a, b)
         else do {
           (am, a) \<leftarrow> effectiveEndpointMetric now a;
           (bm, b) \<leftarrow> effectiveEndpointMetric now b;
           Some (go_compare am bm, a, b)
         })
      })"

text \<open>
  \<^verbatim>\<open>Neighbour.BestEndpoint\<close>: the loop over \<^verbatim>\<open>n.Eps\<close>, with \<open>best\<close> the index of the link chosen so
  far. The body is stated over the comparison it uses.
\<close>

definition best_step ::
  "('e \<Rightarrow> 'e \<Rightarrow> (int \<times> 'e \<times> 'e) option) \<Rightarrow> ('e \<Rightarrow> bool) \<Rightarrow> nat \<Rightarrow>
   'e list \<times> nat option \<Rightarrow> ('e list \<times> nat option) option" where
  "best_step compare isActive i = (\<lambda>(eps, best).
     if \<not> isActive (eps ! i) then Some (eps, best)
     else (case best of
             None \<Rightarrow> Some (eps, Some i)
           | Some b \<Rightarrow> do {
               (c, link, bl) \<leftarrow> compare (eps ! i) (eps ! b);
               Some (eps[i := link, b := bl], if c < 0 then Some i else Some b)
             }))"

definition BestEndpoint :: "instant \<Rightarrow> Endpoint list \<Rightarrow> (nat option \<times> Endpoint list) option" where
  "BestEndpoint now eps = do {
     (eps, best) \<leftarrow> fold_opt (best_step (CompareEndpoints now) (Endpoint_IsActive now)) [0..<length eps] (eps, None);
     Some (best, eps)
   }"

text \<open>
  \<^verbatim>\<open>Neighbour.LinkCost\<close>: the loop collects the best outbound and inbound link with their
  scores.
\<close>

record link_scan =
  ls_haveActive :: bool
  ls_out :: "(nat \<times> int) option"
  ls_in :: "(nat \<times> int) option"

definition better :: "(nat \<times> int) option \<Rightarrow> int \<Rightarrow> bool" where
  "better cur score = (case cur of None \<Rightarrow> True | Some (_, best) \<Rightarrow> score < best)"

definition scan_upd :: "nat \<Rightarrow> int \<Rightarrow> int \<Rightarrow> link_scan \<Rightarrow> link_scan" where
  "scan_upd i x y s =
     (let s = (if better (ls_out s) x then s\<lparr>ls_out := Some (i, x)\<rparr> else s);
          s = (if better (ls_in s) y then s\<lparr>ls_in := Some (i, y)\<rparr> else s)
      in s)"

definition LinkCost_step :: "instant \<Rightarrow> nat \<Rightarrow> Endpoint list \<times> link_scan \<Rightarrow> (Endpoint list \<times> link_scan) option" where
  "LinkCost_step now i = (\<lambda>(eps, s).
     if \<not> Endpoint_IsActive now (eps ! i) then Some (eps, s)
     else let s = s\<lparr>ls_haveActive := True\<rparr>
          in (case eps ! i of
                EpMock _ \<Rightarrow> Some (eps, s)
              | EpNylon nep \<Rightarrow> do {
                  (r, nep) \<leftarrow> dirScores nep;
                  let eps = eps[i := EpNylon nep];
                  (case r of
                     None \<Rightarrow> Some (eps, s)
                   | Some (out, inn) \<Rightarrow>
                       let outScore = s64 (out + endpointCost nep)
                       in Some (eps, scan_upd i outScore inn s))
                }))"

text \<open>\<^verbatim>\<open>RelDelays\<close> of the link at an index; only \<^verbatim>\<open>NylonEndpoint\<close>s are ever recorded there.\<close>

definition rel_at ::
  "Endpoint list \<Rightarrow> nat \<Rightarrow> ((duration \<times> duration) option \<times> NylonEndpoint \<times> Endpoint list) option" where
  "rel_at eps k =
     (case eps ! k of
        EpMock _ \<Rightarrow> None
      | EpNylon u \<Rightarrow> do { (r, u) \<leftarrow> RelDelays u; Some (r, u, eps[k := EpNylon u]) })"

definition LinkCost_cycle :: "nat \<Rightarrow> nat \<Rightarrow> Endpoint list \<Rightarrow> (u32 \<times> Endpoint list) option" where
  "LinkCost_cycle ox ix eps = do {
     (ro, outEp, eps) \<leftarrow> rel_at eps ox;
     (ri, inEp, eps) \<leftarrow> rel_at eps ix;
     let outRel = (case ro of None \<Rightarrow> 0 | Some (out, _) \<Rightarrow> out);
     let inRel = (case ri of None \<Rightarrow> 0 | Some (_, inn) \<Rightarrow> inn);
     let base = max (s64 (outRel + inRel)) MinLinkDelay;
     let t = ep_t outEp;
     let pOut = min (LossRate outEp) (LossCap t);
     let pIn = min (LossRate inEp) (LossCap t);
     let p = min (fsub 1 (fmul (fsub 1 pOut) (fsub 1 pIn))) (LossCap t);
     Some (addMetricCost (etxMetric base p t) (endpointCost outEp), eps)
   }"

definition LinkCost :: "instant \<Rightarrow> Endpoint list \<Rightarrow> (u32 \<times> Endpoint list) option" where
  "LinkCost now eps = do {
     (eps, s) \<leftarrow> fold_opt (LinkCost_step now) [0..<length eps]
                   (eps, \<lparr>ls_haveActive = False, ls_out = None, ls_in = None\<rparr>);
     (if \<not> ls_haveActive s then Some (M_INF, eps)
      else (case (ls_out s, ls_in s) of
        (Some (ox, _), Some (ix, _)) \<Rightarrow> LinkCost_cycle ox ix eps
      | _ \<Rightarrow> do {
          (best, eps) \<leftarrow> BestEndpoint now eps;
          (case best of
             None \<Rightarrow> Some (M_INF, eps)
           | Some b \<Rightarrow> do {
               (m, e) \<leftarrow> effectiveEndpointMetric now (eps ! b);
               Some (m, eps[b := e])
             })
        }))
   }"

subsection \<open>What a link shows to the selection\<close>

fun wf_endpoint :: "Endpoint \<Rightarrow> bool" where
  "wf_endpoint (EpNylon u) = wf_ep u"
| "wf_endpoint (EpMock m) = True"

fun settle :: "Endpoint \<Rightarrow> Endpoint" where
  "settle (EpNylon u) = EpNylon (ep_settle u)"
| "settle (EpMock m) = EpMock m"

fun out_score :: "Endpoint \<Rightarrow> int option" where
  "out_score (EpNylon u) = map_option (\<lambda>(out, inn). s64 (out + endpointCost u)) (ep_scores u)"
| "out_score (EpMock m) = None"

fun in_score :: "Endpoint \<Rightarrow> int option" where
  "in_score (EpNylon u) = map_option snd (ep_scores u)"
| "in_score (EpMock m) = None"

fun eff_metric :: "instant \<Rightarrow> Endpoint \<Rightarrow> u32" where
  "eff_metric now (EpNylon u) = addMetricCost (ep_metric now u) (endpointCost u)"
| "eff_metric now (EpMock m) = me_metric m"

text \<open>The sending preference: active first, then measured, then by score, then by metric.\<close>

definition link_key :: "instant \<Rightarrow> Endpoint \<Rightarrow> bool \<times> bool \<times> int \<times> u32" where
  "link_key now e =
     (\<not> Endpoint_IsActive now e, out_score e = None,
      case out_score e of None \<Rightarrow> 0 | Some x \<Rightarrow> x, eff_metric now e)"

text \<open>Two states of one link that differ at most in the bookkeeping of readings.\<close>

definition same_link :: "Endpoint \<Rightarrow> Endpoint \<Rightarrow> bool" where
  "same_link a b \<longleftrightarrow> wf_endpoint a \<and> wf_endpoint b \<and> settle a = settle b"

lemma settle_obs [simp]:
  assumes "wf_endpoint e"
  shows "wf_endpoint (settle e)" "settle (settle e) = settle e"
    "Endpoint_IsActive now (settle e) = Endpoint_IsActive now e"
    "out_score (settle e) = out_score e" "in_score (settle e) = in_score e"
    "eff_metric now (settle e) = eff_metric now e"
  using assms by (cases e; simp add: endpointCost_def)+

lemma same_link_refl [simp]: "wf_endpoint e \<Longrightarrow> same_link e e"
  by (simp add: same_link_def)

lemma same_link_settle [simp]: "wf_endpoint e \<Longrightarrow> same_link e (settle e)"
  by (simp add: same_link_def)

lemma same_link_obs:
  assumes "same_link a b"
  shows "Endpoint_IsActive now a = Endpoint_IsActive now b" "out_score a = out_score b"
    "in_score a = in_score b" "eff_metric now a = eff_metric now b" "link_key now a = link_key now b"
proof -
  have *: "wf_endpoint a" "wf_endpoint b" "settle a = settle b"
    using assms by (simp_all add: same_link_def)
  show 1: "Endpoint_IsActive now a = Endpoint_IsActive now b" "out_score a = out_score b"
    "in_score a = in_score b" "eff_metric now a = eff_metric now b"
    using settle_obs(3-6) [OF *(1)] settle_obs(3-6) [OF *(2)] *(3) by metis+
  show "link_key now a = link_key now b"
    by (simp add: link_key_def 1)
qed

lemma same_link_trans: "same_link a b \<Longrightarrow> same_link b c \<Longrightarrow> same_link a c"
  by (simp add: same_link_def)

lemma outboundScore_eq:
  "wf_endpoint e \<Longrightarrow>
   \<exists>x. outboundScore e = Some ((x, out_score e \<noteq> None), settle e) \<and> (\<forall>y. out_score e = Some y \<longrightarrow> x = y)"
  by (cases e) (auto simp: dirScores_eq endpointCost_def split: option.splits)

lemma effectiveEndpointMetric_eq:
  assumes "wf_endpoint e"
  shows "\<exists>e'. effectiveEndpointMetric now e = Some (eff_metric now e, e') \<and> same_link e e'"
proof (cases e)
  case (EpNylon u)
  then have "wf_ep u"
    using assms by simp
  then show ?thesis
    using EpNylon
    by (auto simp: effectiveEndpointMetric_def NylonEndpoint_Metric_eq ep_settle_if_def same_link_def
        endpointCost_def)
qed (simp add: effectiveEndpointMetric_def)

lemma CompareEndpoints_spec:
  assumes "wf_endpoint a" and "wf_endpoint b"
  shows "\<exists>c a' b'. CompareEndpoints now a b = Some (c, a', b') \<and>
    (c < 0 \<longleftrightarrow> link_key now a < link_key now b) \<and> same_link a a' \<and> same_link b b'"
proof -
  obtain x where x: "outboundScore a = Some ((x, out_score a \<noteq> None), settle a)"
    "\<And>z. out_score a = Some z \<Longrightarrow> x = z"
    using outboundScore_eq [OF assms(1)] by blast
  obtain y where y: "outboundScore b = Some ((y, out_score b \<noteq> None), settle b)"
    "\<And>z. out_score b = Some z \<Longrightarrow> y = z"
    using outboundScore_eq [OF assms(2)] by blast
  obtain a' where a': "effectiveEndpointMetric now (settle a) = Some (eff_metric now a, a')"
    "same_link a a'"
    using effectiveEndpointMetric_eq [of "settle a" now] assms
    by (auto simp: same_link_def)
  obtain b' where b': "effectiveEndpointMetric now (settle b) = Some (eff_metric now b, b')"
    "same_link b b'"
    using effectiveEndpointMetric_eq [of "settle b" now] assms
    by (auto simp: same_link_def)
  show ?thesis
    using assms a' b' x y
    by (auto simp: CompareEndpoints_def cmpBool_def go_compare_def link_key_def Let_def less_prod_def
        split: option.splits)
qed

subsection \<open>The selection loop\<close>

text \<open>The choice among the first \<open>n\<close> links: the first active one with the least key.\<close>

definition first_min :: "('e \<Rightarrow> 'k :: linorder) \<Rightarrow> ('e \<Rightarrow> bool) \<Rightarrow> 'e list \<Rightarrow> nat \<Rightarrow> nat option \<Rightarrow> bool" where
  "first_min key act eps n best =
     (case best of
        None \<Rightarrow> \<forall>j < n. \<not> act (eps ! j)
      | Some b \<Rightarrow> b < n \<and> act (eps ! b) \<and>
          (\<forall>j < n. act (eps ! j) \<longrightarrow> key (eps ! b) \<le> key (eps ! j)) \<and>
          (\<forall>j < b. act (eps ! j) \<longrightarrow> key (eps ! b) < key (eps ! j)))"

lemma first_min_step:
  assumes "first_min key act eps i best"
  shows "first_min key act eps (Suc i)
    (if \<not> act (eps ! i) then best
     else case best of None \<Rightarrow> Some i
          | Some b \<Rightarrow> if key (eps ! i) < key (eps ! b) then Some i else Some b)"
proof (cases best)
  case None
  then show ?thesis
    using assms by (auto simp: first_min_def less_Suc_eq)
next
  case (Some b)
  then show ?thesis
    using assms by (auto simp: first_min_def less_Suc_eq not_less intro: order.strict_trans2 less_imp_le)
qed

lemma first_min_unique:
  assumes "first_min key act eps n a" and "first_min key act eps n b"
  shows "a = b"
  using assms
proof (cases a; cases b)
  fix i j
  assume ij: "a = Some i" "b = Some j"
  then have "\<not> i < j" "\<not> j < i"
    using assms by (auto simp: first_min_def not_less [symmetric])
  then show "a = b"
    using ij by simp
qed (auto simp: first_min_def)

text \<open>
  What the selection loop needs of a comparison: it decides a linear preference, never panics
  on well-formed links, and the links it hands back are the ones it was given. \<open>same\<close> relates
  two states of one link.
\<close>

locale link_order =
  fixes compare :: "'e \<Rightarrow> 'e \<Rightarrow> (int \<times> 'e \<times> 'e) option"
    and key :: "'e \<Rightarrow> 'k :: linorder" and active :: "'e \<Rightarrow> bool" and same :: "'e \<Rightarrow> 'e \<Rightarrow> bool"
  assumes compare_spec: "same a a \<Longrightarrow> same b b \<Longrightarrow>
      \<exists>c a' b'. compare a b = Some (c, a', b') \<and> (c < 0 \<longleftrightarrow> key a < key b) \<and> same a a' \<and> same b b'"
    and same_trans: "same a b \<Longrightarrow> same b c \<Longrightarrow> same a c"
    and same_refl: "same a b \<Longrightarrow> same b b"
    and same_key: "same a b \<Longrightarrow> key a = key b"
    and same_active: "same a b \<Longrightarrow> active a = active b"
begin

lemma step_links:
  assumes "list_all2 same eps0 eps" and "i < length eps" and "\<forall>b. best = Some b \<longrightarrow> b < length eps"
  shows "\<exists>eps' best'. best_step compare active i (eps, best) = Some (eps', best') \<and>
    list_all2 same eps0 eps' \<and>
    best' = (if \<not> active (eps0 ! i) then best
             else case best of None \<Rightarrow> Some i
                  | Some b \<Rightarrow> if key (eps0 ! i) < key (eps0 ! b) then Some i else Some b)"
proof -
  have s: "same (eps0 ! k) (eps ! k)" if "k < length eps" for k
    using assms(1) that by (simp add: list_all2_conv_all_nth)
  show ?thesis
  proof (cases best)
    case None
    then show ?thesis
      using assms s [OF assms(2)] same_active by (auto simp: best_step_def)
  next
    case (Some b)
    then have b: "b < length eps"
      using assms(3) by simp
    obtain c l m where c: "compare (eps ! i) (eps ! b) = Some (c, l, m)"
      "c < 0 \<longleftrightarrow> key (eps ! i) < key (eps ! b)" "same (eps ! i) l" "same (eps ! b) m"
      using compare_spec [OF same_refl [OF s [OF assms(2)]] same_refl [OF s [OF b]]] by blast
    have "same (eps0 ! k) (eps[i := l, b := m] ! k)" if "k < length eps" for k
      using that b assms(2) s [OF that] same_trans [OF s [OF b] c(4)] same_trans [OF s [OF assms(2)] c(3)]
      by (auto simp: nth_list_update)
    then have l2: "list_all2 same eps0 (eps[i := l, b := m])"
      using assms(1) by (simp add: list_all2_conv_all_nth)
    have "key (eps ! i) = key (eps0 ! i)" "key (eps ! b) = key (eps0 ! b)" "active (eps ! i) = active (eps0 ! i)"
      using same_key [OF s [OF b]] same_key [OF s [OF assms(2)]] same_active [OF s [OF assms(2)]] by simp_all
    then show ?thesis
      using Some c(1,2) l2 assms(1) by (simp add: best_step_def)
  qed
qed

lemma select_correct:
  assumes "list_all2 same eps eps"
  shows "\<exists>eps' best. fold_opt (best_step compare active) [0..<length eps] (eps, None) = Some (eps', best) \<and>
    list_all2 same eps eps' \<and> first_min key active eps (length eps) best"
proof -
  let ?P = "\<lambda>ys :: nat list. \<lambda>(eps', best). list_all2 same eps eps' \<and> first_min key active eps (length ys) best"
  have "\<exists>s'. fold_opt (best_step compare active) [0..<length eps] (eps, None) = Some s' \<and> ?P [0..<length eps] s'"
  proof (rule fold_opt_total)
    fix ys zs i u
    assume split: "[0..<length eps] = ys @ i # zs" and P: "?P ys u"
    obtain eps1 best where u: "u = (eps1, best)"
      by (cases u)
    note i = upt_split [OF split]
    have all: "list_all2 same eps eps1" and ch: "first_min key active eps i best"
      using P u i by simp_all
    have len: "length eps1 = length eps"
      using all by (auto dest: list_all2_lengthD)
    have "\<forall>b. best = Some b \<longrightarrow> b < length eps1"
      using ch i len by (auto simp: first_min_def)
    then show "\<exists>v. best_step compare active i u = Some v \<and> ?P (ys @ [i]) v"
      using step_links [OF all, of i best] first_min_step [OF ch] u i len by auto
  qed (use assms in \<open>simp add: first_min_def\<close>)
  then show ?thesis
    by auto
qed

end

interpretation sending: link_order "CompareEndpoints now" "link_key now" "Endpoint_IsActive now" same_link
  for now
proof unfold_locales
  fix a b c :: Endpoint
  show "same_link a a \<Longrightarrow> same_link b b \<Longrightarrow>
    \<exists>c a' b'. CompareEndpoints now a b = Some (c, a', b') \<and>
      (c < 0 \<longleftrightarrow> link_key now a < link_key now b) \<and> same_link a a' \<and> same_link b b'"
    by (rule CompareEndpoints_spec) (simp_all add: same_link_def)
  show "same_link a b \<Longrightarrow> same_link b c \<Longrightarrow> same_link a c"
    by (rule same_link_trans)
  show "same_link a b \<Longrightarrow> same_link b b"
    by (simp add: same_link_def)
  show "same_link a b \<Longrightarrow> link_key now a = link_key now b"
    by (rule same_link_obs(5))
  show "same_link a b \<Longrightarrow> Endpoint_IsActive now a = Endpoint_IsActive now b"
    by (rule same_link_obs(1))
qed

abbreviation same_links :: "Endpoint list \<Rightarrow> Endpoint list \<Rightarrow> bool" where
  "same_links \<equiv> list_all2 same_link"

lemma same_links_refl: "list_all wf_endpoint eps \<Longrightarrow> same_links eps eps"
  by (simp add: list_all2_conv_all_nth list_all_length)

lemma BestEndpoint_spec:
  assumes "list_all wf_endpoint eps"
  shows "\<exists>best eps'. BestEndpoint now eps = Some (best, eps') \<and> same_links eps eps' \<and>
    first_min (link_key now) (Endpoint_IsActive now) eps (length eps) best"
  using sending.select_correct [OF same_links_refl [OF assms], of now]
  by (auto simp: BestEndpoint_def)

subsection \<open>The cost of a hop\<close>

text \<open>The cost of the cycle through an outbound and an inbound link.\<close>

definition cycle_loss :: "NylonEndpoint \<Rightarrow> NylonEndpoint \<Rightarrow> f64" where
  "cycle_loss uo ui =
     (let cap = LossCap (ep_t uo)
      in min (fsub 1 (fmul (fsub 1 (min (LossRate uo) cap)) (fsub 1 (min (LossRate ui) cap)))) cap)"

definition cycle_cost :: "NylonEndpoint \<Rightarrow> NylonEndpoint \<Rightarrow> u32" where
  "cycle_cost uo ui =
     addMetricCost
       (etxMetric (max (s64 (fst (the (ep_rel uo)) + snd (the (ep_rel ui)))) MinLinkDelay) (cycle_loss uo ui) (ep_t uo))
       (endpointCost uo)"

definition measured :: "instant \<Rightarrow> Endpoint \<Rightarrow> bool" where
  "measured now e \<longleftrightarrow> Endpoint_IsActive now e \<and> out_score e \<noteq> None"

definition scan_ok :: "instant \<Rightarrow> Endpoint list \<Rightarrow> nat \<Rightarrow> link_scan \<Rightarrow> bool" where
  "scan_ok now eps n s \<longleftrightarrow>
     ls_haveActive s = (\<exists>j < n. Endpoint_IsActive now (eps ! j)) \<and>
     first_min (the \<circ> out_score) (measured now) eps n (map_option fst (ls_out s)) \<and>
     first_min (the \<circ> in_score) (measured now) eps n (map_option fst (ls_in s)) \<and>
     (\<forall>b x. ls_out s = Some (b, x) \<longrightarrow> out_score (eps ! b) = Some x) \<and>
     (\<forall>b x. ls_in s = Some (b, x) \<longrightarrow> in_score (eps ! b) = Some x)"

lemma in_score_None: "in_score e = None \<longleftrightarrow> out_score e = None"
  by (cases e) auto

lemma same_links_nth: "same_links eps eps' \<Longrightarrow> i < length eps \<Longrightarrow> same_link (eps ! i) (eps' ! i)"
  by (simp add: list_all2_conv_all_nth)

lemma same_links_update:
  "same_links eps eps' \<Longrightarrow> i < length eps \<Longrightarrow> same_link (eps' ! i) e \<Longrightarrow> same_links eps (eps'[i := e])"
  using same_link_trans [OF same_links_nth [of eps eps' i]]
  by (auto simp: list_all2_conv_all_nth nth_list_update)

lemma scan_skip:
  assumes "scan_ok now eps i s" and "\<not> Endpoint_IsActive now (eps ! i)"
  shows "scan_ok now eps (Suc i) s"
  using assms first_min_step [of _ "measured now" eps i]
  by (auto simp: scan_ok_def measured_def less_Suc_eq)

lemma scan_unmeasured:
  assumes "scan_ok now eps i s" and "Endpoint_IsActive now (eps ! i)" and "out_score (eps ! i) = None"
  shows "scan_ok now eps (Suc i) (s\<lparr>ls_haveActive := True\<rparr>)"
  using assms first_min_step [of _ "measured now" eps i]
  by (auto simp: scan_ok_def measured_def less_Suc_eq)

lemma first_min_better:
  assumes "first_min (the \<circ> sc) act eps i (map_option fst cur)" and "act (eps ! i)"
    and "\<forall>b x. cur = Some (b, x) \<longrightarrow> sc (eps ! b) = Some x" and "sc (eps ! i) = Some y"
  shows "first_min (the \<circ> sc) act eps (Suc i) (map_option fst (if better cur y then Some (i, y) else cur))"
  using first_min_step [OF assms(1)] assms(2-4)
  by (auto simp: better_def split: option.splits if_splits)

lemma scan_upd_eq:
  "scan_upd i x y s =
     s\<lparr>ls_out := if better (ls_out s) x then Some (i, x) else ls_out s,
       ls_in := if better (ls_in s) y then Some (i, y) else ls_in s\<rparr>"
  by (cases s) (simp add: scan_upd_def)

lemma scan_measured:
  assumes "scan_ok now eps i s" and "Endpoint_IsActive now (eps ! i)"
    and "out_score (eps ! i) = Some x" and "in_score (eps ! i) = Some y"
  shows "scan_ok now eps (Suc i) (scan_upd i x y (s\<lparr>ls_haveActive := True\<rparr>))"
proof -
  have m: "measured now (eps ! i)"
    using assms by (simp add: measured_def)
  have 1: "first_min (the \<circ> out_score) (measured now) eps i (map_option fst (ls_out s))"
    "first_min (the \<circ> in_score) (measured now) eps i (map_option fst (ls_in s))"
    "\<forall>b x. ls_out s = Some (b, x) \<longrightarrow> out_score (eps ! b) = Some x"
    "\<forall>b x. ls_in s = Some (b, x) \<longrightarrow> in_score (eps ! b) = Some x"
    using assms(1) by (simp_all add: scan_ok_def)
  show ?thesis
    unfolding scan_upd_eq
    using first_min_better [OF 1(1) m 1(3) assms(3)] first_min_better [OF 1(2) m 1(4) assms(4)]
      1(3,4) assms(2-4)
    by (auto simp: scan_ok_def less_Suc_eq split: if_splits)
qed

lemma endpointCost_settle [simp]: "endpointCost (ep_settle u) = endpointCost u"
  by (simp add: endpointCost_def)

lemma LinkCost_step_ok:
  assumes "same_links eps eps'" and "i < length eps" and "scan_ok now eps i s"
  shows "\<exists>eps2 s2. LinkCost_step now i (eps', s) = Some (eps2, s2) \<and> same_links eps eps2 \<and> scan_ok now eps (Suc i) s2"
proof -
  note sl = same_links_nth [OF assms(1,2)]
  note obs = same_link_obs [OF sl]
  have wf: "wf_endpoint (eps' ! i)"
    using sl by (simp add: same_link_def)
  show ?thesis
  proof (cases "Endpoint_IsActive now (eps ! i)")
    case False
    then show ?thesis
      using assms(1) scan_skip [OF assms(3) False] obs by (simp add: LinkCost_step_def)
  next
    case act: True
    show ?thesis
    proof (cases "eps' ! i")
      case (EpMock m)
      then show ?thesis
        using assms act obs scan_unmeasured [OF assms(3) act] by (simp add: LinkCost_step_def)
    next
      case (EpNylon u)
      have u: "wf_ep u"
        using wf EpNylon by simp
      have up: "same_links eps (eps'[i := EpNylon (ep_settle u)])"
        using same_links_update [OF assms(1,2)] EpNylon u by (simp add: same_link_def)
      show ?thesis
      proof (cases "ep_scores u")
        case None
        then show ?thesis
          using EpNylon act obs u up scan_unmeasured [OF assms(3) act]
          by (simp add: LinkCost_step_def dirScores_eq)
      next
        case (Some p)
        obtain out inn where p: "p = (out, inn)"
          by (cases p)
        have "out_score (eps ! i) = Some (s64 (out + endpointCost u))" "in_score (eps ! i) = Some inn"
          using obs EpNylon Some p by simp_all
        then have "scan_ok now eps (Suc i) (scan_upd i (s64 (out + endpointCost u)) inn (s\<lparr>ls_haveActive := True\<rparr>))"
          by (rule scan_measured [OF assms(3) act])
        then show ?thesis
          using EpNylon act obs(1) u up Some p
          by (simp add: LinkCost_step_def dirScores_eq)
      qed
    qed
  qed
qed

lemma LinkCost_scan:
  assumes "list_all wf_endpoint eps"
  shows "\<exists>eps' s. fold_opt (LinkCost_step now) [0..<length eps]
      (eps, \<lparr>ls_haveActive = False, ls_out = None, ls_in = None\<rparr>) = Some (eps', s) \<and>
    same_links eps eps' \<and> scan_ok now eps (length eps) s"
proof -
  let ?P = "\<lambda>ys :: nat list. \<lambda>(eps', s). same_links eps eps' \<and> scan_ok now eps (length ys) s"
  have "\<exists>r. fold_opt (LinkCost_step now) [0..<length eps]
      (eps, \<lparr>ls_haveActive = False, ls_out = None, ls_in = None\<rparr>) = Some r \<and> ?P [0..<length eps] r"
  proof (rule fold_opt_total)
    fix ys zs i u
    assume split: "[0..<length eps] = ys @ i # zs" and P: "?P ys u"
    then show "\<exists>v. LinkCost_step now i u = Some v \<and> ?P (ys @ [i]) v"
      using upt_split [OF split] LinkCost_step_ok [of eps "fst u" i now "snd u"] by (cases u) auto
  qed (use assms in \<open>simp add: same_links_refl scan_ok_def first_min_def\<close>)
  then show ?thesis
    by auto
qed

lemma rel_at_eq:
  assumes "same_links eps eps'" and "i < length eps" and "eps ! i = EpNylon u"
  shows "\<exists>v. rel_at eps' i = Some (ep_rel u, v, eps'[i := EpNylon v]) \<and> same_links eps (eps'[i := EpNylon v]) \<and>
    v = ep_settle u"
proof -
  have sl: "same_link (EpNylon u) (eps' ! i)"
    using same_links_nth [OF assms(1,2)] assms(3) by simp
  then obtain w where w: "eps' ! i = EpNylon w" "wf_ep u" "wf_ep w" "ep_settle w = ep_settle u"
    by (cases "eps' ! i") (auto simp: same_link_def)
  have "ep_rel w = ep_rel u"
    using ep_rel_settle w by metis
  then show ?thesis
    using w same_links_update [OF assms(1,2)] sl
    by (auto simp: rel_at_def RelDelays_eq same_link_def)
qed

lemma LinkCost_cycle_eq:
  assumes "same_links eps eps'" and "ox < length eps" and "eps ! ox = EpNylon uo" and "ep_rel uo \<noteq> None"
    and "ix < length eps" and "eps ! ix = EpNylon ui" and "ep_rel ui \<noteq> None"
  shows "\<exists>eps2. LinkCost_cycle ox ix eps' = Some (cycle_cost uo ui, eps2) \<and> same_links eps eps2"
proof -
  let ?e1 = "eps'[ox := EpNylon (ep_settle uo)]"
  have 1: "rel_at eps' ox = Some (ep_rel uo, ep_settle uo, ?e1)" "same_links eps ?e1"
    using rel_at_eq [OF assms(1-3)] by auto
  have 2: "rel_at ?e1 ix = Some (ep_rel ui, ep_settle ui, ?e1[ix := EpNylon (ep_settle ui)])"
    "same_links eps (?e1[ix := EpNylon (ep_settle ui)])"
    using rel_at_eq [OF 1(2) assms(5,6)] by auto
  show ?thesis
    using 1 2 assms(4,7)
    by (auto simp: LinkCost_cycle_def cycle_cost_def cycle_loss_def Let_def)
qed

lemma measured_nylon:
  assumes "measured now e"
  obtains u where "e = EpNylon u" and "ep_rel u \<noteq> None"
  using assms by (cases e) (auto simp: measured_def ep_scores_def split: option.splits)

lemma LinkCost_fallback:
  assumes "same_links eps eps1"
  shows "\<exists>best eps2. BestEndpoint now eps1 = Some (best, eps2) \<and> same_links eps eps2 \<and>
    first_min (link_key now) (Endpoint_IsActive now) eps (length eps) best \<and>
    (\<forall>k. best = Some k \<longrightarrow> (\<exists>e. effectiveEndpointMetric now (eps2 ! k) = Some (eff_metric now (eps ! k), e) \<and>
       same_links eps (eps2[k := e])))"
proof -
  have len: "length eps1 = length eps"
    using assms by (simp add: list_all2_lengthD)
  have "list_all wf_endpoint eps1"
    using assms by (auto simp: list_all2_conv_all_nth list_all_length same_link_def)
  then obtain best eps2 where b: "BestEndpoint now eps1 = Some (best, eps2)" "same_links eps1 eps2"
    "first_min (link_key now) (Endpoint_IsActive now) eps1 (length eps1) best"
    using BestEndpoint_spec by blast
  have fm: "first_min (link_key now) (Endpoint_IsActive now) eps (length eps) best"
    using b(3) same_link_obs(1,5) [OF same_links_nth [OF assms]] len
    by (auto simp: first_min_def split: option.splits)
  have tr: "same_links eps eps2"
    by (rule list_all2_trans [OF _ assms b(2)]) (rule same_link_trans)
  have "\<exists>e. effectiveEndpointMetric now (eps2 ! k) = Some (eff_metric now (eps ! k), e) \<and>
      same_links eps (eps2[k := e])" if "best = Some k" for k
  proof -
    have k: "k < length eps"
      using fm that by (simp add: first_min_def)
    have sk: "same_link (eps ! k) (eps2 ! k)"
      using same_links_nth [OF tr k] .
    then show ?thesis
      using effectiveEndpointMetric_eq [of "eps2 ! k" now] same_link_obs(4) [OF sk, of now]
        same_links_update [OF tr k] by (auto simp: same_link_def)
  qed
  then show ?thesis
    using b(1) fm tr by blast
qed

text \<open>What a hop costs: nothing active, nothing measured yet, or the best cycle.\<close>

definition hop_cost :: "instant \<Rightarrow> Endpoint list \<Rightarrow> u32 \<Rightarrow> bool" where
  "hop_cost now eps c \<longleftrightarrow>
     (\<forall>j < length eps. \<not> Endpoint_IsActive now (eps ! j)) \<and> c = M_INF \<or>
     (\<forall>j < length eps. \<not> measured now (eps ! j)) \<and>
       (\<exists>b. first_min (link_key now) (Endpoint_IsActive now) eps (length eps) (Some b) \<and> c = eff_metric now (eps ! b)) \<or>
     (\<exists>ox ix uo ui. first_min (the \<circ> out_score) (measured now) eps (length eps) (Some ox) \<and> eps ! ox = EpNylon uo \<and>
       first_min (the \<circ> in_score) (measured now) eps (length eps) (Some ix) \<and> eps ! ix = EpNylon ui \<and>
       c = cycle_cost uo ui)"

lemma LinkCost_spec:
  assumes "list_all wf_endpoint eps"
  shows "\<exists>c eps'. LinkCost now eps = Some (c, eps') \<and> same_links eps eps' \<and> hop_cost now eps c"
proof -
  obtain eps1 s where s: "fold_opt (LinkCost_step now) [0..<length eps]
      (eps, \<lparr>ls_haveActive = False, ls_out = None, ls_in = None\<rparr>) = Some (eps1, s)"
    "same_links eps eps1" "scan_ok now eps (length eps) s"
    using LinkCost_scan [OF assms] by blast
  let ?fo = "first_min (the \<circ> out_score) (measured now) eps (length eps)"
  let ?fi = "first_min (the \<circ> in_score) (measured now) eps (length eps)"
  have fo: "?fo (map_option fst (ls_out s))" and fi: "?fi (map_option fst (ls_in s))"
    using s(3) by (simp_all add: scan_ok_def)
  consider "\<not> ls_haveActive s" | "ls_haveActive s" "ls_out s = None"
    | ox xo where "ls_haveActive s" "ls_out s = Some (ox, xo)"
    by fastforce
  then show ?thesis
  proof cases
    case 1
    then show ?thesis
      using s by (auto simp: LinkCost_def scan_ok_def hop_cost_def)
  next
    case 2
    then have nm: "\<forall>j < length eps. \<not> measured now (eps ! j)"
      using fo by (simp add: first_min_def)
    obtain best eps2 where b: "BestEndpoint now eps1 = Some (best, eps2)"
      "first_min (link_key now) (Endpoint_IsActive now) eps (length eps) best"
      "\<And>k. best = Some k \<Longrightarrow> \<exists>e. effectiveEndpointMetric now (eps2 ! k) = Some (eff_metric now (eps ! k), e) \<and>
         same_links eps (eps2[k := e])"
      using LinkCost_fallback [OF s(2), of now] by blast
    obtain k where k: "best = Some k"
      using b(2) 2 s(3) by (cases best) (auto simp: first_min_def scan_ok_def)
    then show ?thesis
      using s(1) 2 b nm by (auto simp: LinkCost_def hop_cost_def)
  next
    case 3
    then have fo': "?fo (Some ox)"
      using fo by simp
    then obtain ix xi where i: "ls_in s = Some (ix, xi)"
      using fi by (cases "ls_in s") (auto simp: first_min_def)
    then have fi': "?fi (Some ix)"
      using fi by simp
    have m: "measured now (eps ! ox)" "measured now (eps ! ix)"
      using fo' fi' by (simp_all add: first_min_def)
    obtain uo where uo: "eps ! ox = EpNylon uo" "ep_rel uo \<noteq> None"
      using measured_nylon [OF m(1)] .
    obtain ui where ui: "eps ! ix = EpNylon ui" "ep_rel ui \<noteq> None"
      using measured_nylon [OF m(2)] .
    have "ox < length eps" "ix < length eps"
      using fo' fi' by (simp_all add: first_min_def)
    then obtain eps2 where "LinkCost_cycle ox ix eps1 = Some (cycle_cost uo ui, eps2)" "same_links eps eps2"
      using LinkCost_cycle_eq [OF s(2) _ uo _ ui] by blast
    moreover have "hop_cost now eps (cycle_cost uo ui)"
      unfolding hop_cost_def using fo' fi' uo(1) ui(1) by blast
    ultimately show ?thesis
      using s(1) 3 i by (simp add: LinkCost_def)
  qed
qed

lemma first_min_act: "first_min key act eps n (Some b) \<Longrightarrow> b < n \<and> act (eps ! b)"
  by (simp add: first_min_def)

lemma hop_cost_measured:
  assumes "hop_cost now eps c" and "j < length eps" and "measured now (eps ! j)"
  obtains ox ix uo ui where
    "first_min (the \<circ> out_score) (measured now) eps (length eps) (Some ox)" "eps ! ox = EpNylon uo"
    "first_min (the \<circ> in_score) (measured now) eps (length eps) (Some ix)" "eps ! ix = EpNylon ui"
    "c = cycle_cost uo ui"
  using assms unfolding hop_cost_def measured_def by blast

lemma hop_cost_unmeasured:
  assumes "hop_cost now eps c" and "\<forall>j < length eps. \<not> measured now (eps ! j)"
  shows "\<exists>b. first_min (link_key now) (Endpoint_IsActive now) eps (length eps) b \<and>
    c = (case b of None \<Rightarrow> M_INF | Some k \<Rightarrow> eff_metric now (eps ! k))"
  using assms(1) unfolding hop_cost_def
proof (elim disjE)
  assume "(\<forall>j < length eps. \<not> Endpoint_IsActive now (eps ! j)) \<and> c = M_INF"
  then show ?thesis
    by (intro exI [of _ None]) (simp add: first_min_def)
qed (use assms(2) in \<open>force dest: first_min_act\<close>)+

lemma hop_cost_unique:
  assumes "hop_cost now eps c" and "hop_cost now eps c'"
  shows "c = c'"
proof (cases "\<exists>j < length eps. measured now (eps ! j)")
  case True
  then obtain j where j: "j < length eps" "measured now (eps ! j)"
    by blast
  show ?thesis
  proof (rule hop_cost_measured [OF assms(1) j], rule hop_cost_measured [OF assms(2) j])
    fix ox ix uo ui ox' ix' uo' ui'
    let ?fo = "first_min (the \<circ> out_score) (measured now) eps (length eps)"
    let ?fi = "first_min (the \<circ> in_score) (measured now) eps (length eps)"
    assume "?fo (Some ox)" "eps ! ox = EpNylon uo" "?fi (Some ix)" "eps ! ix = EpNylon ui"
      "?fo (Some ox')" "eps ! ox' = EpNylon uo'" "?fi (Some ix')" "eps ! ix' = EpNylon ui'"
      "c = cycle_cost uo ui" "c' = cycle_cost uo' ui'"
    moreover from this have "Some ox = Some ox'" "Some ix = Some ix'"
      using first_min_unique by blast+
    ultimately show ?thesis
      by simp
  qed
next
  case False
  then show ?thesis
    using hop_cost_unmeasured [OF assms(1)] hop_cost_unmeasured [OF assms(2)] first_min_unique
    by metis
qed

lemma same_links_choices:
  assumes "same_links eps eps'" and "n = length eps"
  shows "first_min (link_key now) (Endpoint_IsActive now) eps' n b =
      first_min (link_key now) (Endpoint_IsActive now) eps n b"
    and "first_min (the \<circ> out_score) (measured now) eps' n b =
      first_min (the \<circ> out_score) (measured now) eps n b"
    and "first_min (the \<circ> in_score) (measured now) eps' n b =
      first_min (the \<circ> in_score) (measured now) eps n b"
  using same_link_obs [OF same_links_nth [OF assms(1)]] assms(2)
  by (auto simp: first_min_def measured_def split: option.splits)

lemma cycle_cost_settle:
  "wf_ep uo \<Longrightarrow> wf_ep ui \<Longrightarrow> cycle_cost (ep_settle uo) (ep_settle ui) = cycle_cost uo ui"
  by (simp add: cycle_cost_def cycle_loss_def)

lemma same_link_nylon:
  assumes "same_link (EpNylon u) e"
  obtains v where "e = EpNylon v" "wf_ep u" "wf_ep v" "ep_settle v = ep_settle u"
  using assms by (cases e) (auto simp: same_link_def)

lemma hop_cost_same:
  assumes "same_links eps eps'" and "hop_cost now eps c"
  shows "hop_cost now eps' c"
proof -
  have len: "length eps' = length eps"
    using assms(1) by (simp add: list_all2_lengthD)
  note sl = same_links_nth [OF assms(1)]
  note ch = same_links_choices [OF assms(1) refl]
  show ?thesis
  proof (cases "\<exists>j < length eps. measured now (eps ! j)")
    case True
    then obtain j where j: "j < length eps" "measured now (eps ! j)"
      by blast
    show ?thesis
    proof (rule hop_cost_measured [OF assms(2) j])
      fix ox ix uo ui
      assume h: "first_min (the \<circ> out_score) (measured now) eps (length eps) (Some ox)" "eps ! ox = EpNylon uo"
        "first_min (the \<circ> in_score) (measured now) eps (length eps) (Some ix)" "eps ! ix = EpNylon ui"
        "c = cycle_cost uo ui"
      have k: "ox < length eps" "ix < length eps"
        using first_min_act [OF h(1)] first_min_act [OF h(3)] by simp_all
      obtain vo where vo: "eps' ! ox = EpNylon vo" "wf_ep uo" "wf_ep vo" "ep_settle vo = ep_settle uo"
        using same_link_nylon sl [OF k(1)] h(2) by metis
      obtain vi where vi: "eps' ! ix = EpNylon vi" "wf_ep ui" "wf_ep vi" "ep_settle vi = ep_settle ui"
        using same_link_nylon sl [OF k(2)] h(4) by metis
      have "cycle_cost vo vi = cycle_cost uo ui"
        using cycle_cost_settle vo vi by metis
      then show ?thesis
        unfolding hop_cost_def len ch using h vo(1) vi(1) by metis
    qed
  next
    case False
    then have "\<forall>j < length eps. \<not> measured now (eps' ! j)"
      using same_link_obs [OF sl] by (auto simp: measured_def)
    moreover obtain b where "first_min (link_key now) (Endpoint_IsActive now) eps (length eps) b"
      "c = (case b of None \<Rightarrow> M_INF | Some k \<Rightarrow> eff_metric now (eps ! k))"
      using hop_cost_unmeasured [OF assms(2)] False by blast
    moreover have "\<forall>k. b = Some k \<longrightarrow> eff_metric now (eps' ! k) = eff_metric now (eps ! k)"
      using same_link_obs(4) [OF sl] first_min_act calculation(2) by metis
    ultimately show ?thesis
      unfolding hop_cost_def len ch
      by (cases b) (auto simp: same_link_obs(1) [OF sl, symmetric] first_min_def)
  qed
qed

lemma LinkCost_same:
  assumes "same_links eps eps'"
  shows "map_option fst (LinkCost now eps') = map_option fst (LinkCost now eps)"
proof -
  have "list_all wf_endpoint eps" "list_all wf_endpoint eps'"
    using assms by (auto simp: list_all2_conv_all_nth list_all_length same_link_def)
  then show ?thesis
    using LinkCost_spec [of eps now] LinkCost_spec [of eps' now] hop_cost_same [OF assms] hop_cost_unique
    by (metis (no_types, lifting) fst_conv option.simps(9))
qed

subsection \<open>The clock offset cancels\<close>

text \<open>The loss penalty of a link's directional scores.\<close>

definition ep_penalty :: "NylonEndpoint \<Rightarrow> int" where
  "ep_penalty u =
     (case ep_rel u of None \<Rightarrow> 0
      | Some (rOut, rIn) \<Rightarrow>
          let p = min (LossRate u) (LossCap (ep_t u))
          in if p > 0
             then int_of_f64 (fdiv (fmul (f64_of_int (s64 (rOut + rIn + LossRetxFloor (ep_t u)))) p) (fsub 1 p))
             else 0)"

lemma ep_scores_penalty:
  "ep_scores u = map_option (\<lambda>(rOut, rIn). (s64 (rOut + ep_penalty u), s64 (rIn + ep_penalty u))) (ep_rel u)"
  by (cases "ep_rel u") (auto simp: ep_scores_def ep_penalty_def Let_def)

definition small :: "int \<Rightarrow> bool" where
  "small x \<longleftrightarrow> \<bar>x\<bar> \<le> 2 ^ 60"

text \<open>
  The same link seen with the peer's clock ahead by \<open>d\<close> more: its outbound readings grow by
  \<open>d\<close> and its inbound readings shrink by \<open>d\<close>, every other measurement is alike, and the
  quantities involved stay away from the bounds of \<^verbatim>\<open>int64\<close>.
\<close>

fun offset_by :: "int \<Rightarrow> Endpoint \<Rightarrow> Endpoint \<Rightarrow> bool" where
  "offset_by d (EpNylon u) (EpNylon v) \<longleftrightarrow>
     ep_rel v = map_option (\<lambda>(rOut, rIn). (rOut + d, rIn - d)) (ep_rel u) \<and>
     ep_t v = ep_t u \<and> ep_lastHeardBack v = ep_lastHeardBack u \<and> ep_Transport v = ep_Transport u \<and>
     LossRate v = LossRate u \<and>
     small d \<and> small (ep_penalty u) \<and> small (endpointCost u) \<and>
     (\<forall>rOut rIn. ep_rel u = Some (rOut, rIn) \<longrightarrow> small rOut \<and> small rIn)"
| "offset_by d (EpMock m) (EpMock m') \<longleftrightarrow> m = m'"
| "offset_by d _ _ \<longleftrightarrow> False"

lemma offset_penalty: "offset_by d (EpNylon u) (EpNylon v) \<Longrightarrow> ep_penalty v = ep_penalty u"
  by (cases "ep_rel u") (auto simp: ep_penalty_def Let_def)

lemma small_sum:
  "small a \<Longrightarrow> small b \<Longrightarrow> s64 (a + b) = a + b"
  "small a \<Longrightarrow> small b \<Longrightarrow> small c \<Longrightarrow> s64 (a + b + c) = a + b + c"
  "small a \<Longrightarrow> small b \<Longrightarrow> small c \<Longrightarrow> small e \<Longrightarrow> s64 (a + b + c + e) = a + b + c + e"
  by (auto simp: small_def intro!: s64_eqI)

lemma offset_scores:
  assumes "offset_by d e e'"
  shows "Endpoint_IsActive now e' = Endpoint_IsActive now e"
    and "out_score e' = map_option (\<lambda>x. x + d) (out_score e)"
    and "in_score e' = map_option (\<lambda>x. x - d) (in_score e)"
    and "eff_metric now e' = eff_metric now e"
proof -
  have "Endpoint_IsActive now e' = Endpoint_IsActive now e \<and>
    out_score e' = map_option (\<lambda>x. x + d) (out_score e) \<and>
    in_score e' = map_option (\<lambda>x. x - d) (in_score e) \<and> eff_metric now e' = eff_metric now e"
  proof (cases e; cases e')
    fix u v
    assume e: "e = EpNylon u" "e' = EpNylon v"
    note o = assms [unfolded e]
    have c: "endpointCost v = endpointCost u"
      using o by (simp add: endpointCost_def)
    have "small d" "small (- d)"
      using o by (simp_all add: small_def)
    then show ?thesis
      using e o offset_penalty [OF o] c
      by (cases "ep_rel u")
        (auto simp: ep_scores_penalty small_sum isActiveUnlocked_def ep_metric_def ep_base_def
          small_sum(3) [of _ d "ep_penalty u"] small_sum(2) [of _ "- d" "ep_penalty u", simplified])
  qed (use assms in auto)
  then show "Endpoint_IsActive now e' = Endpoint_IsActive now e"
    "out_score e' = map_option (\<lambda>x. x + d) (out_score e)"
    "in_score e' = map_option (\<lambda>x. x - d) (in_score e)" "eff_metric now e' = eff_metric now e"
    by auto
qed

lemma first_min_cong:
  assumes "\<And>i. i < n \<Longrightarrow> act' (eps' ! i) = act (eps ! i)"
    and "\<And>i j. i < n \<Longrightarrow> j < n \<Longrightarrow> act (eps ! i) \<Longrightarrow> act (eps ! j) \<Longrightarrow>
      key' (eps' ! i) < key' (eps' ! j) \<longleftrightarrow> key (eps ! i) < key (eps ! j)"
  shows "first_min key' act' eps' n best = first_min key act eps n best"
proof (cases best)
  case (Some b)
  have "(\<forall>j < n. act (eps ! j) \<longrightarrow> key' (eps' ! b) \<le> key' (eps' ! j)) \<longleftrightarrow>
      (\<forall>j < n. act (eps ! j) \<longrightarrow> key (eps ! b) \<le> key (eps ! j))" if "b < n" "act (eps ! b)"
    using assms(2) [OF _ that(1) _ that(2)] that by (auto simp: not_less [symmetric])
  then show ?thesis
    using Some assms(1) assms(2) [of b] by (auto simp: first_min_def)
qed (use assms(1) in \<open>simp add: first_min_def\<close>)

lemma offset_measured: "offset_by d e e' \<Longrightarrow> measured now e' = measured now e"
  using offset_scores(1,2) [of d e e'] by (simp add: measured_def)

lemma offset_choices:
  assumes "list_all2 (offset_by d) eps eps'" and "n = length eps"
  shows "first_min (link_key now) (Endpoint_IsActive now) eps' n b =
      first_min (link_key now) (Endpoint_IsActive now) eps n b"
    and "first_min (the \<circ> out_score) (measured now) eps' n b =
      first_min (the \<circ> out_score) (measured now) eps n b"
    and "first_min (the \<circ> in_score) (measured now) eps' n b =
      first_min (the \<circ> in_score) (measured now) eps n b"
proof -
  have o: "offset_by d (eps ! i) (eps' ! i)" if "i < n" for i
    using assms that by (simp add: list_all2_conv_all_nth)
  show "first_min (link_key now) (Endpoint_IsActive now) eps' n b =
      first_min (link_key now) (Endpoint_IsActive now) eps n b"
    by (rule first_min_cong)
      (auto simp: link_key_def less_prod_def offset_scores [OF o] split: option.splits)
  show "first_min (the \<circ> out_score) (measured now) eps' n b =
      first_min (the \<circ> out_score) (measured now) eps n b"
    by (rule first_min_cong) (auto simp: offset_scores [OF o] offset_measured [OF o] measured_def)
  show "first_min (the \<circ> in_score) (measured now) eps' n b =
      first_min (the \<circ> in_score) (measured now) eps n b"
    by (rule first_min_cong)
      (auto simp: offset_scores [OF o] offset_measured [OF o] measured_def in_score_None [symmetric])
qed

lemma offset_cycle:
  assumes "offset_by d (EpNylon uo) (EpNylon vo)" and "offset_by d (EpNylon ui) (EpNylon vi)"
    and "ep_rel uo \<noteq> None" and "ep_rel ui \<noteq> None"
  shows "cycle_cost vo vi = cycle_cost uo ui"
proof -
  have "fst (the (ep_rel vo)) + snd (the (ep_rel vi)) = fst (the (ep_rel uo)) + snd (the (ep_rel ui))"
    using assms by auto
  then show ?thesis
    using assms unfolding cycle_cost_def by (simp add: cycle_loss_def endpointCost_def)
qed

lemma hop_cost_offset:
  assumes "list_all2 (offset_by d) eps eps'" and "hop_cost now eps c"
  shows "hop_cost now eps' c"
proof -
  have len: "length eps' = length eps"
    using assms(1) by (simp add: list_all2_lengthD)
  have o: "offset_by d (eps ! i) (eps' ! i)" if "i < length eps" for i
    using assms(1) that by (simp add: list_all2_conv_all_nth)
  note ch = offset_choices [OF assms(1) refl]
  show ?thesis
  proof (cases "\<exists>j < length eps. measured now (eps ! j)")
    case True
    then obtain j where j: "j < length eps" "measured now (eps ! j)"
      by blast
    show ?thesis
    proof (rule hop_cost_measured [OF assms(2) j])
      fix ox ix uo ui
      assume h: "first_min (the \<circ> out_score) (measured now) eps (length eps) (Some ox)" "eps ! ox = EpNylon uo"
        "first_min (the \<circ> in_score) (measured now) eps (length eps) (Some ix)" "eps ! ix = EpNylon ui"
        "c = cycle_cost uo ui"
      have k: "ox < length eps" "ix < length eps" "measured now (EpNylon uo)" "measured now (EpNylon ui)"
        using first_min_act [OF h(1)] first_min_act [OF h(3)] h(2,4) by simp_all
      obtain vo vi where v: "eps' ! ox = EpNylon vo" "eps' ! ix = EpNylon vi"
        using o [OF k(1)] o [OF k(2)] h(2,4) by (cases "eps' ! ox"; cases "eps' ! ix") auto
      have "cycle_cost vo vi = cycle_cost uo ui"
        using o [OF k(1)] o [OF k(2)] h(2,4) v measured_nylon [OF k(3)] measured_nylon [OF k(4)]
        by (intro offset_cycle) auto
      then show ?thesis
        unfolding hop_cost_def len ch using h v by metis
    qed
  next
    case False
    then have "\<forall>j < length eps. \<not> measured now (eps' ! j)"
      using offset_measured [OF o] by simp
    moreover obtain b where "first_min (link_key now) (Endpoint_IsActive now) eps (length eps) b"
      "c = (case b of None \<Rightarrow> M_INF | Some k \<Rightarrow> eff_metric now (eps ! k))"
      using hop_cost_unmeasured [OF assms(2)] False by blast
    moreover have "\<forall>k. b = Some k \<longrightarrow> eff_metric now (eps' ! k) = eff_metric now (eps ! k)"
      using offset_scores(4) [OF o] first_min_act calculation(2) by blast
    ultimately show ?thesis
      unfolding hop_cost_def len ch
      by (cases b) (auto simp: offset_scores(1) [OF o] first_min_def)
  qed
qed

subsection \<open>Properties\<close>


definition mocks_2 :: "Endpoint list" where
  "mocks_2 = [EpMock (NewMockEndpoint ''b'' 30), EpMock (NewMockEndpoint ''b'' 20)]"





definition link_m :: "int \<Rightarrow> NylonEndpoint" where
  "link_m d = link_0\<lparr>ep_lastHeardBack := 0,
     ep_owdOut := filter_15\<lparr>df_history := map (\<lambda>x. x + d) (df_history filter_15)\<rparr>,
     ep_owdIn := filter_15\<lparr>df_history := map (\<lambda>x. x - d) (df_history filter_15)\<rparr>\<rparr>"

lemma wf_link_m: "wf_ep (link_m d)"
  using wf_link_0
  by (simp add: wf_ep_def link_m_def wf_filter_def filter_15_def link_0_def NewEndpoint_def
      DefaultRouterTunables_def signed_divide_int_def)

lemma link_m_rel: "ep_rel (link_m 100) = Some (108, - 92)" "ep_rel (link_m 0) = Some (8, 8)"
proof -
  have t: "trim_ix DefaultRouterTunables (Suc (Suc (Suc (Suc (Suc (Suc (Suc (Suc (Suc (Suc (Suc (Suc (Suc (Suc (Suc 0))))))))))))))) = (0, 14)"
    by code_simp
  have u: "[Suc 0..<16] = [1, 2, 3, 4, 5, 6, 7, 8, 9, 10, 11, 12, 13, 14, 15]"
    by (simp add: upt_rec)
  have "ep_ready (link_m d)" for d
    by (simp add: ep_ready_def df_ready_def link_m_def link_0_def NewEndpoint_def filter_15_def
        DefaultRouterTunables_def signed_divide_int_def)
  then have r: "ep_rel (link_m d) =
      Some (df_read (ep_t (link_m d)) (ep_owdOut (link_m d)), df_read (ep_t (link_m d)) (ep_owdIn (link_m d)))" for d
    by (simp add: ep_rel_def)
  show "ep_rel (link_m 100) = Some (108, - 92)" "ep_rel (link_m 0) = Some (8, 8)"
    unfolding r
    by (simp_all add: df_read_def link_m_def link_0_def NewEndpoint_def filter_15_def u
        t Let_def)
qed


end
