(* ===== verification/Routing_State.thy ===== *)
theory Routing_State
  imports Link_Select
begin

text \<open>
  \<^verbatim>\<open>src/state/routing.go\<close>: sources, feasibility distances, the routes a neighbour
  advertised, the selected routes and the router state, with the calls the routing
  algorithm makes on its \<^verbatim>\<open>Router\<close> interface (\<^verbatim>\<open>src/core/router_algo.go\<close>).

  A value of \<open>RouterCall\<close> is one call on that interface, in the order the algorithm makes
  them; none of them returns anything or touches the router state. The log fields of
  \<^verbatim>\<open>RouterEvent\<close> are left out. The metric function of an advertisement is the value it
  returns at the instant of the call.
\<close>

record Source =
  src_NodeId :: NodeId
  src_Prefix :: Prefix

record FD =
  fd_Seqno :: u16
  fd_Metric :: u32

record PubRoute =
  pr_Source :: Source
  pr_FD :: FD

record NeighRoute =
  nr_PubRoute :: PubRoute
  nr_ExpireAt :: instant
  nr_SmoothedMetric :: f64

record SelRoute =
  sr_PubRoute :: PubRoute
  sr_Nh :: NodeId
  sr_ExpireAt :: instant
  sr_RetractedBy :: "NodeId list"

record Advertisement =
  adv_NodeId :: NodeId
  adv_Expiry :: instant
  adv_IsPassiveHold :: bool
  adv_MetricFn :: "u32 option"
  adv_ExpiryFn :: bool

record Neighbour =
  neigh_Id :: NodeId
  neigh_Routes :: "(Prefix, NeighRoute) gomap"
  neigh_Eps :: "Endpoint list"

record RouterState =
  rs_Tunables :: RouterTunables
  rs_Id :: NodeId
  rs_SelfSeqno :: "(Prefix, u16) gomap"
  rs_Routes :: "(Prefix, SelRoute) gomap"
  rs_Sources :: "(Source, FD) gomap"
  rs_Neighbours :: "Neighbour list"
  rs_Advertised :: "(Prefix, Advertisement) gomap"

text \<open>Fields promoted by embedding.\<close>

abbreviation pr_Prefix :: "PubRoute \<Rightarrow> Prefix" where "pr_Prefix r \<equiv> src_Prefix (pr_Source r)"
abbreviation pr_NodeId :: "PubRoute \<Rightarrow> NodeId" where "pr_NodeId r \<equiv> src_NodeId (pr_Source r)"
abbreviation pr_Seqno :: "PubRoute \<Rightarrow> u16" where "pr_Seqno r \<equiv> fd_Seqno (pr_FD r)"
abbreviation pr_Metric :: "PubRoute \<Rightarrow> u32" where "pr_Metric r \<equiv> fd_Metric (pr_FD r)"
abbreviation sr_Source :: "SelRoute \<Rightarrow> Source" where "sr_Source r \<equiv> pr_Source (sr_PubRoute r)"
abbreviation sr_Seqno :: "SelRoute \<Rightarrow> u16" where "sr_Seqno r \<equiv> pr_Seqno (sr_PubRoute r)"
abbreviation sr_Metric :: "SelRoute \<Rightarrow> u32" where "sr_Metric r \<equiv> pr_Metric (sr_PubRoute r)"
abbreviation nr_Source :: "NeighRoute \<Rightarrow> Source" where "nr_Source r \<equiv> pr_Source (nr_PubRoute r)"
abbreviation nr_Seqno :: "NeighRoute \<Rightarrow> u16" where "nr_Seqno r \<equiv> pr_Seqno (nr_PubRoute r)"
abbreviation nr_Metric :: "NeighRoute \<Rightarrow> u32" where "nr_Metric r \<equiv> pr_Metric (nr_PubRoute r)"

text \<open>Assignments to the promoted metric.\<close>

definition set_pr_Metric :: "u32 \<Rightarrow> PubRoute \<Rightarrow> PubRoute" where
  "set_pr_Metric m r = r\<lparr>pr_FD := (pr_FD r)\<lparr>fd_Metric := m\<rparr>\<rparr>"

definition set_sr_Metric :: "u32 \<Rightarrow> SelRoute \<Rightarrow> SelRoute" where
  "set_sr_Metric m r = r\<lparr>sr_PubRoute := set_pr_Metric m (sr_PubRoute r)\<rparr>"

definition set_nr_Metric :: "u32 \<Rightarrow> NeighRoute \<Rightarrow> NeighRoute" where
  "set_nr_Metric m r = r\<lparr>nr_PubRoute := set_pr_Metric m (nr_PubRoute r)\<rparr>"

lemma set_pr_Metric_simps [simp]:
  "pr_Metric (set_pr_Metric m r) = m" "pr_Seqno (set_pr_Metric m r) = pr_Seqno r"
  "pr_Source (set_pr_Metric m r) = pr_Source r"
  by (simp_all add: set_pr_Metric_def)

lemma set_sr_Metric_simps [simp]:
  "sr_Metric (set_sr_Metric m r) = m" "sr_Seqno (set_sr_Metric m r) = sr_Seqno r"
  "sr_Source (set_sr_Metric m r) = sr_Source r" "sr_Nh (set_sr_Metric m r) = sr_Nh r"
  "sr_ExpireAt (set_sr_Metric m r) = sr_ExpireAt r" "sr_RetractedBy (set_sr_Metric m r) = sr_RetractedBy r"
  by (simp_all add: set_sr_Metric_def)

lemma set_nr_Metric_simps [simp]:
  "nr_Metric (set_nr_Metric m r) = m" "nr_Seqno (set_nr_Metric m r) = nr_Seqno r"
  "nr_Source (set_nr_Metric m r) = nr_Source r" "nr_ExpireAt (set_nr_Metric m r) = nr_ExpireAt r"
  by (simp_all add: set_nr_Metric_def)

definition GetSeqno :: "RouterState \<Rightarrow> Prefix \<Rightarrow> u16" where
  "GetSeqno s prefix = (case mget (rs_SelfSeqno s) prefix of None \<Rightarrow> 0 | Some seq \<Rightarrow> seq)"

definition SetSeqno :: "Prefix \<Rightarrow> u16 \<Rightarrow> RouterState \<Rightarrow> RouterState" where
  "SetSeqno prefix seqno s = s\<lparr>rs_SelfSeqno := mput prefix seqno (rs_SelfSeqno s)\<rparr>"

text \<open>\<^verbatim>\<open>GetNeighbour\<close> returns a pointer into \<^verbatim>\<open>Neighbours\<close>: here its index.\<close>

fun index_of :: "('a \<Rightarrow> bool) \<Rightarrow> 'a list \<Rightarrow> nat option" where
  "index_of P [] = None"
| "index_of P (x # xs) = (if P x then Some 0 else map_option Suc (index_of P xs))"

definition GetNeighbour :: "RouterState \<Rightarrow> NodeId \<Rightarrow> nat option" where
  "GetNeighbour s node = index_of (\<lambda>n. neigh_Id n = node) (rs_Neighbours s)"

definition neigh_at :: "nat \<Rightarrow> (Neighbour \<Rightarrow> Neighbour) \<Rightarrow> RouterState \<Rightarrow> RouterState" where
  "neigh_at i f s = s\<lparr>rs_Neighbours := (rs_Neighbours s)[i := f (rs_Neighbours s ! i)]\<rparr>"

lemma index_of_Some:
  "index_of P xs = Some i \<Longrightarrow> i < length xs \<and> P (xs ! i) \<and> (\<forall>j < i. \<not> P (xs ! j))"
  by (induction xs arbitrary: i) (auto simp: less_Suc_eq_0_disj split: if_splits)

lemma index_of_None: "index_of P xs = None \<longleftrightarrow> (\<forall>x \<in> set xs. \<not> P x)"
  by (induction xs) auto

datatype RouterCall =
    SendRouteUpdate NodeId PubRoute
  | SendAckRetract NodeId Prefix
  | BroadcastSendRouteUpdate PubRoute
  | RequestSeqno NodeId Source u16 u8
  | BroadcastRequestSeqno Source u16 u8
  | TableInsertRoute Prefix SelRoute
  | TableDeleteRoute Prefix
  | RouterEvent string string
  | ExpiryFn Prefix

definition EventRouteInserted :: string where "EventRouteInserted = ''route_inserted''"
definition EventRouteUpdated :: string where "EventRouteUpdated = ''route_updated''"
definition EventRouteRetracted :: string where "EventRouteRetracted = ''route_retracted''"
definition EventRouteExpired :: string where "EventRouteExpired = ''route_expired''"
definition EventMajorRouteChange :: string where "EventMajorRouteChange = ''major_route_change''"
definition EventInconsistentState :: string where "EventInconsistentState = ''inconsistent_state''"
definition EventNoEndpointToNeigh :: string where "EventNoEndpointToNeigh = ''no_endpoint_to_neighbour''"
definition EventSeqnoRequested :: string where "EventSeqnoRequested = ''seqno_requested''"

text \<open>A Go map read with a missing key gives the zero value.\<close>

definition source_FD :: "RouterState \<Rightarrow> Source \<Rightarrow> FD" where
  "source_FD s src = (case mget (rs_Sources s) src of None \<Rightarrow> \<lparr>fd_Seqno = 0, fd_Metric = 0\<rparr> | Some fd \<Rightarrow> fd)"

end
