(* ===== verification/Router_Algo.thy ===== *)
theory Router_Algo
  imports Routing_State
begin

text \<open>
  \<^verbatim>\<open>src/core/router_algo.go\<close>, function by function: feasibility, full-table updates, garbage
  collection, the three message handlers, route selection and starvation. An operation takes the
  router state and returns it with the list of calls made on the \<^verbatim>\<open>Router\<close> interface. The
  operations that read links thread the readings' bookkeeping and are optional (\<open>None\<close> is a
  panic). \<open>ComputeRoutes\<close> is the composition of its phases, in the order of the source.
\<close>

type_synonym calls = "RouterCall list"

subsection \<open>Feasibility\<close>

definition updateFeasibility :: "PubRoute \<Rightarrow> RouterState \<Rightarrow> RouterState" where
  "updateFeasibility advRoute router =
     (case mget (rs_Sources router) (pr_Source advRoute) of
        None \<Rightarrow> router\<lparr>rs_Sources := mput (pr_Source advRoute) (pr_FD advRoute) (rs_Sources router)\<rparr>
      | Some srcInfo \<Rightarrow>
          let srcInfo =
                (if SeqnoLt (fd_Seqno srcInfo) (pr_Seqno advRoute)
                 then srcInfo\<lparr>fd_Seqno := pr_Seqno advRoute, fd_Metric := pr_Metric advRoute\<rparr>
                 else if fd_Seqno srcInfo = pr_Seqno advRoute \<and> fd_Metric srcInfo > pr_Metric advRoute
                 then srcInfo\<lparr>fd_Metric := pr_Metric advRoute\<rparr>
                 else srcInfo)
          in router\<lparr>rs_Sources := mput (pr_Source advRoute) srcInfo (rs_Sources router)\<rparr>)"

definition checkFeasibility :: "RouterState \<Rightarrow> PubRoute \<Rightarrow> bool" where
  "checkFeasibility router advRoute =
     (case mget (rs_Sources router) (pr_Source advRoute) of
        None \<Rightarrow> True
      | Some srcInfo \<Rightarrow>
          if SeqnoLt (fd_Seqno srcInfo) (pr_Seqno advRoute) \<or> pr_Metric advRoute = M_INF then True
          else if fd_Seqno srcInfo = pr_Seqno advRoute \<and> pr_Metric advRoute < fd_Metric srcInfo then True
          else False)"

subsection \<open>Full-table updates\<close>

definition push_route :: "(PubRoute \<Rightarrow> RouterCall) \<Rightarrow> Prefix \<times> SelRoute \<Rightarrow> RouterState \<times> calls \<Rightarrow> RouterState \<times> calls" where
  "push_route send = (\<lambda>(prefix, route) (s, cs).
     let s = (if sr_Metric route \<noteq> M_INF then updateFeasibility (sr_PubRoute route) s else s)
     in (s, cs @ [send (sr_PubRoute route)]))"

definition FullTableUpdate :: "RouterState \<Rightarrow> RouterState \<times> calls" where
  "FullTableUpdate s = fold (push_route BroadcastSendRouteUpdate) (rs_Routes s) (s, [])"

definition PushFullTable :: "NodeId \<Rightarrow> RouterState \<Rightarrow> RouterState \<times> calls" where
  "PushFullTable neigh s = fold (push_route (SendRouteUpdate neigh)) (rs_Routes s) (s, [])"

subsection \<open>Route selection\<close>

definition smoothMetric :: "f64 \<Rightarrow> u32 \<Rightarrow> f64 \<Rightarrow> f64" where
  "smoothMetric prev sample alpha =
     (let s = f64_of_int (uint sample)
      in if prev = 0 then s else fadd (fmul alpha s) (fmul (fsub 1 alpha) prev))"

definition IsStrictlyBetter :: "SelRoute \<Rightarrow> SelRoute \<Rightarrow> bool" where
  "IsStrictlyBetter curRoute newRoute \<longleftrightarrow> sr_Metric newRoute < sr_Metric curRoute"

definition sameRoute :: "SelRoute \<Rightarrow> SelRoute \<Rightarrow> bool" where
  "sameRoute a b \<longleftrightarrow> sr_Nh a = sr_Nh b \<and> sr_Source a = sr_Source b"

definition isHeldRoute :: "RouterState \<Rightarrow> SelRoute \<Rightarrow> nat \<Rightarrow> bool \<Rightarrow> instant \<Rightarrow> bool" where
  "isHeldRoute s route connectedNeighs hasLink now =
     (if sr_Nh route = rs_Id s then False
      else if sr_Metric route \<noteq> M_INF \<and> hasLink then False
      else length (sr_RetractedBy route) < connectedNeighs \<and> sr_ExpireAt route > now)"

text \<open>The best endpoint of every neighbour, as whether there is one, and how many have one.\<close>

record endpoints =
  es_best :: "(NodeId, bool) gomap"
  es_connected :: nat

fun collect_endpoints :: "instant \<Rightarrow> Neighbour list \<Rightarrow> endpoints \<Rightarrow> (Neighbour list \<times> endpoints) option" where
  "collect_endpoints now [] es = Some ([], es)"
| "collect_endpoints now (neigh # ns) es = do {
     (best, eps) \<leftarrow> BestEndpoint now (neigh_Eps neigh);
     (ns, es) \<leftarrow> collect_endpoints now ns
       (es\<lparr>es_best := mput (neigh_Id neigh) (best \<noteq> None) (es_best es),
           es_connected := (if best \<noteq> None then es_connected es + 1 else es_connected es)\<rparr>);
     Some (neigh\<lparr>neigh_Eps := eps\<rparr> # ns, es)
   }"

definition has_link :: "endpoints \<Rightarrow> NodeId \<Rightarrow> bool" where
  "has_link es node \<longleftrightarrow> mget (es_best es) node = Some True"

definition held_routes :: "instant \<Rightarrow> endpoints \<Rightarrow> RouterState \<Rightarrow> (Prefix, SelRoute) gomap" where
  "held_routes now es s =
     fold (\<lambda>(prefix, route) newTable.
             if isHeldRoute s route (es_connected es) (has_link es (sr_Nh route)) now
             then mput prefix (set_sr_Metric M_INF route) newTable else newTable)
          (rs_Routes s) []"

definition advertised_route :: "instant \<Rightarrow> RouterState \<Rightarrow> Prefix \<Rightarrow> Advertisement \<Rightarrow> SelRoute" where
  "advertised_route now s prefix adv =
     (let advMetric =
            (if adv_IsPassiveHold adv then M_INFM div 2
             else case adv_MetricFn adv of None \<Rightarrow> 0 | Some m \<Rightarrow> m)
      in \<lparr>sr_PubRoute = \<lparr>pr_Source = \<lparr>src_NodeId = rs_Id s, src_Prefix = prefix\<rparr>,
                         pr_FD = \<lparr>fd_Seqno = GetSeqno s prefix, fd_Metric = advMetric\<rparr>\<rparr>,
          sr_Nh = adv_NodeId adv,
          sr_ExpireAt = min (now + RouteExpiryTime (rs_Tunables s)) (adv_Expiry adv),
          sr_RetractedBy = []\<rparr>)"

definition advertise_routes ::
  "instant \<Rightarrow> RouterState \<Rightarrow> (Prefix, SelRoute) gomap \<Rightarrow> (Prefix, SelRoute) gomap" where
  "advertise_routes now s newTable =
     fold (\<lambda>(prefix, adv) t. mput prefix (advertised_route now s prefix adv) t) (rs_Advertised s) newTable"

record candidate =
  cand_route :: SelRoute
  cand_smoothed :: f64

record candidates =
  cs_bestByPrefix :: "(Prefix, candidate) gomap"
  cs_selByPrefix :: "(Prefix, candidate) gomap"

definition candidate_route :: "NodeId \<Rightarrow> u32 \<Rightarrow> NeighRoute \<Rightarrow> SelRoute" where
  "candidate_route neigh totalCost adv =
     \<lparr>sr_PubRoute = \<lparr>pr_Source = nr_Source adv, pr_FD = \<lparr>fd_Seqno = nr_Seqno adv, fd_Metric = totalCost\<rparr>\<rparr>,
      sr_Nh = neigh, sr_ExpireAt = nr_ExpireAt adv, sr_RetractedBy = []\<rparr>"

text \<open>One advertisement of one neighbour; the entry it re-reads and writes is the one visited.\<close>

definition candidate_step ::
  "RouterState \<Rightarrow> NodeId \<Rightarrow> u32 \<Rightarrow> Prefix \<times> NeighRoute \<Rightarrow>
   (Prefix, NeighRoute) gomap \<times> candidates \<Rightarrow> (Prefix, NeighRoute) gomap \<times> candidates" where
  "candidate_step s neigh CAB = (\<lambda>(prefix, adv) (routes, cs).
     let totalCost = AddMetric CAB (nr_Metric adv)
     in if totalCost = M_INF then (routes, cs)
        else if \<not> checkFeasibility s (nr_PubRoute adv) then (routes, cs)
        else
          let nr = adv\<lparr>nr_SmoothedMetric :=
                     smoothMetric (nr_SmoothedMetric adv) totalCost (MetricSmoothingAlpha (rs_Tunables s))\<rparr>;
              routes = mput prefix nr routes;
              newRoute = candidate_route neigh totalCost adv;
              cand = \<lparr>cand_route = newRoute, cand_smoothed = nr_SmoothedMetric nr\<rparr>;
              better = (case mget (cs_bestByPrefix cs) prefix of
                          None \<Rightarrow> True
                        | Some cur \<Rightarrow> sr_Metric newRoute < sr_Metric (cand_route cur));
              cs = (if better then cs\<lparr>cs_bestByPrefix := mput prefix cand (cs_bestByPrefix cs)\<rparr> else cs);
              current = (case mget (rs_Routes s) prefix of
                           None \<Rightarrow> False
                         | Some prev \<Rightarrow> sr_Nh prev = neigh \<and> sr_Source prev = nr_Source adv);
              cs = (if current then cs\<lparr>cs_selByPrefix := mput prefix cand (cs_selByPrefix cs)\<rparr> else cs)
          in (routes, cs))"

definition neigh_cost :: "instant \<Rightarrow> RouterState \<Rightarrow> endpoints \<Rightarrow> Neighbour \<Rightarrow> (u32 \<times> Neighbour) option" where
  "neigh_cost now s es neigh =
     (if \<not> has_link es (neigh_Id neigh) then Some (M_INF, neigh)
      else do {
        (c, eps) \<leftarrow> LinkCost now (neigh_Eps neigh);
        Some (AddMetric (AddMetric c (HopCost (rs_Tunables s))) (TransitCost (rs_Tunables s)),
              neigh\<lparr>neigh_Eps := eps\<rparr>)
      })"

fun collect_candidates ::
  "instant \<Rightarrow> RouterState \<Rightarrow> endpoints \<Rightarrow> Neighbour list \<Rightarrow> candidates \<Rightarrow>
   (Neighbour list \<times> candidates \<times> calls) option" where
  "collect_candidates now s es [] cs = Some ([], cs, [])"
| "collect_candidates now s es (neigh # ns) cs = do {
     let ev = (if has_link es (neigh_Id neigh) then []
               else [RouterEvent EventNoEndpointToNeigh ''no endpoint to neighbour'']);
     (CAB, neigh) \<leftarrow> neigh_cost now s es neigh;
     let (routes, cs) = fold (candidate_step s (neigh_Id neigh) CAB) (neigh_Routes neigh) (neigh_Routes neigh, cs);
     (ns, cs, ev') \<leftarrow> collect_candidates now s es ns cs;
     Some (neigh\<lparr>neigh_Routes := routes\<rparr> # ns, cs, ev @ ev')
   }"

text \<open>The route currently in use for a prefix, with its smoothed metric.\<close>

definition current_route :: "SelRoute option \<Rightarrow> candidate option \<Rightarrow> (SelRoute \<times> f64) option" where
  "current_route incumbent sel =
     (case incumbent of
        Some inc \<Rightarrow>
          Some (inc, case sel of
                       Some c \<Rightarrow> if sameRoute inc (cand_route c) then cand_smoothed c
                                 else f64_of_int (uint (sr_Metric inc))
                     | None \<Rightarrow> f64_of_int (uint (sr_Metric inc)))
      | None \<Rightarrow> map_option (\<lambda>c. (cand_route c, cand_smoothed c)) sel)"

definition select_route :: "candidate \<Rightarrow> (SelRoute \<times> f64) option \<Rightarrow> SelRoute" where
  "select_route best cur =
     (case cur of
        None \<Rightarrow> cand_route best
      | Some (cur, curSmoothed) \<Rightarrow>
          if sameRoute (cand_route best) cur then cand_route best
          else if sr_Metric (cand_route best) < sr_Metric cur \<and> cand_smoothed best < curSmoothed then cand_route best
          else cur)"

definition select_routes :: "candidates \<Rightarrow> (Prefix, SelRoute) gomap \<Rightarrow> (Prefix, SelRoute) gomap" where
  "select_routes cs newTable =
     fold (\<lambda>(prefix, best) t.
             mput prefix (select_route best (current_route (mget t prefix) (mget (cs_selByPrefix cs) prefix))) t)
          (cs_bestByPrefix cs) newTable"

definition major_change :: "RouterState \<Rightarrow> SelRoute option \<Rightarrow> SelRoute \<Rightarrow> bool" where
  "major_change s old newRoute =
     (case old of
        None \<Rightarrow> True
      | Some oldRoute \<Rightarrow>
          src_NodeId (sr_Source oldRoute) \<noteq> src_NodeId (sr_Source newRoute) \<or>
          sr_Seqno oldRoute \<noteq> sr_Seqno newRoute \<or>
          (abs_int (s64 (uint (sr_Metric newRoute) - uint (sr_Metric oldRoute)))
             > uint (LargeChangeThreshold (rs_Tunables s)) \<and> sr_Metric newRoute \<noteq> M_INF))"

definition table_calls :: "SelRoute option \<Rightarrow> Prefix \<Rightarrow> SelRoute \<Rightarrow> calls" where
  "table_calls old prefix newRoute =
     (case old of
        None \<Rightarrow> [TableInsertRoute prefix newRoute, RouterEvent EventRouteInserted ''inserted'']
      | Some oldRoute \<Rightarrow>
          if sr_Metric oldRoute = M_INF \<and> sr_Metric newRoute \<noteq> M_INF
          then [TableInsertRoute prefix newRoute, RouterEvent EventRouteInserted ''inserted'']
          else if sr_Nh oldRoute \<noteq> sr_Nh newRoute
          then [TableInsertRoute prefix newRoute, RouterEvent EventRouteUpdated ''updated'']
          else [])"

definition announce_step :: "Prefix \<times> SelRoute \<Rightarrow> RouterState \<times> calls \<Rightarrow> RouterState \<times> calls" where
  "announce_step = (\<lambda>(prefix, newRoute) (s, cs).
     let old = mget (rs_Routes s) prefix;
         cs = cs @ table_calls old prefix newRoute
     in if major_change s old newRoute
        then (updateFeasibility (sr_PubRoute newRoute) s,
              cs @ [RouterEvent EventMajorRouteChange ''major change'',
                    BroadcastSendRouteUpdate (sr_PubRoute newRoute)])
        else (s, cs))"

definition retract :: "RouterState \<Rightarrow> Prefix \<Rightarrow> calls" where
  "retract s prefix =
     (case mget (rs_Routes s) prefix of
        None \<Rightarrow> [RouterEvent EventInconsistentState ''attempted to retract non-existent route'']
      | Some tblEntry \<Rightarrow> [BroadcastSendRouteUpdate (sr_PubRoute (set_sr_Metric M_INF tblEntry))])"

definition blackholed :: "SelRoute \<Rightarrow> SelRoute" where
  "blackholed oldRoute = (set_sr_Metric M_INF oldRoute)\<lparr>sr_RetractedBy := []\<rparr>"

definition retract_step ::
  "RouterState \<Rightarrow> Prefix \<times> SelRoute \<Rightarrow> (Prefix, SelRoute) gomap \<times> calls \<Rightarrow> (Prefix, SelRoute) gomap \<times> calls" where
  "retract_step s = (\<lambda>(prefix, oldRoute) (newTable, cs).
     let gone = (case mget newTable prefix of None \<Rightarrow> True | Some route \<Rightarrow> sr_Metric route = M_INF)
     in if gone \<and> sr_Metric oldRoute \<noteq> M_INF
        then (mput prefix (blackholed oldRoute) newTable,
              cs @ retract s prefix @
              [RouterEvent EventRouteRetracted ''retracted'',
               TableInsertRoute prefix (blackholed oldRoute),
               RouterEvent EventRouteUpdated ''blackholed''])
        else (newTable, cs))"

definition ComputeRoutes :: "instant \<Rightarrow> RouterState \<Rightarrow> (RouterState \<times> calls) option" where
  "ComputeRoutes now s = do {
     (ns, es) \<leftarrow> collect_endpoints now (rs_Neighbours s) \<lparr>es_best = [], es_connected = 0\<rparr>;
     let s = s\<lparr>rs_Neighbours := ns\<rparr>;
     let newTable = advertise_routes now s (held_routes now es s);
     (ns, cands, cs1) \<leftarrow> collect_candidates now s es (rs_Neighbours s) \<lparr>cs_bestByPrefix = [], cs_selByPrefix = []\<rparr>;
     let s = s\<lparr>rs_Neighbours := ns\<rparr>;
     let newTable = select_routes cands newTable;
     let (s, cs2) = fold announce_step newTable (s, cs1);
     let (newTable, cs3) = fold (retract_step s) (rs_Routes s) (newTable, cs2);
     Some (s\<lparr>rs_Routes := newTable\<rparr>, cs3)
   }"

subsection \<open>Garbage collection\<close>

definition gc_route ::
  "instant \<Rightarrow> RouterTunables \<Rightarrow> Prefix \<times> NeighRoute \<Rightarrow>
   (Prefix, NeighRoute) gomap \<times> calls \<Rightarrow> (Prefix, NeighRoute) gomap \<times> calls" where
  "gc_route now t = (\<lambda>(prefix, route) (routes, cs).
     if now > nr_ExpireAt route
     then if nr_Metric route = M_INF
          then (mdel prefix routes, cs @ [RouterEvent EventRouteExpired ''expired and removed''])
          else (mput prefix ((set_nr_Metric M_INF route)\<lparr>nr_ExpireAt := now + RouteExpiryTime t\<rparr>) routes,
                cs @ [RouterEvent EventRouteExpired ''expired and marked''])
     else (routes, cs))"

fun gc_neighbours :: "instant \<Rightarrow> RouterTunables \<Rightarrow> Neighbour list \<Rightarrow> Neighbour list \<times> calls" where
  "gc_neighbours now t [] = ([], [])"
| "gc_neighbours now t (neigh # ns) =
     (let (routes, cs) = fold (gc_route now t) (neigh_Routes neigh) (neigh_Routes neigh, []);
          (ns, cs') = gc_neighbours now t ns
      in (neigh\<lparr>neigh_Routes := routes\<rparr> # ns, cs @ cs'))"

definition gc_advertised ::
  "instant \<Rightarrow> (Prefix, Advertisement) gomap \<Rightarrow> (Prefix, Advertisement) gomap \<times> calls" where
  "gc_advertised now advertised =
     fold (\<lambda>(svc, exp) (m, cs).
             if now > adv_Expiry exp
             then (mdel svc m, if adv_ExpiryFn exp then cs @ [ExpiryFn svc] else cs)
             else (m, cs))
          advertised (advertised, [])"

text \<open>Some route table still mentions the source.\<close>

definition source_used :: "RouterState \<Rightarrow> Source \<Rightarrow> bool" where
  "source_used s src \<longleftrightarrow>
     list_ex (\<lambda>neigh. case mget (neigh_Routes neigh) (src_Prefix src) of
                        None \<Rightarrow> False | Some nSrc \<Rightarrow> nr_Source nSrc = src) (rs_Neighbours s) \<or>
     (case mget (rs_Routes s) (src_Prefix src) of None \<Rightarrow> False | Some selRoute \<Rightarrow> sr_Source selRoute = src) \<or>
     (case mget (rs_Advertised s) (src_Prefix src) of None \<Rightarrow> False | Some adv \<Rightarrow> adv_NodeId adv = src_NodeId src)"

definition gc_sources :: "RouterState \<Rightarrow> RouterState" where
  "gc_sources s =
     s\<lparr>rs_Sources := fold (\<lambda>(src, fd) m. if source_used s src then m else mdel src m) (rs_Sources s) (rs_Sources s)\<rparr>"

definition RunGC :: "instant \<Rightarrow> RouterState \<Rightarrow> (RouterState \<times> calls) option" where
  "RunGC now s =
     (let (ns, cs1) = gc_neighbours now (rs_Tunables s) (rs_Neighbours s);
          (adv, cs2) = gc_advertised now (rs_Advertised s)
      in do {
        (s, cs3) \<leftarrow> ComputeRoutes now (s\<lparr>rs_Neighbours := ns, rs_Advertised := adv\<rparr>);
        Some (gc_sources s, cs1 @ cs2 @ cs3)
      })"

subsection \<open>Message handlers\<close>

text \<open>
  \<^verbatim>\<open>n := s.GetNeighbour(neigh); n == nil || n.BestEndpoint() == nil\<close>, negated.
\<close>

definition live_link :: "instant \<Rightarrow> NodeId \<Rightarrow> RouterState \<Rightarrow> (bool \<times> RouterState) option" where
  "live_link now node s =
     (case GetNeighbour s node of
        None \<Rightarrow> Some (False, s)
      | Some i \<Rightarrow> do {
          (best, eps) \<leftarrow> BestEndpoint now (neigh_Eps (rs_Neighbours s ! i));
          Some (best \<noteq> None, neigh_at i (\<lambda>n. n\<lparr>neigh_Eps := eps\<rparr>) s)
        })"

text \<open>
  \<^verbatim>\<open>NeighContainsFunc\<close> with the closures of \<^verbatim>\<open>HandleSeqnoRequest\<close>: the first route of a
  neighbour with a live link that satisfies the condition. The routes visited do not change.
\<close>

fun neigh_scan ::
  "instant \<Rightarrow> (NodeId \<Rightarrow> NeighRoute \<Rightarrow> bool) \<Rightarrow> (NodeId \<times> NeighRoute) list \<Rightarrow> RouterState \<Rightarrow>
   (NodeId option \<times> RouterState) option" where
  "neigh_scan now P [] s = Some (None, s)"
| "neigh_scan now P ((neigh, route) # rs) s = do {
     (live, s) \<leftarrow> live_link now neigh s;
     (if live \<and> P neigh route then Some (Some neigh, s) else neigh_scan now P rs s)
   }"

definition NeighContainsFunc ::
  "instant \<Rightarrow> (NodeId \<Rightarrow> NeighRoute \<Rightarrow> bool) \<Rightarrow> RouterState \<Rightarrow> (NodeId option \<times> RouterState) option" where
  "NeighContainsFunc now P s =
     neigh_scan now P (concat (map (\<lambda>n. map (\<lambda>(prefix, r). (neigh_Id n, r)) (neigh_Routes n)) (rs_Neighbours s))) s"

definition forward_request ::
  "instant \<Rightarrow> NodeId \<Rightarrow> Source \<Rightarrow> u16 \<Rightarrow> u8 \<Rightarrow> RouterState \<Rightarrow> (RouterState \<times> calls) option" where
  "forward_request now fromNeigh src reqSeqno hopCnt s =
     (let other = (\<lambda>neigh route. src_Prefix src = pr_Prefix (nr_PubRoute route) \<and> neigh \<noteq> fromNeigh \<and>
                      nr_Metric route \<noteq> M_INF)
      in do {
        (nh, s) \<leftarrow> NeighContainsFunc now (\<lambda>neigh route. other neigh route \<and> checkFeasibility s (nr_PubRoute route)) s;
        (nh, s) \<leftarrow> (case nh of Some n \<Rightarrow> Some (nh, s) | None \<Rightarrow> NeighContainsFunc now other s);
        Some (s, case nh of None \<Rightarrow> [] | Some n \<Rightarrow> [RequestSeqno n src reqSeqno (hopCnt - 1)])
      })"

definition HandleSeqnoRequest ::
  "instant \<Rightarrow> NodeId \<Rightarrow> Source \<Rightarrow> u16 \<Rightarrow> u8 \<Rightarrow> RouterState \<Rightarrow> (RouterState \<times> calls) option" where
  "HandleSeqnoRequest now fromNeigh src reqSeqno hopCnt s =
     (case mget (rs_Routes s) (src_Prefix src) of
        None \<Rightarrow> Some (s, [])
      | Some selRoute \<Rightarrow>
          let selId = src_NodeId (sr_Source selRoute);
              (s, cs) =
                (if sr_Metric selRoute \<noteq> M_INF \<and>
                    (selId \<noteq> src_NodeId src \<or> selId = src_NodeId src \<and> SeqnoGe (sr_Seqno selRoute) reqSeqno)
                 then (updateFeasibility (sr_PubRoute selRoute) s,
                       [SendRouteUpdate fromNeigh (sr_PubRoute selRoute)])
                 else (s, []))
          in if selId = src_NodeId src \<and> SeqnoGt reqSeqno (sr_Seqno selRoute)
             then if selId = rs_Id s
                  then do {
                    (s, cs') \<leftarrow> ComputeRoutes now (SetSeqno (src_Prefix (sr_Source selRoute)) reqSeqno s);
                    Some (s, cs @ cs')
                  }
                  else if hopCnt \<ge> 2
                  then do {
                    (s, cs') \<leftarrow> forward_request now fromNeigh src reqSeqno hopCnt s;
                    Some (s, cs @ cs')
                  }
                  else Some (s, cs)
             else Some (s, cs))"

definition HandleAckRetract :: "instant \<Rightarrow> NodeId \<Rightarrow> Prefix \<Rightarrow> RouterState \<Rightarrow> (RouterState \<times> calls) option" where
  "HandleAckRetract now neighId prefix s =
     (case mget (rs_Routes s) prefix of
        None \<Rightarrow> Some (s, [RouterEvent EventInconsistentState
                           ''attempted to ack the retraction of a non-existent route''])
      | Some rt \<Rightarrow>
          if sr_Metric rt \<noteq> M_INF then Some (s, [])
          else if neighId \<notin> set (sr_RetractedBy rt)
          then ComputeRoutes now
                 (s\<lparr>rs_Routes := mput prefix (rt\<lparr>sr_RetractedBy := sr_RetractedBy rt @ [neighId]\<rparr>) (rs_Routes s)\<rparr>)
          else Some (s, []))"

text \<open>
  The metric an unfeasible update would have if it were selected, reading the links of the
  neighbour at index \<open>i\<close>.
\<close>

definition dummy_metric :: "instant \<Rightarrow> nat \<Rightarrow> PubRoute \<Rightarrow> RouterState \<Rightarrow> (u32 \<times> RouterState) option" where
  "dummy_metric now i adv s = do {
     (best, eps) \<leftarrow> BestEndpoint now (neigh_Eps (rs_Neighbours s ! i));
     let s = neigh_at i (\<lambda>n. n\<lparr>neigh_Eps := eps\<rparr>) s;
     (if best \<noteq> None
      then do {
        (c, eps) \<leftarrow> LinkCost now (neigh_Eps (rs_Neighbours s ! i));
        Some (AddMetric (pr_Metric adv) (AddMetric c (AddMetric (HopCost (rs_Tunables s)) (TransitCost (rs_Tunables s)))),
              neigh_at i (\<lambda>n. n\<lparr>neigh_Eps := eps\<rparr>) s)
      }
      else Some (M_INF, s))
   }"

definition refresh_route :: "instant \<Rightarrow> RouterTunables \<Rightarrow> PubRoute \<Rightarrow> Neighbour \<Rightarrow> Neighbour" where
  "refresh_route now t adv n =
     n\<lparr>neigh_Routes :=
         (let nr = (case mget (neigh_Routes n) (pr_Prefix adv) of
                      Some nr \<Rightarrow> nr
                    | None \<Rightarrow> \<lparr>nr_PubRoute = adv, nr_ExpireAt = ZeroTime, nr_SmoothedMetric = 0\<rparr>);
              nr = nr\<lparr>nr_PubRoute := adv\<rparr>;
              nr = (if pr_Metric adv \<noteq> M_INF then nr\<lparr>nr_ExpireAt := now + RouteExpiryTime t\<rparr> else nr)
          in mput (pr_Prefix adv) nr (neigh_Routes n))\<rparr>"

definition HandleNeighbourUpdate :: "instant \<Rightarrow> NodeId \<Rightarrow> PubRoute \<Rightarrow> RouterState \<Rightarrow> (RouterState \<times> calls) option" where
  "HandleNeighbourUpdate now neighId adv s = do {
     i \<leftarrow> GetNeighbour s neighId;
     let n = rs_Neighbours s ! i;
     let cs = (if pr_Metric adv = M_INF then [SendAckRetract neighId (pr_Prefix adv)] else []);
     (case mget (neigh_Routes n) (pr_Prefix adv) of
        None \<Rightarrow>
          if \<not> checkFeasibility s adv then Some (s, cs)
          else if pr_Metric adv = M_INF then Some (s, cs)
          else Some (neigh_at i (\<lambda>n. n\<lparr>neigh_Routes := mput (pr_Prefix adv)
                        \<lparr>nr_PubRoute = adv, nr_ExpireAt = now + RouteExpiryTime (rs_Tunables s),
                         nr_SmoothedMetric = 0\<rparr> (neigh_Routes n)\<rparr>) s, cs)
      | Some _ \<Rightarrow>
          let sel = mget (rs_Routes s) (pr_Prefix adv);
              isSelected = (case sel of None \<Rightarrow> False
                            | Some selRoute \<Rightarrow> sr_Nh selRoute = neighId \<and> sr_Source selRoute = pr_Source adv);
              req = RequestSeqno neighId (pr_Source adv) (fd_Seqno (source_FD s (pr_Source adv)) + 1)
                      (SeqnoRequestHopCount (rs_Tunables s))
          in if \<not> checkFeasibility s adv
             then do {
               (m, s) \<leftarrow> dummy_metric now i adv s;
               let dummy = set_sr_Metric m \<lparr>sr_PubRoute = adv, sr_Nh = neighId, sr_ExpireAt = ZeroTime,
                             sr_RetractedBy = []\<rparr>;
               let isMoreOptimal = (case sel of None \<Rightarrow> False | Some selRoute \<Rightarrow> IsStrictlyBetter selRoute dummy);
               (if isSelected then Some (s, cs @ [req])
                else Some (neigh_at i (refresh_route now (rs_Tunables s) adv) s,
                           if isMoreOptimal then cs @ [req] else cs))
             }
             else Some (neigh_at i (refresh_route now (rs_Tunables s) adv) s, cs))
   }"

subsection \<open>Starvation\<close>

definition feasible_step :: "RouterState \<Rightarrow> Prefix \<times> NeighRoute \<Rightarrow> (Source, bool) gomap \<Rightarrow> (Source, bool) gomap" where
  "feasible_step s = (\<lambda>(prefix, route) m.
     let present_feasible = (mget m (nr_Source route) = Some True);
         routeFeasible = (nr_Metric route \<noteq> M_INF \<and> checkFeasibility s (nr_PubRoute route))
     in mput (nr_Source route) (present_feasible \<or> routeFeasible) m)"

fun feasible_sources ::
  "instant \<Rightarrow> RouterState \<Rightarrow> Neighbour list \<Rightarrow> (Source, bool) gomap \<Rightarrow>
   (Neighbour list \<times> (Source, bool) gomap) option" where
  "feasible_sources now s [] m = Some ([], m)"
| "feasible_sources now s (neigh # ns) m = do {
     (best, eps) \<leftarrow> BestEndpoint now (neigh_Eps neigh);
     let m = (if best = None then m else fold (feasible_step s) (neigh_Routes neigh) m);
     (ns, m) \<leftarrow> feasible_sources now s ns m;
     Some (neigh\<lparr>neigh_Eps := eps\<rparr> # ns, m)
   }"

definition starving_calls :: "RouterState \<Rightarrow> Source \<times> bool \<Rightarrow> calls" where
  "starving_calls s = (\<lambda>(src, feasible).
     if \<not> feasible \<and> src_NodeId src \<noteq> rs_Id s
     then [BroadcastRequestSeqno src (fd_Seqno (source_FD s src) + 1) (SeqnoRequestHopCount (rs_Tunables s)),
           RouterEvent EventSeqnoRequested ''requested seqno'']
     else [])"

definition SolveStarvation :: "instant \<Rightarrow> RouterState \<Rightarrow> (RouterState \<times> calls) option" where
  "SolveStarvation now s = do {
     (ns, m) \<leftarrow> feasible_sources now s (rs_Neighbours s) [];
     Some (s\<lparr>rs_Neighbours := ns\<rparr>, concat (map (starving_calls s) m))
   }"

end
