(* ===== verification/Route_Compute.thy ===== *)
theory Route_Compute
  imports Router_Algo
begin

text \<open>
  Route selection as a function of one prefix: what \<open>ComputeRoutes\<close> leaves in the table for
  a prefix is \<open>next_route\<close>, a function of lookups only, whatever order the maps are visited
  in. The feasibility, hysteresis, retraction and forwarding-table properties rest on it.
\<close>

subsection \<open>Well-formed states\<close>

definition wf_neigh :: "Neighbour \<Rightarrow> bool" where
  "wf_neigh n \<longleftrightarrow>
     gomap_ok (neigh_Routes n) \<and> list_all wf_endpoint (neigh_Eps n) \<and>
     (\<forall>p r. mget (neigh_Routes n) p = Some r \<longrightarrow> src_Prefix (nr_Source r) = p)"

definition wf_router :: "RouterState \<Rightarrow> bool" where
  "wf_router s \<longleftrightarrow>
     gomap_ok (rs_Routes s) \<and> gomap_ok (rs_Sources s) \<and> gomap_ok (rs_Advertised s) \<and>
     distinct (map neigh_Id (rs_Neighbours s)) \<and> list_all wf_neigh (rs_Neighbours s) \<and>
     (\<forall>p r. mget (rs_Routes s) p = Some r \<longrightarrow> src_Prefix (sr_Source r) = p)"

lemma wf_routerD:
  assumes "wf_router s"
  shows "gomap_ok (rs_Routes s)" "gomap_ok (rs_Sources s)" "gomap_ok (rs_Advertised s)"
    "distinct (map neigh_Id (rs_Neighbours s))" "list_all wf_neigh (rs_Neighbours s)"
    "\<And>p r. mget (rs_Routes s) p = Some r \<Longrightarrow> src_Prefix (sr_Source r) = p"
  using assms by (simp_all add: wf_router_def)

subsection \<open>Links\<close>

definition link_up :: "instant \<Rightarrow> Neighbour \<Rightarrow> bool" where
  "link_up now n \<longleftrightarrow> list_ex (Endpoint_IsActive now) (neigh_Eps n)"

text \<open>Two states of one neighbour that differ at most in the bookkeeping of link readings.\<close>

definition same_neigh :: "Neighbour \<Rightarrow> Neighbour \<Rightarrow> bool" where
  "same_neigh n n' \<longleftrightarrow>
     neigh_Id n' = neigh_Id n \<and> neigh_Routes n' = neigh_Routes n \<and> same_links (neigh_Eps n) (neigh_Eps n')"

lemma same_neigh_refl: "wf_neigh n \<Longrightarrow> same_neigh n n"
  by (simp add: same_neigh_def wf_neigh_def same_links_refl)

lemma same_links_wf: "same_links eps eps' \<Longrightarrow> list_all wf_endpoint eps'"
  by (auto simp: list_all2_conv_all_nth list_all_length same_link_def)

lemma same_neigh_wf: "same_neigh n n' \<Longrightarrow> wf_neigh n \<Longrightarrow> wf_neigh n'"
  by (auto simp: same_neigh_def wf_neigh_def same_links_wf)

lemma same_links_up: "same_links eps eps' \<Longrightarrow> list_ex (Endpoint_IsActive now) eps' = list_ex (Endpoint_IsActive now) eps"
  using same_link_obs(1) [OF same_links_nth] by (auto simp: list_ex_length list_all2_lengthD)

lemma same_neigh_up: "same_neigh n n' \<Longrightarrow> link_up now n' = link_up now n"
  by (simp add: same_neigh_def link_up_def same_links_up)

lemma BestEndpoint_up:
  assumes "list_all wf_endpoint eps"
  shows "\<exists>best eps'. BestEndpoint now eps = Some (best, eps') \<and> same_links eps eps' \<and>
    (best \<noteq> None) = list_ex (Endpoint_IsActive now) eps"
proof -
  obtain best eps' where b: "BestEndpoint now eps = Some (best, eps')" "same_links eps eps'"
    "first_min (link_key now) (Endpoint_IsActive now) eps (length eps) best"
    using BestEndpoint_spec [OF assms, of now] by blast
  then have "(best \<noteq> None) = list_ex (Endpoint_IsActive now) eps"
    by (cases best) (auto simp: first_min_def list_ex_length)
  then show ?thesis
    using b by blast
qed

text \<open>The cost of reaching a neighbour: link, hop and transit cost.\<close>

definition link_cost_of :: "instant \<Rightarrow> RouterTunables \<Rightarrow> Neighbour \<Rightarrow> u32" where
  "link_cost_of now t n =
     (if link_up now n
      then AddMetric (AddMetric (fst (the (LinkCost now (neigh_Eps n)))) (HopCost t)) (TransitCost t)
      else M_INF)"

lemma same_neigh_cost: "same_neigh n n' \<Longrightarrow> link_cost_of now t n' = link_cost_of now t n"
proof -
  assume n: "same_neigh n n'"
  then have eps: "same_links (neigh_Eps n) (neigh_Eps n')"
    by (simp add: same_neigh_def)
  have "list_all wf_endpoint (neigh_Eps n)" "list_all wf_endpoint (neigh_Eps n')"
    using eps by (auto simp: list_all2_conv_all_nth list_all_length same_link_def)
  then have "fst (the (LinkCost now (neigh_Eps n'))) = fst (the (LinkCost now (neigh_Eps n)))"
    using LinkCost_same [OF eps, of now] LinkCost_spec [of "neigh_Eps n" now] LinkCost_spec [of "neigh_Eps n'" now]
    by auto
  then show ?thesis
    using same_neigh_up [OF n] by (simp add: link_cost_of_def)
qed

lemma distinct_head: "distinct (map f (x # xs)) \<Longrightarrow> y \<in> set xs \<Longrightarrow> f y \<noteq> f x"
  by (metis distinct.simps(2) image_eqI list.simps(9) set_map)

lemma collect_endpoints_spec:
  assumes "list_all wf_neigh ns" and "distinct (map neigh_Id ns)"
  shows "\<exists>ns' es'. collect_endpoints now ns es = Some (ns', es') \<and> list_all2 same_neigh ns ns' \<and>
    es_connected es' = es_connected es + length (filter (link_up now) ns) \<and>
    (\<forall>x. mget (es_best es') x =
       (case find (\<lambda>n. neigh_Id n = x) ns of None \<Rightarrow> mget (es_best es) x | Some n \<Rightarrow> Some (link_up now n)))"
  using assms
proof (induction ns arbitrary: es)
  case (Cons n ns)
  obtain best eps' where b: "BestEndpoint now (neigh_Eps n) = Some (best, eps')"
    "same_links (neigh_Eps n) eps'" "(best \<noteq> None) = link_up now n"
    using BestEndpoint_up [of "neigh_Eps n" now] Cons.prems(1) by (auto simp: wf_neigh_def link_up_def)
  let ?es = "es\<lparr>es_best := mput (neigh_Id n) (best \<noteq> None) (es_best es),
    es_connected := (if best \<noteq> None then es_connected es + 1 else es_connected es)\<rparr>"
  obtain ns' es' where c: "collect_endpoints now ns ?es = Some (ns', es')" "list_all2 same_neigh ns ns'"
    "es_connected es' = es_connected ?es + length (filter (link_up now) ns)"
    "\<And>x. mget (es_best es') x =
       (case find (\<lambda>n. neigh_Id n = x) ns of None \<Rightarrow> mget (es_best ?es) x | Some n \<Rightarrow> Some (link_up now n))"
    using Cons.IH [of ?es] Cons.prems by auto
  have f: "find (\<lambda>m. neigh_Id m = neigh_Id n) ns = None"
    using distinct_head [OF Cons.prems(2)] by (auto simp: find_None_iff)
  have "collect_endpoints now (n # ns) es = Some (n\<lparr>neigh_Eps := eps'\<rparr> # ns', es')"
    using b(1) c(1) by simp
  moreover have "list_all2 same_neigh (n # ns) (n\<lparr>neigh_Eps := eps'\<rparr> # ns')"
    using b(2) c(2) by (simp add: same_neigh_def)
  moreover have "es_connected es' = es_connected es + length (filter (link_up now) (n # ns))"
    using c(3) b(3) by simp
  moreover have "mget (es_best es') x =
      (case find (\<lambda>n. neigh_Id n = x) (n # ns) of None \<Rightarrow> mget (es_best es) x | Some n \<Rightarrow> Some (link_up now n))" for x
    using c(4) [of x] b(3) f by (auto split: option.splits)
  ultimately show ?case
    by blast
qed simp

text \<open>Whether a node is a neighbour with a live link.\<close>


definition linked :: "instant \<Rightarrow> Neighbour list \<Rightarrow> NodeId \<Rightarrow> bool" where
  "linked now ns node \<longleftrightarrow> list_ex (\<lambda>n. neigh_Id n = node \<and> link_up now n) ns"

lemma find_linked:
  "distinct (map neigh_Id ns) \<Longrightarrow>
   (case find (\<lambda>n. neigh_Id n = x) ns of None \<Rightarrow> False | Some n \<Rightarrow> link_up now n) = linked now ns x"
proof (induction ns)
  case (Cons n ns)
  then have "\<forall>m \<in> set ns. neigh_Id m \<noteq> neigh_Id n"
    using distinct_head by metis
  then show ?case
    using Cons by (auto simp: linked_def list_ex_iff split: option.splits)
qed (simp add: linked_def)

lemma collect_endpoints_ok:
  assumes "list_all wf_neigh ns" and "distinct (map neigh_Id ns)"
  obtains ns' es where "collect_endpoints now ns \<lparr>es_best = [], es_connected = 0\<rparr> = Some (ns', es)"
    "list_all2 same_neigh ns ns'" "es_connected es = length (filter (link_up now) ns)"
    "\<And>x. has_link es x = linked now ns x"
proof -
  obtain ns' es where c: "collect_endpoints now ns \<lparr>es_best = [], es_connected = 0\<rparr> = Some (ns', es)"
    "list_all2 same_neigh ns ns'" "es_connected es = length (filter (link_up now) ns)"
    "\<And>x. mget (es_best es) x =
       (case find (\<lambda>n. neigh_Id n = x) ns of None \<Rightarrow> None | Some n \<Rightarrow> Some (link_up now n))"
    using collect_endpoints_spec [OF assms, of now "\<lparr>es_best = [], es_connected = 0\<rparr>"]
    by (simp only: endpoints.simps map_of.simps add_0) blast
  have "has_link es x = linked now ns x" for x
    using c(4) [of x] find_linked [OF assms(2), where x = x and now = now] by (simp add: has_link_def split: option.splits)
  then show ?thesis
    using that c(1-3) by blast
qed

subsection \<open>Candidates\<close>

text \<open>The candidate an advertisement gives, and how candidates for one prefix are merged.\<close>

definition cand_of :: "RouterState \<Rightarrow> NodeId \<Rightarrow> u32 \<Rightarrow> NeighRoute \<Rightarrow> candidate option" where
  "cand_of s neigh CAB adv =
     (let totalCost = AddMetric CAB (nr_Metric adv)
      in if totalCost = M_INF \<or> \<not> checkFeasibility s (nr_PubRoute adv) then None
         else Some \<lparr>cand_route = candidate_route neigh totalCost adv,
                    cand_smoothed = smoothMetric (nr_SmoothedMetric adv) totalCost
                      (MetricSmoothingAlpha (rs_Tunables s))\<rparr>)"

fun pick_best :: "candidate option \<Rightarrow> candidate option \<Rightarrow> candidate option" where
  "pick_best cur None = cur"
| "pick_best None (Some c) = Some c"
| "pick_best (Some b) (Some c) = (if sr_Metric (cand_route c) < sr_Metric (cand_route b) then Some c else Some b)"

definition pick_sel :: "SelRoute option \<Rightarrow> candidate option \<Rightarrow> candidate option \<Rightarrow> candidate option" where
  "pick_sel prev cur c =
     (case (prev, c) of
        (Some r, Some c') \<Rightarrow> if sameRoute r (cand_route c') then Some c' else cur
      | _ \<Rightarrow> cur)"

lemma candidate_route_simps [simp]:
  "sr_Nh (candidate_route n c adv) = n" "sr_Source (candidate_route n c adv) = nr_Source adv"
  "sr_Metric (candidate_route n c adv) = c" "sr_Seqno (candidate_route n c adv) = nr_Seqno adv"
  "sr_RetractedBy (candidate_route n c adv) = []" "sr_ExpireAt (candidate_route n c adv) = nr_ExpireAt adv"
  by (simp_all add: candidate_route_def)

lemma candidate_step_best:
  "mget (cs_bestByPrefix (snd (candidate_step s n c (k, adv) a))) k' =
     (if k' = k then pick_best (mget (cs_bestByPrefix (snd a)) k') (cand_of s n c adv)
      else mget (cs_bestByPrefix (snd a)) k')"
  by (cases a) (auto simp: candidate_step_def cand_of_def Let_def split: option.splits)

lemma candidate_step_sel:
  "mget (cs_selByPrefix (snd (candidate_step s n c (k, adv) a))) k' =
     (if k' = k then pick_sel (mget (rs_Routes s) k) (mget (cs_selByPrefix (snd a)) k') (cand_of s n c adv)
      else mget (cs_selByPrefix (snd a)) k')"
  by (cases a) (auto simp: candidate_step_def cand_of_def pick_sel_def sameRoute_def Let_def split: option.splits)

lemma candidate_step_routes:
  "mget (fst (candidate_step s n c (k, adv) a)) k' =
     (if k' = k
      then (case cand_of s n c adv of None \<Rightarrow> mget (fst a) k'
            | Some cand \<Rightarrow> Some (adv\<lparr>nr_SmoothedMetric := cand_smoothed cand\<rparr>))
      else mget (fst a) k')"
  by (cases a) (auto simp: candidate_step_def cand_of_def Let_def)

lemma candidate_step_ok:
  "gomap_ok (fst a) \<Longrightarrow> gomap_ok (fst (candidate_step s n c x a))"
  "gomap_ok (cs_bestByPrefix (snd a)) \<Longrightarrow> gomap_ok (cs_bestByPrefix (snd (candidate_step s n c x a)))"
  by (cases a; cases x; simp add: candidate_step_def Let_def split: option.splits)+

text \<open>A neighbour after the candidate phase: only readings and smoothed metrics moved.\<close>

definition nr_core :: "NeighRoute \<Rightarrow> PubRoute \<times> instant" where
  "nr_core r = (nr_PubRoute r, nr_ExpireAt r)"

definition kept_neigh :: "Neighbour \<Rightarrow> Neighbour \<Rightarrow> bool" where
  "kept_neigh n n' \<longleftrightarrow>
     neigh_Id n' = neigh_Id n \<and> wf_neigh n' \<and> same_links (neigh_Eps n) (neigh_Eps n') \<and>
     (\<forall>p. map_option nr_core (mget (neigh_Routes n') p) = map_option nr_core (mget (neigh_Routes n) p))"

definition cand_at :: "instant \<Rightarrow> RouterState \<Rightarrow> Prefix \<Rightarrow> Neighbour \<Rightarrow> candidate option" where
  "cand_at now s p n =
     (case mget (neigh_Routes n) p of
        None \<Rightarrow> None
      | Some adv \<Rightarrow> cand_of s (neigh_Id n) (link_cost_of now (rs_Tunables s) n) adv)"

lemma fold_candidate_step:
  assumes "wf_neigh n" and "gomap_ok (cs_bestByPrefix cs)"
    and "fold (candidate_step s (neigh_Id n) c) (neigh_Routes n) (neigh_Routes n, cs) = (routes, cs')"
  shows "gomap_ok (cs_bestByPrefix cs')" "gomap_ok routes"
    "mget (cs_bestByPrefix cs') p =
      (case mget (neigh_Routes n) p of None \<Rightarrow> mget (cs_bestByPrefix cs) p
       | Some adv \<Rightarrow> pick_best (mget (cs_bestByPrefix cs) p) (cand_of s (neigh_Id n) c adv))"
    "mget (cs_selByPrefix cs') p =
      (case mget (neigh_Routes n) p of None \<Rightarrow> mget (cs_selByPrefix cs) p
       | Some adv \<Rightarrow> pick_sel (mget (rs_Routes s) p) (mget (cs_selByPrefix cs) p) (cand_of s (neigh_Id n) c adv))"
    "map_option nr_core (mget routes p) = map_option nr_core (mget (neigh_Routes n) p)"
proof -
  let ?f = "fold (candidate_step s (neigh_Id n) c) (neigh_Routes n)"
  have ok: "gomap_ok (neigh_Routes n)"
    using assms(1) by (simp add: wf_neigh_def)
  have "gomap_ok (fst (fold (candidate_step s (neigh_Id n) c) xs a)) \<and>
      gomap_ok (cs_bestByPrefix (snd (fold (candidate_step s (neigh_Id n) c) xs a)))"
    if "gomap_ok (fst a)" "gomap_ok (cs_bestByPrefix (snd a))" for xs a
    using that by (induction xs arbitrary: a) (simp_all add: candidate_step_ok)
  from this [of "(neigh_Routes n, cs)" "neigh_Routes n"]
  show "gomap_ok (cs_bestByPrefix cs')" "gomap_ok routes"
    using assms ok by simp_all
  have "mget (cs_bestByPrefix (snd (?f (neigh_Routes n, cs)))) p =
      (case mget (neigh_Routes n) p of None \<Rightarrow> mget (cs_bestByPrefix cs) p
       | Some adv \<Rightarrow> pick_best (mget (cs_bestByPrefix cs) p) (cand_of s (neigh_Id n) c adv))"
    using fold_keys [OF ok, of "\<lambda>a k. mget (cs_bestByPrefix (snd a)) k" "candidate_step s (neigh_Id n) c"
        "\<lambda>k v cur. pick_best cur (cand_of s (neigh_Id n) c v)" "(neigh_Routes n, cs)" p]
    by (simp add: candidate_step_best split: option.splits)
  then show "mget (cs_bestByPrefix cs') p =
      (case mget (neigh_Routes n) p of None \<Rightarrow> mget (cs_bestByPrefix cs) p
       | Some adv \<Rightarrow> pick_best (mget (cs_bestByPrefix cs) p) (cand_of s (neigh_Id n) c adv))"
    using assms(3) by simp
  have "mget (cs_selByPrefix (snd (?f (neigh_Routes n, cs)))) p =
      (case mget (neigh_Routes n) p of None \<Rightarrow> mget (cs_selByPrefix cs) p
       | Some adv \<Rightarrow> pick_sel (mget (rs_Routes s) p) (mget (cs_selByPrefix cs) p) (cand_of s (neigh_Id n) c adv))"
    using fold_keys [OF ok, of "\<lambda>a k. mget (cs_selByPrefix (snd a)) k" "candidate_step s (neigh_Id n) c"
        "\<lambda>k v cur. pick_sel (mget (rs_Routes s) k) cur (cand_of s (neigh_Id n) c v)" "(neigh_Routes n, cs)" p]
    by (simp add: candidate_step_sel split: option.splits)
  then show "mget (cs_selByPrefix cs') p =
      (case mget (neigh_Routes n) p of None \<Rightarrow> mget (cs_selByPrefix cs) p
       | Some adv \<Rightarrow> pick_sel (mget (rs_Routes s) p) (mget (cs_selByPrefix cs) p) (cand_of s (neigh_Id n) c adv))"
    using assms(3) by simp
  have "mget (fst (?f (neigh_Routes n, cs))) p =
      (case mget (neigh_Routes n) p of None \<Rightarrow> mget (neigh_Routes n) p
       | Some adv \<Rightarrow> (case cand_of s (neigh_Id n) c adv of None \<Rightarrow> mget (neigh_Routes n) p
            | Some cand \<Rightarrow> Some (adv\<lparr>nr_SmoothedMetric := cand_smoothed cand\<rparr>)))"
    using fold_keys [OF ok, of "\<lambda>a k. mget (fst a) k" "candidate_step s (neigh_Id n) c"
        "\<lambda>k v cur. case cand_of s (neigh_Id n) c v of None \<Rightarrow> cur
           | Some cand \<Rightarrow> Some (v\<lparr>nr_SmoothedMetric := cand_smoothed cand\<rparr>)" "(neigh_Routes n, cs)" p]
    by (simp add: candidate_step_routes split: option.splits)
  then show "map_option nr_core (mget routes p) = map_option nr_core (mget (neigh_Routes n) p)"
    using assms(3) by (auto simp: nr_core_def split: option.splits)
qed

lemma neigh_cost_spec:
  assumes "wf_neigh n" and "has_link es (neigh_Id n) = link_up now n"
  shows "\<exists>n'. neigh_cost now s es n = Some (link_cost_of now (rs_Tunables s) n, n') \<and> same_neigh n n'"
proof (cases "link_up now n")
  case True
  obtain c eps where "LinkCost now (neigh_Eps n) = Some (c, eps)" "same_links (neigh_Eps n) eps"
    using LinkCost_spec [of "neigh_Eps n" now] assms(1) by (auto simp: wf_neigh_def)
  then show ?thesis
    using True assms by (simp add: neigh_cost_def link_cost_of_def same_neigh_def)
qed (use assms in \<open>simp add: neigh_cost_def link_cost_of_def same_neigh_refl\<close>)

lemma kept_neighI:
  assumes "wf_neigh n" and "same_neigh n n'" and "gomap_ok routes"
    and "\<And>p. map_option nr_core (mget routes p) = map_option nr_core (mget (neigh_Routes n') p)"
  shows "kept_neigh n (n'\<lparr>neigh_Routes := routes\<rparr>)"
proof -
  have w: "wf_neigh n'" and r: "neigh_Routes n' = neigh_Routes n"
    using same_neigh_wf [OF assms(2,1)] assms(2) by (simp_all add: same_neigh_def)
  have "src_Prefix (nr_Source r) = p" if get: "mget routes p = Some r" for p r
  proof -
    obtain r' where "mget (neigh_Routes n') p = Some r'" "nr_core r = nr_core r'"
      using assms(4) [of p] get by (cases "mget (neigh_Routes n') p") auto
    then show ?thesis
      using w by (simp add: wf_neigh_def nr_core_def)
  qed
  then show ?thesis
    using assms(2-4) w r by (simp add: kept_neigh_def same_neigh_def wf_neigh_def)
qed

definition best_from :: "instant \<Rightarrow> RouterState \<Rightarrow> Prefix \<Rightarrow> Neighbour list \<Rightarrow> candidate option \<Rightarrow> candidate option" where
  "best_from now s p ns cur = fold (\<lambda>n cur. pick_best cur (cand_at now s p n)) ns cur"

definition sel_from :: "instant \<Rightarrow> RouterState \<Rightarrow> Prefix \<Rightarrow> Neighbour list \<Rightarrow> candidate option \<Rightarrow> candidate option" where
  "sel_from now s p ns cur = fold (\<lambda>n cur. pick_sel (mget (rs_Routes s) p) cur (cand_at now s p n)) ns cur"

lemma pick_None [simp]: "pick_best cur None = cur" "pick_sel prev cur None = cur"
  by (auto simp: pick_sel_def split: option.splits)

lemma collect_candidates_spec:
  assumes "list_all wf_neigh ns" and "\<forall>n \<in> set ns. has_link es (neigh_Id n) = link_up now n"
    and "gomap_ok (cs_bestByPrefix cs)"
  shows "\<exists>ns' cs' ev. collect_candidates now s es ns cs = Some (ns', cs', ev) \<and>
    list_all2 kept_neigh ns ns' \<and> gomap_ok (cs_bestByPrefix cs') \<and>
    (\<forall>c \<in> set ev. \<exists>e d. c = RouterEvent e d) \<and>
    (\<forall>p. mget (cs_bestByPrefix cs') p = best_from now s p ns (mget (cs_bestByPrefix cs) p) \<and>
         mget (cs_selByPrefix cs') p = sel_from now s p ns (mget (cs_selByPrefix cs) p))"
  using assms
proof (induction ns arbitrary: cs)
  case (Cons n ns)
  let ?c = "link_cost_of now (rs_Tunables s) n"
  obtain n' where n': "neigh_cost now s es n = Some (?c, n')" "same_neigh n n'"
    using neigh_cost_spec [of n es now s] Cons.prems by auto
  have nn: "neigh_Id n' = neigh_Id n" "neigh_Routes n' = neigh_Routes n" "wf_neigh n'"
    using n'(2) same_neigh_wf Cons.prems(1) by (auto simp: same_neigh_def)
  obtain routes cs1 where f:
    "fold (candidate_step s (neigh_Id n') ?c) (neigh_Routes n') (neigh_Routes n', cs) = (routes, cs1)"
    by (cases "fold (candidate_step s (neigh_Id n') ?c) (neigh_Routes n') (neigh_Routes n', cs)")
  note g = fold_candidate_step [OF nn(3) Cons.prems(3) f, unfolded nn(1,2)]
  obtain ns' cs' ev where r: "collect_candidates now s es ns cs1 = Some (ns', cs', ev)"
    "list_all2 kept_neigh ns ns'" "gomap_ok (cs_bestByPrefix cs')" "\<forall>c \<in> set ev. \<exists>e d. c = RouterEvent e d"
    "\<And>p. mget (cs_bestByPrefix cs') p = best_from now s p ns (mget (cs_bestByPrefix cs1) p)"
    "\<And>p. mget (cs_selByPrefix cs') p = sel_from now s p ns (mget (cs_selByPrefix cs1) p)"
    using Cons.IH [of cs1] Cons.prems g(1) by auto
  have k: "kept_neigh n (n'\<lparr>neigh_Routes := routes\<rparr>)"
    using Cons.prems(1) n'(2) g(2,5) nn(2) by (intro kept_neighI) simp_all
  have "mget (cs_bestByPrefix cs1) p = pick_best (mget (cs_bestByPrefix cs) p) (cand_at now s p n)"
    "mget (cs_selByPrefix cs1) p = pick_sel (mget (rs_Routes s) p) (mget (cs_selByPrefix cs) p) (cand_at now s p n)" for p
    using g(3) [of p] g(4) [of p] by (simp_all add: cand_at_def split: option.splits)
  then show ?case
    using n'(1) f r k by (auto simp: best_from_def sel_from_def)
qed (simp add: best_from_def sel_from_def)

subsection \<open>The table for one prefix\<close>

lemma held_routes_at:
  assumes "gomap_ok (rs_Routes s)"
  shows "mget (held_routes now es s) p =
    (case mget (rs_Routes s) p of
       None \<Rightarrow> None
     | Some r \<Rightarrow> if isHeldRoute s r (es_connected es) (has_link es (sr_Nh r)) now
                 then Some (set_sr_Metric M_INF r) else None)"
  unfolding held_routes_def
  by (subst fold_keys [OF assms, where look = mget and g = "\<lambda>k r cur.
        if isHeldRoute s r (es_connected es) (has_link es (sr_Nh r)) now
        then Some (set_sr_Metric M_INF r) else cur"]) (auto split: option.splits)

lemma advertise_routes_at:
  assumes "gomap_ok (rs_Advertised s)"
  shows "mget (advertise_routes now s t) p =
    (case mget (rs_Advertised s) p of
       None \<Rightarrow> mget t p | Some adv \<Rightarrow> Some (advertised_route now s p adv))"
  unfolding advertise_routes_def
  by (subst fold_keys [OF assms, where look = mget and g = "\<lambda>k adv cur. Some (advertised_route now s k adv)"])
    (auto split: option.splits)

lemma select_routes_at:
  assumes "gomap_ok (cs_bestByPrefix cs)"
  shows "mget (select_routes cs t) p =
    (case mget (cs_bestByPrefix cs) p of
       None \<Rightarrow> mget t p
     | Some best \<Rightarrow> Some (select_route best (current_route (mget t p) (mget (cs_selByPrefix cs) p))))"
  unfolding select_routes_def
  by (subst fold_keys [OF assms, where look = mget and g = "\<lambda>k best cur.
        Some (select_route best (current_route cur (mget (cs_selByPrefix cs) k)))"])
    (auto split: option.splits)

lemma gomap_ok_tables:
  "gomap_ok (held_routes now es s)"
  "gomap_ok t \<Longrightarrow> gomap_ok (advertise_routes now s t)"
  "gomap_ok t \<Longrightarrow> gomap_ok (select_routes cs t)"
  unfolding held_routes_def advertise_routes_def select_routes_def
  by (rule gomap_ok_fold; auto)+

text \<open>
  What the phases leave for a prefix, from the old entry, the advertisement and the
  candidates. A finite old route with nothing finite to replace it turns into a blackhole.
\<close>

definition own_route :: "instant \<Rightarrow> RouterState \<Rightarrow> Prefix \<Rightarrow> SelRoute option" where
  "own_route now s p =
     (case mget (rs_Advertised s) p of
        Some adv \<Rightarrow> Some (advertised_route now s p adv)
      | None \<Rightarrow>
          (case mget (rs_Routes s) p of
             None \<Rightarrow> None
           | Some r \<Rightarrow>
               if isHeldRoute s r (length (filter (link_up now) (rs_Neighbours s)))
                    (linked now (rs_Neighbours s) (sr_Nh r)) now
               then Some (set_sr_Metric M_INF r) else None))"

definition selected_route :: "instant \<Rightarrow> RouterState \<Rightarrow> Prefix \<Rightarrow> SelRoute option" where
  "selected_route now s p =
     (case best_from now s p (rs_Neighbours s) None of
        None \<Rightarrow> own_route now s p
      | Some best \<Rightarrow>
          Some (select_route best
            (current_route (own_route now s p) (sel_from now s p (rs_Neighbours s) None))))"

definition next_route :: "instant \<Rightarrow> RouterState \<Rightarrow> Prefix \<Rightarrow> SelRoute option" where
  "next_route now s p =
     (case mget (rs_Routes s) p of
        None \<Rightarrow> selected_route now s p
      | Some old \<Rightarrow>
          if sr_Metric old \<noteq> M_INF \<and>
             (case selected_route now s p of None \<Rightarrow> True | Some r \<Rightarrow> sr_Metric r = M_INF)
          then Some (blackholed old)
          else selected_route now s p)"

lemma updateFeasibility_frame [simp]:
  "rs_Routes (updateFeasibility r s) = rs_Routes s" "rs_Neighbours (updateFeasibility r s) = rs_Neighbours s"
  "rs_Advertised (updateFeasibility r s) = rs_Advertised s" "rs_Tunables (updateFeasibility r s) = rs_Tunables s"
  "rs_Id (updateFeasibility r s) = rs_Id s" "rs_SelfSeqno (updateFeasibility r s) = rs_SelfSeqno s"
  by (simp_all add: updateFeasibility_def Let_def split: option.splits)

lemma gomap_ok_updateFeasibility [simp]:
  "gomap_ok (rs_Sources s) \<Longrightarrow> gomap_ok (rs_Sources (updateFeasibility r s))"
  by (simp add: updateFeasibility_def Let_def split: option.splits)

subsection \<open>Announcements and retractions\<close>

text \<open>The feasibility distance an update leaves for its source.\<close>

definition fd_join :: "FD option \<Rightarrow> FD \<Rightarrow> FD" where
  "fd_join cur new =
     (case cur of
        None \<Rightarrow> new
      | Some fd \<Rightarrow>
          if SeqnoLt (fd_Seqno fd) (fd_Seqno new) then new
          else if fd_Seqno fd = fd_Seqno new \<and> fd_Metric new < fd_Metric fd then new
          else fd)"

lemma FD_eqI: "fd_Seqno a = fd_Seqno (b :: FD) \<Longrightarrow> fd_Metric a = fd_Metric b \<Longrightarrow> a = b"
  by (cases a; cases b) simp

lemma Source_eq_iff:
  "\<lparr>src_NodeId = x, src_Prefix = p\<rparr> = src \<longleftrightarrow> src_NodeId src = x \<and> src_Prefix src = p"
  by (cases src) auto

lemma updateFeasibility_at:
  "mget (rs_Sources (updateFeasibility r s)) src =
     (if src = pr_Source r then Some (fd_join (mget (rs_Sources s) src) (pr_FD r)) else mget (rs_Sources s) src)"
  by (auto simp: updateFeasibility_def fd_join_def Let_def intro!: FD_eqI split: option.splits)

text \<open>The forwarding table as the calls change it: next hop and blackhole flag.\<close>

fun fib_step :: "RouterCall \<Rightarrow> (Prefix \<rightharpoonup> NodeId \<times> bool) \<Rightarrow> (Prefix \<rightharpoonup> NodeId \<times> bool)" where
  "fib_step (TableInsertRoute p r) fib = fib(p \<mapsto> (sr_Nh r, sr_Metric r = M_INF))"
| "fib_step (TableDeleteRoute p) fib = fib(p := None)"
| "fib_step _ fib = fib"

definition fib_run :: "calls \<Rightarrow> (Prefix \<rightharpoonup> NodeId \<times> bool) \<Rightarrow> (Prefix \<rightharpoonup> NodeId \<times> bool)" where
  "fib_run cs fib = fold fib_step cs fib"

lemma fib_run_simps [simp]:
  "fib_run [] fib = fib" "fib_run (c # cs) fib = fib_run cs (fib_step c fib)"
  "fib_run (cs @ cs') fib = fib_run cs' (fib_run cs fib)"
  by (simp_all add: fib_run_def)

definition announce_inv :: "RouterState \<Rightarrow> RouterState \<times> calls \<Rightarrow> bool" where
  "announce_inv s a \<longleftrightarrow>
     rs_Routes (fst a) = rs_Routes s \<and> rs_Neighbours (fst a) = rs_Neighbours s \<and>
     rs_Advertised (fst a) = rs_Advertised s \<and> rs_Tunables (fst a) = rs_Tunables s \<and>
     rs_Id (fst a) = rs_Id s \<and> rs_SelfSeqno (fst a) = rs_SelfSeqno s \<and>
     (gomap_ok (rs_Sources s) \<longrightarrow> gomap_ok (rs_Sources (fst a)))"

lemma announce_inv_step: "announce_inv s a \<Longrightarrow> announce_inv s (announce_step x a)"
  by (cases a; cases x) (auto simp: announce_step_def announce_inv_def Let_def)

lemma announce_inv_fold: "announce_inv s (fold announce_step t (s, cs))"
  by (rule fold_inv) (auto simp: announce_inv_step, simp add: announce_inv_def)

lemma major_change_cong: "rs_Tunables s = rs_Tunables s' \<Longrightarrow> major_change s = major_change s'"
  by (intro ext) (simp add: major_change_def split: option.splits)

lemma announce_sources:
  assumes "gomap_ok t" and "\<And>p r. mget t p = Some r \<Longrightarrow> src_Prefix (sr_Source r) = p"
  shows "mget (rs_Sources (fst (fold announce_step t (s, cs)))) src =
    (case mget t (src_Prefix src) of
       None \<Rightarrow> mget (rs_Sources s) src
     | Some r \<Rightarrow> if major_change s (mget (rs_Routes s) (src_Prefix src)) r \<and> sr_Source r = src
                 then Some (fd_join (mget (rs_Sources s) src) (pr_FD (sr_PubRoute r)))
                 else mget (rs_Sources s) src)"
proof -
  let ?look = "\<lambda>a p x. mget (rs_Sources (fst (a :: RouterState \<times> calls))) \<lparr>src_NodeId = x, src_Prefix = p\<rparr>"
  let ?g = "\<lambda>p r cur x.
    if major_change s (mget (rs_Routes s) p) r \<and> src_NodeId (sr_Source r) = x
    then Some (fd_join (cur x) (pr_FD (sr_PubRoute r))) else cur x"
  have step: "?look (announce_step (k, r) a) k' = (if k' = k then ?g k r (?look a k') else ?look a k')"
    if "(k, r) \<in> set t" "announce_inv s a" for k r a k'
  proof -
    have "src_Prefix (sr_Source r) = k"
      using assms that(1) by simp
    moreover have "rs_Routes (fst a) = rs_Routes s"
      using that(2) by (simp add: announce_inv_def)
    moreover have "major_change (fst a) = major_change s"
      using that(2) by (intro major_change_cong) (simp add: announce_inv_def)
    ultimately show ?thesis
      by (cases a) (auto simp: announce_step_def updateFeasibility_at Let_def fun_eq_iff Source_eq_iff)
  qed
  have "?look (fold announce_step t (s, cs)) (src_Prefix src) =
      (case mget t (src_Prefix src) of None \<Rightarrow> ?look (s, cs) (src_Prefix src)
       | Some r \<Rightarrow> ?g (src_Prefix src) r (?look (s, cs) (src_Prefix src)))"
    by (rule fold_keys_inv [where I = "announce_inv s"])
      (use assms(1) step announce_inv_step in \<open>auto simp: announce_inv_def\<close>)
  from fun_cong [OF this, of "src_NodeId src"] show ?thesis
    using assms(2) by (cases src) (auto split: option.splits)
qed

definition table_entry :: "SelRoute option \<Rightarrow> SelRoute \<Rightarrow> (NodeId \<times> bool) option \<Rightarrow> (NodeId \<times> bool) option" where
  "table_entry old r cur =
     (case old of
        None \<Rightarrow> Some (sr_Nh r, sr_Metric r = M_INF)
      | Some o1 \<Rightarrow>
          if sr_Metric o1 = M_INF \<and> sr_Metric r \<noteq> M_INF \<or> sr_Nh o1 \<noteq> sr_Nh r
          then Some (sr_Nh r, sr_Metric r = M_INF) else cur)"

lemma announce_fib:
  assumes "gomap_ok t"
  shows "fib_run (snd (fold announce_step t (s, cs))) fib p =
    (case mget t p of
       None \<Rightarrow> fib_run cs fib p
     | Some r \<Rightarrow> table_entry (mget (rs_Routes s) p) r (fib_run cs fib p))"
proof -
  have step: "fib_run (snd (announce_step (k, r) a)) fib k' =
      (if k' = k then table_entry (mget (rs_Routes s) k) r (fib_run (snd a) fib k') else fib_run (snd a) fib k')"
    if "announce_inv s a" for k r a k'
    using that
    by (cases a) (auto simp: announce_step_def announce_inv_def table_calls_def table_entry_def Let_def
        split: option.splits)
  show ?thesis
    using fold_keys_inv [OF assms, where I = "announce_inv s" and a = "(s, cs)" and f = announce_step
        and look = "\<lambda>a. fib_run (snd a) fib" and g = "\<lambda>k r cur. table_entry (mget (rs_Routes s) k) r cur" and k = p]
      step announce_inv_step
    by (simp add: announce_inv_def split: option.splits)
qed

lemma retract_step_table:
  "mget (fst (retract_step s (k, old) a)) k' =
     (if k' = k
      then (if sr_Metric old \<noteq> M_INF \<and>
               (case mget (fst a) k' of None \<Rightarrow> True | Some r \<Rightarrow> sr_Metric r = M_INF)
            then Some (blackholed old) else mget (fst a) k')
      else mget (fst a) k')"
  by (cases a) (auto simp: retract_step_def Let_def split: option.splits)

lemma retract_table:
  assumes "gomap_ok (rs_Routes s)"
  shows "mget (fst (fold (retract_step s) (rs_Routes s) (t, cs))) p =
    (case mget (rs_Routes s) p of
       None \<Rightarrow> mget t p
     | Some old \<Rightarrow>
         if sr_Metric old \<noteq> M_INF \<and> (case mget t p of None \<Rightarrow> True | Some r \<Rightarrow> sr_Metric r = M_INF)
         then Some (blackholed old) else mget t p)"
  by (subst fold_keys [OF assms, where look = "\<lambda>a. mget (fst a)" and g = "\<lambda>k old cur.
        if sr_Metric old \<noteq> M_INF \<and> (case cur of None \<Rightarrow> True | Some r \<Rightarrow> sr_Metric r = M_INF)
        then Some (blackholed old) else cur"])
    (auto simp: retract_step_table split: option.splits)

lemma blackholed_simps [simp]:
  "sr_Metric (blackholed r) = M_INF" "sr_Nh (blackholed r) = sr_Nh r" "sr_Source (blackholed r) = sr_Source r"
  "sr_RetractedBy (blackholed r) = []" "sr_Seqno (blackholed r) = sr_Seqno r"
  "sr_ExpireAt (blackholed r) = sr_ExpireAt r"
  by (simp_all add: blackholed_def)

lemma fib_retract [simp]: "fib_run (retract s p) fib = fib"
  by (simp add: retract_def split: option.splits)

lemma retract_fib:
  assumes "gomap_ok (rs_Routes s)"
  shows "fib_run (snd (fold (retract_step s) (rs_Routes s) (t, cs))) fib p =
    (case mget (rs_Routes s) p of
       None \<Rightarrow> fib_run cs fib p
     | Some old \<Rightarrow>
         if sr_Metric old \<noteq> M_INF \<and> (case mget t p of None \<Rightarrow> True | Some r \<Rightarrow> sr_Metric r = M_INF)
         then Some (sr_Nh old, True) else fib_run cs fib p)"
proof -
  let ?gone = "\<lambda>old cur. sr_Metric old \<noteq> M_INF \<and> (case cur of None \<Rightarrow> True | Some r \<Rightarrow> sr_Metric r = M_INF)"
  let ?look = "\<lambda>a p. (mget (fst a) p, fib_run (snd a) fib p)"
  let ?g = "\<lambda>k :: Prefix. \<lambda>old (cur, e). if ?gone old cur then (Some (blackholed old), Some (sr_Nh old, True)) else (cur, e)"
  have "?look (fold (retract_step s) (rs_Routes s) (t, cs)) p =
      (case mget (rs_Routes s) p of None \<Rightarrow> ?look (t, cs) p | Some old \<Rightarrow> ?g p old (?look (t, cs) p))"
    by (rule fold_keys [OF assms])
      (auto simp: retract_step_def Let_def split: option.splits prod.splits if_splits)
  then show ?thesis
    by (auto split: option.splits if_splits)
qed

lemma retract_calls:
  assumes "c \<in> set (snd (fold (retract_step s) xs (t, cs)))"
  shows "c \<in> set cs \<or> (\<exists>p old. (p, old) \<in> set xs \<and> sr_Metric old \<noteq> M_INF \<and>
    (c \<in> set (retract s p) \<or> c = TableInsertRoute p (blackholed old) \<or> (\<exists>e d. c = RouterEvent e d)))"
  using assms
proof (induction xs arbitrary: t cs)
  case (Cons x xs)
  obtain p old where x: "x = (p, old)"
    by (cases x)
  obtain t' cs' where st: "retract_step s x (t, cs) = (t', cs')"
    by (cases "retract_step s x (t, cs)")
  have "c \<in> set cs' \<or> (\<exists>p old. (p, old) \<in> set xs \<and> sr_Metric old \<noteq> M_INF \<and>
    (c \<in> set (retract s p) \<or> c = TableInsertRoute p (blackholed old) \<or> (\<exists>e d. c = RouterEvent e d)))"
    using Cons st by auto
  moreover have "c \<in> set cs' \<Longrightarrow> c \<in> set cs \<or> sr_Metric old \<noteq> M_INF \<and>
    (c \<in> set (retract s p) \<or> c = TableInsertRoute p (blackholed old) \<or> (\<exists>e d. c = RouterEvent e d))"
    using st x by (auto simp: retract_step_def Let_def split: if_splits)
  ultimately show ?case
    using x by auto
qed simp

lemma announce_calls:
  assumes "c \<in> set (snd (fold announce_step xs (s', cs)))" and "announce_inv s (s', cs)"
  shows "c \<in> set cs \<or> (\<exists>p r. (p, r) \<in> set xs \<and>
    (c \<in> set (table_calls (mget (rs_Routes s) p) p r) \<or> (\<exists>e d. c = RouterEvent e d) \<or>
     major_change s (mget (rs_Routes s) p) r \<and> c = BroadcastSendRouteUpdate (sr_PubRoute r)))"
  using assms
proof (induction xs arbitrary: s' cs)
  case (Cons x xs)
  obtain p r where x: "x = (p, r)"
    by (cases x)
  obtain s2 cs2 where st: "announce_step x (s', cs) = (s2, cs2)"
    by (cases "announce_step x (s', cs)")
  have inv: "announce_inv s (s2, cs2)"
    using announce_inv_step [OF Cons.prems(2), of x] st by simp
  have same: "rs_Routes s' = rs_Routes s" "major_change s' = major_change s"
    using Cons.prems(2) by (simp_all add: announce_inv_def major_change_cong [of s' s])
  have "c \<in> set cs2 \<or> (\<exists>p r. (p, r) \<in> set xs \<and>
    (c \<in> set (table_calls (mget (rs_Routes s) p) p r) \<or> (\<exists>e d. c = RouterEvent e d) \<or>
     major_change s (mget (rs_Routes s) p) r \<and> c = BroadcastSendRouteUpdate (sr_PubRoute r)))"
    using Cons.IH [of s2 cs2] Cons.prems st inv by auto
  moreover have "c \<in> set cs2 \<Longrightarrow> c \<in> set cs \<or>
    (c \<in> set (table_calls (mget (rs_Routes s) p) p r) \<or> (\<exists>e d. c = RouterEvent e d) \<or>
     major_change s (mget (rs_Routes s) p) r \<and> c = BroadcastSendRouteUpdate (sr_PubRoute r))"
    using st x same by (auto simp: announce_step_def Let_def split: if_splits)
  ultimately show ?case
    using x by auto
qed simp

subsection \<open>The whole computation\<close>

lemma feasibility_neighbours [simp]:
  "checkFeasibility (s\<lparr>rs_Neighbours := ns\<rparr>) pr = checkFeasibility s pr"
  "advertised_route now (s\<lparr>rs_Neighbours := ns\<rparr>) p adv = advertised_route now s p adv"
  "isHeldRoute (s\<lparr>rs_Neighbours := ns\<rparr>) r c l now = isHeldRoute s r c l now"
  "major_change (s\<lparr>rs_Neighbours := ns\<rparr>) old r = major_change s old r"
  by (simp_all add: checkFeasibility_def advertised_route_def GetSeqno_def isHeldRoute_def major_change_def
      split: option.splits)

lemma cand_at_same:
  "same_neigh n n' \<Longrightarrow> cand_at now (s\<lparr>rs_Neighbours := ns\<rparr>) p n' = cand_at now s p n"
  using same_neigh_cost [of n n' now "rs_Tunables s"]
  by (simp add: cand_at_def cand_of_def same_neigh_def Let_def split: option.splits)

lemma from_same:
  assumes "list_all2 same_neigh ns ns'"
  shows "best_from now (s\<lparr>rs_Neighbours := ns0\<rparr>) p ns' cur = best_from now s p ns cur"
    and "sel_from now (s\<lparr>rs_Neighbours := ns0\<rparr>) p ns' cur = sel_from now s p ns cur"
  using assms
  by (induction arbitrary: cur rule: list_all2_induct) (simp_all add: best_from_def sel_from_def cand_at_same)

lemma cand_at_prefix:
  "wf_neigh n \<Longrightarrow> cand_at now s p n = Some c \<Longrightarrow> src_Prefix (sr_Source (cand_route c)) = p"
  by (auto simp: cand_at_def cand_of_def wf_neigh_def Let_def split: option.splits if_splits)

lemma best_from_cases:
  "best_from now s p ns cur = Some c \<Longrightarrow> cur = Some c \<or> (\<exists>n \<in> set ns. cand_at now s p n = Some c)"
proof (induction ns arbitrary: cur)
  case (Cons n ns)
  then have "pick_best cur (cand_at now s p n) = Some c \<or> (\<exists>n \<in> set ns. cand_at now s p n = Some c)"
    by (simp add: best_from_def)
  then show ?case
    by (cases cur; cases "cand_at now s p n") (auto split: if_splits)
qed (simp add: best_from_def)

lemma sel_from_cases:
  "sel_from now s p ns cur = Some c \<Longrightarrow>
   cur = Some c \<or> (\<exists>n \<in> set ns. cand_at now s p n = Some c \<and>
     (\<exists>r. mget (rs_Routes s) p = Some r \<and> sameRoute r (cand_route c)))"
proof (induction ns arbitrary: cur)
  case (Cons n ns)
  then have "pick_sel (mget (rs_Routes s) p) cur (cand_at now s p n) = Some c \<or>
    (\<exists>n \<in> set ns. cand_at now s p n = Some c \<and> (\<exists>r. mget (rs_Routes s) p = Some r \<and> sameRoute r (cand_route c)))"
    by (simp add: sel_from_def)
  then show ?case
    by (auto simp: pick_sel_def split: option.splits if_splits)
qed (simp add: sel_from_def)

text \<open>Every entry comes from a held route, an advertisement or a candidate.\<close>

lemma selected_route_cases:
  assumes "selected_route now s p = Some r"
  obtains (held) old where "mget (rs_Routes s) p = Some old" "r = set_sr_Metric M_INF old"
      "isHeldRoute s old (length (filter (link_up now) (rs_Neighbours s))) (linked now (rs_Neighbours s) (sr_Nh old)) now"
  | (own) adv where "mget (rs_Advertised s) p = Some adv" "r = advertised_route now s p adv"
  | (learned) n c where "n \<in> set (rs_Neighbours s)" "cand_at now s p n = Some c" "r = cand_route c"
proof (cases "best_from now s p (rs_Neighbours s) None")
  case None
  then show ?thesis
    using assms held own by (auto simp: selected_route_def own_route_def split: option.splits if_splits)
next
  case (Some b)
  have "r = select_route b (current_route (own_route now s p) (sel_from now s p (rs_Neighbours s) None))"
    using assms Some by (simp add: selected_route_def)
  then have "r = cand_route b \<or> own_route now s p = Some r \<or>
      (\<exists>c. sel_from now s p (rs_Neighbours s) None = Some c \<and> r = cand_route c)"
    by (auto simp: select_route_def current_route_def split: option.splits if_splits)
  then show ?thesis
  proof (elim disjE)
    assume "r = cand_route b"
    then show ?thesis
      using best_from_cases [OF Some] learned by auto
  next
    assume "own_route now s p = Some r"
    then show ?thesis
      using held own by (auto simp: own_route_def split: option.splits if_splits)
  next
    assume "\<exists>c. sel_from now s p (rs_Neighbours s) None = Some c \<and> r = cand_route c"
    then show ?thesis
      using sel_from_cases learned by blast
  qed
qed

lemma selected_route_prefix:
  assumes "wf_router s" and "selected_route now s p = Some r"
  shows "src_Prefix (sr_Source r) = p"
  using assms(2)
proof (cases rule: selected_route_cases)
  case (held old)
  then show ?thesis
    using wf_routerD(6) [OF assms(1)] by simp
next
  case (own adv)
  then show ?thesis
    by (simp add: advertised_route_def Let_def)
next
  case (learned n c)
  then show ?thesis
    using wf_routerD(5) [OF assms(1)] cand_at_prefix by (auto simp: list_all_iff)
qed

text \<open>What the computation leaves of the state and the calls it makes, per prefix.\<close>

definition source_next :: "instant \<Rightarrow> RouterState \<Rightarrow> Source \<Rightarrow> FD option" where
  "source_next now s src =
     (case selected_route now s (src_Prefix src) of
        None \<Rightarrow> mget (rs_Sources s) src
      | Some r \<Rightarrow> if major_change s (mget (rs_Routes s) (src_Prefix src)) r \<and> sr_Source r = src
                  then Some (fd_join (mget (rs_Sources s) src) (pr_FD (sr_PubRoute r)))
                  else mget (rs_Sources s) src)"

definition fib_next :: "instant \<Rightarrow> RouterState \<Rightarrow> Prefix \<Rightarrow> (NodeId \<times> bool) option \<Rightarrow> (NodeId \<times> bool) option" where
  "fib_next now s p cur =
     (let cur = (case selected_route now s p of
                   None \<Rightarrow> cur | Some r \<Rightarrow> table_entry (mget (rs_Routes s) p) r cur)
      in case mget (rs_Routes s) p of
           None \<Rightarrow> cur
         | Some old \<Rightarrow>
             if sr_Metric old \<noteq> M_INF \<and>
                (case selected_route now s p of None \<Rightarrow> True | Some r \<Rightarrow> sr_Metric r = M_INF)
             then Some (sr_Nh old, True) else cur)"

definition call_ok :: "instant \<Rightarrow> RouterState \<Rightarrow> RouterCall \<Rightarrow> bool" where
  "call_ok now s c \<longleftrightarrow>
     (\<exists>e d. c = RouterEvent e d) \<or>
     (\<exists>p r. c = TableInsertRoute p r \<and> selected_route now s p = Some r) \<or>
     (\<exists>p old. c = TableInsertRoute p (blackholed old) \<and> mget (rs_Routes s) p = Some old) \<or>
     (\<exists>p r. selected_route now s p = Some r \<and> major_change s (mget (rs_Routes s) p) r \<and>
        c = BroadcastSendRouteUpdate (sr_PubRoute r)) \<or>
     (\<exists>p old. mget (rs_Routes s) p = Some old \<and> sr_Metric old \<noteq> M_INF \<and>
        c = BroadcastSendRouteUpdate (sr_PubRoute (set_sr_Metric M_INF old)))"

definition announced_table :: "instant \<Rightarrow> RouterState \<Rightarrow> (Prefix, SelRoute) gomap \<Rightarrow> bool" where
  "announced_table now s t \<longleftrightarrow> gomap_ok t \<and> (\<forall>p. mget t p = selected_route now s p)"

lemma ComputeRoutes_phases:
  assumes "wf_router s"
  obtains ns t cs1 where "list_all2 kept_neigh (rs_Neighbours s) ns" "announced_table now s t"
    "\<forall>c \<in> set cs1. \<exists>e d. c = RouterEvent e d"
    "ComputeRoutes now s =
       (let (s2, cs2) = fold announce_step t (s\<lparr>rs_Neighbours := ns\<rparr>, cs1);
            (t', cs3) = fold (retract_step s2) (rs_Routes s2) (t, cs2)
        in Some (s2\<lparr>rs_Routes := t'\<rparr>, cs3))"
proof -
  note wf = wf_routerD [OF assms]
  let ?ns = "rs_Neighbours s"
  obtain ns1 es where e: "collect_endpoints now ?ns \<lparr>es_best = [], es_connected = 0\<rparr> = Some (ns1, es)"
    "list_all2 same_neigh ?ns ns1" "es_connected es = length (filter (link_up now) ?ns)"
    "\<And>x. has_link es x = linked now ?ns x"
    using collect_endpoints_ok [OF wf(5,4)] by blast
  let ?s1 = "s\<lparr>rs_Neighbours := ns1\<rparr>"
  have wf1: "list_all wf_neigh ns1"
    using e(2) wf(5) same_neigh_wf by (auto simp: list_all2_conv_all_nth list_all_length)
  have ids: "map neigh_Id ns1 = map neigh_Id ?ns"
    using e(2) by (auto simp: list_all2_conv_all_nth same_neigh_def intro!: nth_equalityI)
  have up: "has_link es (neigh_Id n) = link_up now n" if mem: "n \<in> set ns1" for n
  proof -
    obtain i where i: "i < length ns1" "n = ns1 ! i"
      using mem by (auto simp: in_set_conv_nth)
    then have sm: "same_neigh (?ns ! i) n"
      using e(2) by (simp add: list_all2_conv_all_nth)
    have len: "length ?ns = length ns1"
      using e(2) by (rule list_all2_lengthD)
    have "m = ?ns ! i" if "m \<in> set ?ns" "neigh_Id m = neigh_Id (?ns ! i)" for m
      using that wf(4) i(1) len by (metis distinct_map inj_onD nth_mem)
    then have "linked now ?ns (neigh_Id (?ns ! i)) = link_up now (?ns ! i)"
      using i(1) len by (fastforce simp: linked_def list_ex_iff)
    then show ?thesis
      using e(4) sm same_neigh_up [OF sm] by (simp add: same_neigh_def)
  qed
  obtain ns2 cands cs1 where c: "collect_candidates now ?s1 es ns1 \<lparr>cs_bestByPrefix = [], cs_selByPrefix = []\<rparr> =
      Some (ns2, cands, cs1)" "list_all2 kept_neigh ns1 ns2" "gomap_ok (cs_bestByPrefix cands)"
    "\<forall>c \<in> set cs1. \<exists>e d. c = RouterEvent e d"
    "\<And>p. mget (cs_bestByPrefix cands) p = best_from now ?s1 p ns1 None"
    "\<And>p. mget (cs_selByPrefix cands) p = sel_from now ?s1 p ns1 None"
    using collect_candidates_spec [OF wf1, of es now "\<lparr>cs_bestByPrefix = [], cs_selByPrefix = []\<rparr>" ?s1] up
    by auto
  let ?t = "select_routes cands (advertise_routes now ?s1 (held_routes now es ?s1))"
  have own: "mget (advertise_routes now ?s1 (held_routes now es ?s1)) p = own_route now s p" for p
    using wf(1,3) by (simp add: advertise_routes_at held_routes_at own_route_def e(3,4) split: option.splits)
  have "mget ?t p = selected_route now s p" for p
    by (simp add: select_routes_at [OF c(3)] own c(5,6) from_same [OF e(2)] selected_route_def
        split: option.splits)
  then have tt: "announced_table now s ?t"
    by (simp add: announced_table_def gomap_ok_tables)
  have kept: "list_all2 kept_neigh ?ns ns2"
    by (rule list_all2_trans [OF _ e(2) c(2)])
      (auto simp: kept_neigh_def same_neigh_def intro: list_all2_trans [OF same_link_trans])
  have "ComputeRoutes now s =
       (let (s2, cs2) = fold announce_step ?t (s\<lparr>rs_Neighbours := ns2\<rparr>, cs1);
            (t', cs3) = fold (retract_step s2) (rs_Routes s2) (?t, cs2)
        in Some (s2\<lparr>rs_Routes := t'\<rparr>, cs3))"
    using e(1) c(1) by (simp add: ComputeRoutes_def Let_def split: prod.splits)
  then show ?thesis
    using that kept tt c(4) by blast
qed

text \<open>The state a computation leaves.\<close>

definition computed :: "instant \<Rightarrow> RouterState \<Rightarrow> RouterState \<Rightarrow> calls \<Rightarrow> bool" where
  "computed now s s' cs \<longleftrightarrow>
     gomap_ok (rs_Routes s') \<and> gomap_ok (rs_Sources s') \<and>
     (\<forall>p. mget (rs_Routes s') p = next_route now s p) \<and>
     (\<forall>src. mget (rs_Sources s') src = source_next now s src) \<and>
     list_all2 kept_neigh (rs_Neighbours s) (rs_Neighbours s') \<and>
     rs_Advertised s' = rs_Advertised s \<and> rs_Tunables s' = rs_Tunables s \<and> rs_Id s' = rs_Id s \<and>
     rs_SelfSeqno s' = rs_SelfSeqno s \<and>
     (\<forall>c \<in> set cs. call_ok now s c) \<and>
     (\<forall>fib p. fib_run cs fib p = fib_next now s p (fib p))"

lemma event_fib: "\<forall>c \<in> set cs. \<exists>e d. c = RouterEvent e d \<Longrightarrow> fib_run cs fib = fib"
  by (induction cs arbitrary: fib) auto

lemma table_calls_ok:
  "c \<in> set (table_calls old p r) \<Longrightarrow> selected_route now s p = Some r \<Longrightarrow> call_ok now s c"
  by (auto simp: table_calls_def call_ok_def split: option.splits if_splits)

lemma event_ok:
  "call_ok now s (RouterEvent e d)"
  "mget (rs_Routes s) p = Some old \<Longrightarrow> call_ok now s (TableInsertRoute p (blackholed old))"
  by (auto simp: call_ok_def)

lemma update_ok:
  "selected_route now s p = Some r \<Longrightarrow> major_change s (mget (rs_Routes s) p) r \<Longrightarrow>
   call_ok now s (BroadcastSendRouteUpdate (sr_PubRoute r))"
  unfolding call_ok_def by blast

lemma announce_call_ok:
  assumes "announced_table now s t" and "\<forall>c \<in> set cs. \<exists>e d. c = RouterEvent e d"
    and "c \<in> set (snd (fold announce_step t (s\<lparr>rs_Neighbours := ns\<rparr>, cs)))"
  shows "call_ok now s c"
proof -
  have "c \<in> set cs \<or> (\<exists>p r. (p, r) \<in> set t \<and>
    (c \<in> set (table_calls (mget (rs_Routes s) p) p r) \<or> (\<exists>e d. c = RouterEvent e d) \<or>
     major_change s (mget (rs_Routes s) p) r \<and> c = BroadcastSendRouteUpdate (sr_PubRoute r)))"
    using announce_calls [OF assms(3), of "s\<lparr>rs_Neighbours := ns\<rparr>"] by (simp add: announce_inv_def)
  moreover have "selected_route now s p = Some r" if "(p, r) \<in> set t" for p r
    using assms(1) that by (metis announced_table_def in_set_mget)
  ultimately show ?thesis
    using bspec [OF assms(2)] update_ok table_calls_ok event_ok(1) by (elim disjE exE conjE) blast+
qed

lemma retract_call_ok:
  assumes "gomap_ok (rs_Routes s)" and "rs_Routes s2 = rs_Routes s" and "(p, old) \<in> set (rs_Routes s)"
    and "sr_Metric old \<noteq> M_INF" and "c \<in> set (retract s2 p)"
  shows "call_ok now s c"
proof -
  have old: "mget (rs_Routes s) p = Some old"
    using assms(1,3) by simp
  then have "c = BroadcastSendRouteUpdate (sr_PubRoute (set_sr_Metric M_INF old))"
    using assms(2,5) by (simp add: retract_def)
  then show ?thesis
    unfolding call_ok_def using old assms(4) by blast
qed

lemma gomap_ok_retract: "gomap_ok t \<Longrightarrow> gomap_ok (fst (fold (retract_step s) xs (t, cs)))"
  by (rule fold_inv) (auto simp: retract_step_def Let_def)

lemma ComputeRoutes_computed:
  assumes "wf_router s"
  shows "\<exists>s' cs. ComputeRoutes now s = Some (s', cs) \<and> computed now s s' cs"
proof (rule ComputeRoutes_phases [OF assms, of now])
  note wf = wf_routerD [OF assms]
  fix ns t cs1
  assume kept: "list_all2 kept_neigh (rs_Neighbours s) ns" and t: "announced_table now s t"
    and ev: "\<forall>c \<in> set cs1. \<exists>e d. c = RouterEvent e d"
    and cr: "ComputeRoutes now s =
       (let (s2, cs2) = fold announce_step t (s\<lparr>rs_Neighbours := ns\<rparr>, cs1);
            (t', cs3) = fold (retract_step s2) (rs_Routes s2) (t, cs2)
        in Some (s2\<lparr>rs_Routes := t'\<rparr>, cs3))"
  let ?s1 = "s\<lparr>rs_Neighbours := ns\<rparr>"
  have t_ok: "gomap_ok t" and t_at: "\<And>p. mget t p = selected_route now s p"
    using t by (simp_all add: announced_table_def)
  obtain s2 cs2 where a: "fold announce_step t (?s1, cs1) = (s2, cs2)"
    by (cases "fold announce_step t (?s1, cs1)")
  obtain t' cs3 where f: "fold (retract_step s2) (rs_Routes s2) (t, cs2) = (t', cs3)"
    by (cases "fold (retract_step s2) (rs_Routes s2) (t, cs2)")
  have inv: "announce_inv ?s1 (s2, cs2)"
    using announce_inv_fold [of ?s1 t cs1] a by simp
  then have s2: "rs_Routes s2 = rs_Routes s" "rs_Neighbours s2 = ns" "rs_Advertised s2 = rs_Advertised s"
    "rs_Tunables s2 = rs_Tunables s" "rs_Id s2 = rs_Id s" "rs_SelfSeqno s2 = rs_SelfSeqno s"
    "gomap_ok (rs_Sources s2)"
    using wf(2) by (simp_all add: announce_inv_def)
  have r2: "gomap_ok (rs_Routes s2)"
    using s2(1) wf(1) by simp
  have table: "mget t' p = next_route now s p" for p
    using retract_table [OF r2, of t cs2 p] f by (simp add: next_route_def t_at s2(1) split: option.splits)
  have fib: "fib_run cs3 fib p = fib_next now s p (fib p)" for fib p
    using retract_fib [OF r2, of t cs2 fib p] f announce_fib [OF t_ok, of ?s1 cs1 fib p] a
    by (simp add: fib_next_def t_at s2(1) event_fib [OF ev] Let_def split: option.splits)
  have src: "mget (rs_Sources s2) src = source_next now s src" for src
    using announce_sources [OF t_ok, of ?s1 cs1 src] a selected_route_prefix [OF assms]
    by (simp add: t_at source_next_def split: option.splits)
  have calls: "call_ok now s c" if "c \<in> set cs3" for c
  proof -
    have "c \<in> set cs2 \<or> (\<exists>p old. (p, old) \<in> set (rs_Routes s) \<and> sr_Metric old \<noteq> M_INF \<and>
      (c \<in> set (retract s2 p) \<or> c = TableInsertRoute p (blackholed old) \<or> (\<exists>e d. c = RouterEvent e d)))"
      using retract_calls [of c s2 "rs_Routes s2" t cs2] f that by (simp add: s2(1))
    moreover have "call_ok now s c" if "c \<in> set cs2"
      using announce_call_ok [OF t ev, of c ns] a that by simp
    moreover have "mget (rs_Routes s) p = Some old" if "(p, old) \<in> set (rs_Routes s)" for p old
      using that wf(1) by simp
    ultimately show ?thesis
      using retract_call_ok [OF wf(1) s2(1)] event_ok by (elim disjE exE conjE) blast+
  qed
  have "gomap_ok t'"
    using gomap_ok_retract [OF t_ok, of s2 "rs_Routes s2" cs2] f by simp
  then have "computed now s (s2\<lparr>rs_Routes := t'\<rparr>) cs3"
    using table fib src calls s2 kept by (simp add: computed_def)
  then show ?thesis
    using cr a f by simp
qed

lemma ComputeRoutes_total:
  assumes "wf_router s"
  obtains s' cs where "ComputeRoutes now s = Some (s', cs)" "computed now s s' cs"
  using ComputeRoutes_computed [OF assms] by blast

lemma next_route_prefix:
  assumes "wf_router s" and "next_route now s p = Some r"
  shows "src_Prefix (sr_Source r) = p"
  using assms(2) selected_route_prefix [OF assms(1)] wf_routerD(6) [OF assms(1)]
  by (auto simp: next_route_def split: option.splits if_splits)

lemma ComputeRoutes_wf:
  assumes "wf_router s" and "ComputeRoutes now s = Some (s', cs)"
  shows "wf_router s'"
proof -
  have c: "computed now s s' cs"
    using ComputeRoutes_computed [OF assms(1), of now] assms(2) by auto
  then have k: "list_all2 kept_neigh (rs_Neighbours s) (rs_Neighbours s')"
    by (simp add: computed_def)
  then have "map neigh_Id (rs_Neighbours s') = map neigh_Id (rs_Neighbours s)"
    by (auto simp: list_all2_conv_all_nth kept_neigh_def intro!: nth_equalityI)
  moreover have "list_all wf_neigh (rs_Neighbours s')"
    using k by (auto simp: list_all2_conv_all_nth list_all_length kept_neigh_def)
  ultimately show ?thesis
    using c wf_routerD [OF assms(1)] next_route_prefix [OF assms(1)]
    by (simp add: wf_router_def computed_def)
qed

end
