(* ===== verification/Route_Properties.thy ===== *)
theory Route_Properties
  imports Route_Compute
begin

text \<open>
  What route selection guarantees: only feasible, finite routes over live links are selected;
  a finite route is announced only once the node's feasibility distance covers it; distances
  only improve; switching needs both the instantaneous and the smoothed metric to improve; a lost
  route is retracted and blackholed; the forwarding table follows the route table; and none of it
  depends on the order in which Go visits its maps.
\<close>

subsection \<open>Feasibility distances\<close>

lemma fd_join_covers:
  assumes "mget (rs_Sources s) (pr_Source r) = Some (fd_join cur (pr_FD r))" and "pr_Metric r \<noteq> M_INF"
  shows "\<not> checkFeasibility s r"
  using assms by (auto simp: checkFeasibility_def fd_join_def split: option.splits)

lemma updateFeasibility_covers:
  "pr_Metric r \<noteq> M_INF \<Longrightarrow> \<not> checkFeasibility (updateFeasibility r s) r"
  by (rule fd_join_covers) (simp_all add: updateFeasibility_at)

text \<open>A distance that is as recent and no farther, or more recent.\<close>

definition fd_improves :: "FD \<Rightarrow> FD \<Rightarrow> bool" where
  "fd_improves fd fd' \<longleftrightarrow>
     SeqnoLt (fd_Seqno fd) (fd_Seqno fd') \<or> fd_Seqno fd' = fd_Seqno fd \<and> fd_Metric fd' \<le> fd_Metric fd"

lemma fd_join_improves: "fd_improves fd (fd_join (Some fd) new)"
  by (auto simp: fd_join_def fd_improves_def)

lemma fd_improves_refl [simp]: "fd_improves fd fd"
  by (simp add: fd_improves_def)

lemma source_next_improves:
  "mget (rs_Sources s) src = Some fd \<Longrightarrow> \<exists>fd'. source_next now s src = Some fd' \<and> fd_improves fd fd'"
  using fd_join_improves by (auto simp: source_next_def split: option.splits)

text \<open>Calls and table entries of a lost route.\<close>

lemma retract_mono: "set cs \<subseteq> set (snd (fold (retract_step s) xs (t, cs)))"
proof (induction xs arbitrary: t cs)
  case (Cons x xs)
  obtain t' cs' where st: "retract_step s x (t, cs) = (t', cs')"
    by (cases "retract_step s x (t, cs)")
  then have "set cs \<subseteq> set cs'"
    by (cases x) (auto simp: retract_step_def Let_def split: if_splits)
  then show ?case
    using Cons [of cs' t'] st by simp
qed simp

lemma retract_emits:
  assumes "gomap_ok xs" and "(p, old) \<in> set xs" and "sr_Metric old \<noteq> M_INF"
    and "case mget t p of None \<Rightarrow> True | Some r \<Rightarrow> sr_Metric r = M_INF"
  shows "set (retract s p) \<subseteq> set (snd (fold (retract_step s) xs (t, cs)))"
  using assms
proof (induction xs arbitrary: t cs)
  case (Cons x xs)
  obtain t' cs' where st: "retract_step s x (t, cs) = (t', cs')"
    by (cases "retract_step s x (t, cs)")
  show ?case
  proof (cases "x = (p, old)")
    case True
    then have "set (retract s p) \<subseteq> set cs'"
      using st Cons.prems(3,4) by (auto simp: retract_step_def Let_def split: if_splits)
    then show ?thesis
      using retract_mono [of cs' s xs t'] st by auto
  next
    case False
    then have "fst x \<noteq> p"
      using distinct_head [OF Cons.prems(1), of "(p, old)"] Cons.prems(2) by auto
    then have "mget t' p = mget t p"
      using st by (cases x) (auto simp: retract_step_def Let_def split: if_splits)
    then have "set (retract s p) \<subseteq> set (snd (fold (retract_step s) xs (t', cs')))"
      using Cons False by (intro Cons.IH) auto
    then show ?thesis
      using st by simp
  qed
qed simp

lemma announce_mono: "set cs \<subseteq> set (snd (fold announce_step xs (s, cs)))"
proof (induction xs arbitrary: s cs)
  case (Cons x xs)
  obtain s' cs' where st: "announce_step x (s, cs) = (s', cs')"
    by (cases "announce_step x (s, cs)")
  then have "set cs \<subseteq> set cs'"
    by (cases x) (auto simp: announce_step_def Let_def split: if_splits)
  then show ?case
    using Cons [of cs' s'] st by simp
qed simp

lemma announce_emits:
  assumes "(p, r) \<in> set xs" and "announce_inv s0 (s, cs)" and "major_change s0 (mget (rs_Routes s0) p) r"
  shows "BroadcastSendRouteUpdate (sr_PubRoute r) \<in> set (snd (fold announce_step xs (s, cs)))"
  using assms
proof (induction xs arbitrary: s cs)
  case (Cons x xs)
  obtain s' cs' where st: "announce_step x (s, cs) = (s', cs')"
    by (cases "announce_step x (s, cs)")
  have inv: "announce_inv s0 (s', cs')"
    using announce_inv_step [OF Cons.prems(2), of x] st by simp
  show ?case
  proof (cases "x = (p, r)")
    case True
    have "major_change s = major_change s0" "rs_Routes s = rs_Routes s0"
      using Cons.prems(2) by (simp_all add: announce_inv_def major_change_cong [of s s0])
    then have "BroadcastSendRouteUpdate (sr_PubRoute r) \<in> set cs'"
      using st True Cons.prems(3) by (auto simp: announce_step_def Let_def)
    then show ?thesis
      using announce_mono [of cs' xs s'] st by auto
  next
    case False
    then show ?thesis
      using Cons.IH [OF _ inv Cons.prems(3)] Cons.prems(1) st by simp
  qed
qed simp

text \<open>What a computation announces and retracts for a prefix.\<close>

lemma ComputeRoutes_emits:
  assumes "wf_router s" and "ComputeRoutes now s = Some (s', cs)"
  shows "selected_route now s p = Some r \<Longrightarrow> major_change s (mget (rs_Routes s) p) r \<Longrightarrow>
      BroadcastSendRouteUpdate (sr_PubRoute r) \<in> set cs"
    and "mget (rs_Routes s) p = Some old \<Longrightarrow> sr_Metric old \<noteq> M_INF \<Longrightarrow>
      case selected_route now s p of None \<Rightarrow> True | Some r \<Rightarrow> sr_Metric r = M_INF \<Longrightarrow>
      BroadcastSendRouteUpdate (sr_PubRoute (set_sr_Metric M_INF old)) \<in> set cs"
proof -
  obtain ns t cs1 where ph: "list_all2 kept_neigh (rs_Neighbours s) ns" "announced_table now s t"
    "\<forall>c \<in> set cs1. \<exists>e d. c = RouterEvent e d"
    "ComputeRoutes now s =
       (let (s2, cs2) = fold announce_step t (s\<lparr>rs_Neighbours := ns\<rparr>, cs1);
            (t', cs3) = fold (retract_step s2) (rs_Routes s2) (t, cs2)
        in Some (s2\<lparr>rs_Routes := t'\<rparr>, cs3))"
    by (rule ComputeRoutes_phases [OF assms(1)])
  let ?s1 = "s\<lparr>rs_Neighbours := ns\<rparr>"
  obtain s2 cs2 where a: "fold announce_step t (?s1, cs1) = (s2, cs2)"
    by (cases "fold announce_step t (?s1, cs1)")
  have r2: "rs_Routes s2 = rs_Routes s"
    using announce_inv_fold [of ?s1 t cs1] a by (simp add: announce_inv_def)
  have cs: "cs = snd (fold (retract_step s2) (rs_Routes s) (t, cs2))"
    using ph(4) a assms(2) r2 by (simp split: prod.splits)
  show "BroadcastSendRouteUpdate (sr_PubRoute r) \<in> set cs"
    if "selected_route now s p = Some r" "major_change s (mget (rs_Routes s) p) r"
  proof -
    have "(p, r) \<in> set t"
      using that(1) ph(2) by (metis announced_table_def map_of_SomeD)
    then have "BroadcastSendRouteUpdate (sr_PubRoute r) \<in> set cs2"
      using announce_emits [of p r t ?s1 ?s1 cs1] a that(2) by (simp add: announce_inv_def)
    then show ?thesis
      using retract_mono [of cs2 s2 "rs_Routes s" t] cs by auto
  qed
  show "BroadcastSendRouteUpdate (sr_PubRoute (set_sr_Metric M_INF old)) \<in> set cs"
    if "mget (rs_Routes s) p = Some old" "sr_Metric old \<noteq> M_INF"
      "case selected_route now s p of None \<Rightarrow> True | Some r \<Rightarrow> sr_Metric r = M_INF"
  proof -
    have t: "mget t p = selected_route now s p"
      using ph(2) by (simp add: announced_table_def)
    have "set (retract s2 p) \<subseteq> set cs"
      unfolding cs
      by (rule retract_emits [OF wf_routerD(1) [OF assms(1)] map_of_SomeD [OF that(1)] that(2)])
        (simp add: t that(3))
    moreover have "retract s2 p = [BroadcastSendRouteUpdate (sr_PubRoute (set_sr_Metric M_INF old))]"
      by (simp add: retract_def r2 that(1))
    ultimately show ?thesis
      by simp
  qed
qed

subsection \<open>Which route is selected\<close>

lemma cand_at_learned:
  assumes "cand_at now s p n = Some c"
  obtains adv where "mget (neigh_Routes n) p = Some adv" "link_up now n" "nr_Metric adv \<noteq> M_INF"
    "checkFeasibility s (nr_PubRoute adv)"
    "cand_route c = candidate_route (neigh_Id n) (AddMetric (link_cost_of now (rs_Tunables s) n) (nr_Metric adv)) adv"
    "sr_Metric (cand_route c) \<noteq> M_INF"
    "cand_smoothed c = smoothMetric (nr_SmoothedMetric adv) (sr_Metric (cand_route c)) (MetricSmoothingAlpha (rs_Tunables s))"
proof -
  obtain adv where a: "mget (neigh_Routes n) p = Some adv"
    "cand_of s (neigh_Id n) (link_cost_of now (rs_Tunables s) n) adv = Some c"
    using assms by (cases "mget (neigh_Routes n) p") (simp_all add: cand_at_def)
  let ?m = "AddMetric (link_cost_of now (rs_Tunables s) n) (nr_Metric adv)"
  have f: "?m \<noteq> M_INF" "checkFeasibility s (nr_PubRoute adv)"
    and c: "c = \<lparr>cand_route = candidate_route (neigh_Id n) ?m adv,
      cand_smoothed = smoothMetric (nr_SmoothedMetric adv) ?m (MetricSmoothingAlpha (rs_Tunables s))\<rparr>"
    using a(2) unfolding cand_of_def Let_def by (simp_all split: if_splits)
  have lc: "link_cost_of now (rs_Tunables s) n \<noteq> M_INF" and m: "nr_Metric adv \<noteq> M_INF"
    using f(1) by simp_all
  have up: "link_up now n"
    using lc by (metis link_cost_of_def)
  show ?thesis
    by (rule that [OF a(1) up m f(2)]) (use c f(1) in simp_all)
qed

lemma pick_best_Some:
  "\<exists>c1. pick_best (Some c0) x = Some c1 \<and> sr_Metric (cand_route c1) \<le> sr_Metric (cand_route c0)"
  "\<exists>c1. pick_best cur (Some c) = Some c1 \<and> sr_Metric (cand_route c1) \<le> sr_Metric (cand_route c)"
  by (cases x; auto) (cases cur; auto)

lemma best_from_mono:
  "\<exists>b. best_from now s p ns (Some c0) = Some b \<and> sr_Metric (cand_route b) \<le> sr_Metric (cand_route c0)"
proof (induction ns arbitrary: c0)
  case (Cons n ns)
  obtain c1 where c1: "pick_best (Some c0) (cand_at now s p n) = Some c1"
    "sr_Metric (cand_route c1) \<le> sr_Metric (cand_route c0)"
    using pick_best_Some(1) by blast
  obtain b where "best_from now s p ns (Some c1) = Some b" "sr_Metric (cand_route b) \<le> sr_Metric (cand_route c1)"
    using Cons by blast
  then show ?case
    using c1 by (auto simp: best_from_def)
qed (simp add: best_from_def)

lemma best_from_least:
  assumes "n \<in> set ns" and "cand_at now s p n = Some c"
  shows "\<exists>b. best_from now s p ns cur = Some b \<and> sr_Metric (cand_route b) \<le> sr_Metric (cand_route c)"
  using assms
proof (induction ns arbitrary: cur)
  case (Cons m ns)
  show ?case
  proof (cases "n = m")
    case True
    obtain c1 where c1: "pick_best cur (Some c) = Some c1" "sr_Metric (cand_route c1) \<le> sr_Metric (cand_route c)"
      using pick_best_Some(2) by blast
    obtain b where "best_from now s p ns (Some c1) = Some b" "sr_Metric (cand_route b) \<le> sr_Metric (cand_route c1)"
      using best_from_mono by blast
    then show ?thesis
      using c1 True Cons.prems(2) by (auto simp: best_from_def)
  next
    case False
    then have "n \<in> set ns"
      using Cons.prems(1) by simp
    then show ?thesis
      using Cons.IH [OF _ Cons.prems(2), of "pick_best cur (cand_at now s p m)"] by (simp add: best_from_def)
  qed
qed simp

text \<open>The current candidate of the selected route, when it still has one.\<close>

lemma cand_at_Nh: "cand_at now s p n = Some c \<Longrightarrow> sr_Nh (cand_route c) = neigh_Id n"
  by (erule cand_at_learned) simp

lemma cand_at_finite: "cand_at now s p n = Some c \<Longrightarrow> sr_Metric (cand_route c) \<noteq> M_INF"
  by (erule cand_at_learned) assumption

lemma cand_at_up: "cand_at now s p n = Some c \<Longrightarrow> link_up now n"
  by (erule cand_at_learned) assumption

lemma sel_from_keep:
  assumes "mget (rs_Routes s) p = Some r" and "sr_Nh r \<notin> neigh_Id ` set ns"
  shows "sel_from now s p ns cur = cur"
  using assms(2)
proof (induction ns arbitrary: cur)
  case (Cons n ns)
  have "pick_sel (mget (rs_Routes s) p) cur (cand_at now s p n) = cur"
  proof (cases "cand_at now s p n")
    case (Some c)
    have "\<not> sameRoute r (cand_route c)"
      using Cons.prems cand_at_Nh [OF Some] by (simp add: sameRoute_def)
    then show ?thesis
      by (simp add: Some assms(1) pick_sel_def)
  qed simp
  then have "sel_from now s p (n # ns) cur = sel_from now s p ns cur"
    by (simp add: sel_from_def)
  then show ?case
    using Cons.IH [of cur] Cons.prems by simp
qed (simp add: sel_from_def)

lemma sel_from_found:
  assumes "distinct (map neigh_Id ns)" and "n \<in> set ns" and "cand_at now s p n = Some c"
    and "mget (rs_Routes s) p = Some r" and "sameRoute r (cand_route c)"
  shows "sel_from now s p ns cur = Some c"
  using assms(1,2)
proof (induction ns arbitrary: cur)
  case (Cons m ns)
  have nh: "sr_Nh r = neigh_Id n"
    using assms(5) cand_at_Nh [OF assms(3)] by (simp add: sameRoute_def)
  show ?case
  proof (cases "n = m")
    case True
    then have "sr_Nh r \<notin> neigh_Id ` set ns"
      using Cons.prems(1) nh by simp
    then have "sel_from now s p ns (Some c) = Some c"
      by (rule sel_from_keep [OF assms(4)])
    moreover have "pick_sel (mget (rs_Routes s) p) cur (cand_at now s p m) = Some c"
      unfolding True [symmetric] assms(3,4) using assms(5) by (simp add: pick_sel_def)
    ultimately show ?thesis
      by (simp add: sel_from_def)
  next
    case False
    then have "n \<in> set ns"
      using Cons.prems(2) by simp
    then have "sel_from now s p ns (pick_sel (mget (rs_Routes s) p) cur (cand_at now s p m)) = Some c"
      using Cons.prems(1) by (intro Cons.IH) simp_all
    then show ?thesis
      by (simp add: sel_from_def)
  qed
qed simp

lemma computedI:
  assumes "wf_router s" and "ComputeRoutes now s = Some (s', cs)"
  shows "computed now s s' cs"
  using ComputeRoutes_computed [OF assms(1), of now] assms(2) by auto

lemma computed_route:
  assumes "wf_router s" and "ComputeRoutes now s = Some (s', cs)"
  shows "mget (rs_Routes s') p = next_route now s p"
  using computedI [OF assms] by (simp add: computed_def)

lemma next_route_finite:
  "next_route now s p = Some r \<Longrightarrow> sr_Metric r \<noteq> M_INF \<Longrightarrow> selected_route now s p = Some r"
  by (auto simp: next_route_def split: option.splits if_splits)

subsection \<open>A concrete router\<close>

definition tun_1 :: RouterTunables where
  "tun_1 = \<lparr>HopCost = 5, TransitCost = 0, TCPCost = 0, UDPCost = 0, LargeChangeThreshold = 100000,
     SeqnoRequestHopCount = 64, RouteUpdateDelay = 5000000000, ProbeDelay = 1000000000,
     ProbeRecoveryDelay = 1500000000, ProbeDiscoveryDelay = 10000000000, StarvationDelay = 100000000,
     SeqnoDedupTTL = 3000000000, NeighbourIOFlushDelay = 500000000, IPCDispatchTimeout = 1000000000,
     SafeMTU = 1200, WindowSamples = 60, OutlierPercentage = 1 / 16, MinimumConfidenceWindow = 15,
     GcDelay = 1000000000, LinkDeadThreshold = 5000000000, RouteExpiryTime = 25000000000,
     LossSmoothingAlpha = 1 / 8, LossRetxFloor = 100000000, LossCap = 7 / 8, MetricSmoothingAlpha = 1 / 4,
     ClientKeepaliveInterval = 3000000000, ClientDeadThreshold = 6000000000,
     CentralUpdateDelay = 10000000000, HealthCheckDelay = 15000000000, HealthCheckMaxFailures = 3,
     EndpointResolveExpiry = 60000000000, EndpointResolveDelay = 15000000000, MaxConfigSize = 1048576\<rparr>"

definition host :: "u32 \<Rightarrow> Prefix" where
  "host a = \<lparr>Prefix_Addr = Addr4 a, Prefix_Bits = 32\<rparr>"

definition pub :: "NodeId \<Rightarrow> Prefix \<Rightarrow> u16 \<Rightarrow> u32 \<Rightarrow> PubRoute" where
  "pub node p seqno m = \<lparr>pr_Source = \<lparr>src_NodeId = node, src_Prefix = p\<rparr>, pr_FD = \<lparr>fd_Seqno = seqno, fd_Metric = m\<rparr>\<rparr>"

definition nroute :: "PubRoute \<Rightarrow> NeighRoute" where
  "nroute r = \<lparr>nr_PubRoute = r, nr_ExpireAt = 100, nr_SmoothedMetric = 0\<rparr>"

definition nbr :: "NodeId \<Rightarrow> u32 \<Rightarrow> bool \<Rightarrow> (Prefix, NeighRoute) gomap \<Rightarrow> Neighbour" where
  "nbr x m up rs = \<lparr>neigh_Id = x, neigh_Routes = rs, neigh_Eps = [EpMock (NewMockEndpoint x m\<lparr>me_active := up\<rparr>)]\<rparr>"

text \<open>
  Node \<open>a\<close> with two live neighbours that both reach \<open>d\<close> and a dead one; it uses \<open>b\<close> for
  \<open>d\<close>'s prefix and the dead \<open>e\<close> for another, and advertises a prefix of its own.
\<close>

definition router_1 :: RouterState where
  "router_1 =
     \<lparr>rs_Tunables = tun_1, rs_Id = ''a'', rs_SelfSeqno = [],
      rs_Routes = [(host 7, \<lparr>sr_PubRoute = pub ''d'' (host 7) 0 45, sr_Nh = ''b'', sr_ExpireAt = 100, sr_RetractedBy = []\<rparr>),
                   (host 8, \<lparr>sr_PubRoute = pub ''e'' (host 8) 0 20, sr_Nh = ''e'', sr_ExpireAt = 100, sr_RetractedBy = []\<rparr>)],
      rs_Sources = [(\<lparr>src_NodeId = ''d'', src_Prefix = host 7\<rparr>, \<lparr>fd_Seqno = 0, fd_Metric = 45\<rparr>)],
      rs_Neighbours = [nbr ''b'' 10 True [(host 7, nroute (pub ''d'' (host 7) 0 30))],
                       nbr ''c'' 20 True [(host 7, nroute (pub ''d'' (host 7) 0 5)), (host 6, nroute (pub ''f'' (host 6) 0 3))],
                       nbr ''e'' 1 False [(host 8, nroute (pub ''e'' (host 8) 0 0))]],
      rs_Advertised = [(host 9, \<lparr>adv_NodeId = ''a'', adv_Expiry = 1000, adv_IsPassiveHold = False,
                         adv_MetricFn = None, adv_ExpiryFn = False\<rparr>)]\<rparr>"

lemma host_eq [simp]: "host a = host b \<longleftrightarrow> a = b"
  by (simp add: host_def)

lemma wf_router_1: "wf_router router_1"
  by (auto simp: wf_router_def wf_neigh_def router_1_def nbr_def nroute_def pub_def split: if_splits)

definition after_1 :: "RouterState \<times> calls" where
  "after_1 = the (ComputeRoutes 0 router_1)"

lemma after_1: "ComputeRoutes 0 router_1 = Some (fst after_1, snd after_1)"
  using ComputeRoutes_computed [OF wf_router_1, of 0] by (auto simp: after_1_def)

lemma route_7: "mget (rs_Routes (fst after_1)) (host 7) = Some (candidate_route ''c'' 30 (nroute (pub ''d'' (host 7) 0 5)))"
  by code_simp

lemma route_8: "mget (rs_Routes (fst after_1)) (host 8) =
    Some \<lparr>sr_PubRoute = pub ''e'' (host 8) 0 M_INF, sr_Nh = ''e'', sr_ExpireAt = 100, sr_RetractedBy = []\<rparr>"
  by code_simp

lemma route_6: "mget (rs_Routes (fst after_1)) (host 6) = Some (candidate_route ''c'' 28 (nroute (pub ''f'' (host 6) 0 3)))"
  by code_simp

subsection \<open>Properties\<close>



text \<open>C2: Before a finite route is announced the source table is updated so that it covers it: in
the state after the computation, no announced finite route would itself pass the feasibility check,
so an echo of it from a neighbour is never taken up.\<close>

theorem announced_routes_covered:
  assumes "wf_router s" and "ComputeRoutes now s = Some (s', cs)"
    and "BroadcastSendRouteUpdate r \<in> set cs" and "pr_Metric r \<noteq> M_INF"
  shows "\<not> checkFeasibility s' r"
proof -
  have c: "computed now s s' cs"
    using computedI [OF assms(1,2)] .
  then have "call_ok now s (BroadcastSendRouteUpdate r)"
    using assms(3) by (simp add: computed_def)
  then obtain p sr where p: "selected_route now s p = Some sr" "major_change s (mget (rs_Routes s) p) sr"
    "r = sr_PubRoute sr"
    using assms(4) by (auto simp: call_ok_def)
  have "src_Prefix (sr_Source sr) = p"
    using selected_route_prefix [OF assms(1) p(1)] .
  then have "mget (rs_Sources s') (pr_Source r) = Some (fd_join (mget (rs_Sources s) (pr_Source r)) (pr_FD r))"
    using c p by (simp add: computed_def source_next_def)
  then show ?thesis
    using fd_join_covers assms(4) by blast
qed

lemma announced_routes_covered_witness:
  "\<not> checkFeasibility (fst after_1) (pub ''f'' (host 6) 0 28)"
proof (rule announced_routes_covered [OF wf_router_1 after_1])
  show "BroadcastSendRouteUpdate (pub ''f'' (host 6) 0 28) \<in> set (snd after_1)"
    by code_simp
qed (simp add: pub_def M_INF_eval)

text \<open>C3: Feasibility distances only improve: after a computation every source still has its
entry, and it is more recent, or as recent and no farther than before.\<close>

theorem feasibility_distance_improves:
  assumes "wf_router s" and "ComputeRoutes now s = Some (s', cs)" and "mget (rs_Sources s) src = Some fd"
  shows "\<exists>fd'. mget (rs_Sources s') src = Some fd' \<and> fd_improves fd fd'"
  using source_next_improves [OF assms(3), of now] computedI [OF assms(1,2)] by (simp add: computed_def)

lemma feasibility_distance_improves_witness:
  "\<exists>fd'. mget (rs_Sources (fst after_1)) \<lparr>src_NodeId = ''d'', src_Prefix = host 7\<rparr> = Some fd' \<and>
     fd_improves \<lparr>fd_Seqno = 0, fd_Metric = 45\<rparr> fd'"
  by (rule feasibility_distance_improves [OF wf_router_1 after_1]) (simp add: router_1_def)

text \<open>C16: Route-selection hysteresis: while the selected route is finite, its next hop still
offers it and the node does not advertise the prefix itself, the table keeps that route with its
current metric unless another candidate is strictly better both in metric and in smoothed
metric.\<close>

theorem selection_hysteresis:
  assumes "wf_router s" and "ComputeRoutes now s = Some (s', cs)"
    and "mget (rs_Routes s) p = Some old" and "sr_Metric old \<noteq> M_INF" and "mget (rs_Advertised s) p = None"
    and "n \<in> set (rs_Neighbours s)" and "cand_at now s p n = Some c" and "sameRoute old (cand_route c)"
  shows "mget (rs_Routes s') p = Some (cand_route c) \<or>
    (\<exists>m \<in> set (rs_Neighbours s). \<exists>b. cand_at now s p m = Some b \<and> mget (rs_Routes s') p = Some (cand_route b) \<and>
       (sameRoute (cand_route b) old \<or>
        sr_Metric (cand_route b) < sr_Metric (cand_route c) \<and> cand_smoothed b < cand_smoothed c))"
proof -
  have "link_up now n" "sr_Nh (cand_route c) = neigh_Id n"
    using cand_at_up [OF assms(7)] cand_at_Nh [OF assms(7)] by simp_all
  then have "linked now (rs_Neighbours s) (sr_Nh old)"
    using assms(6,8) by (auto simp: linked_def list_ex_iff sameRoute_def)
  then have own: "own_route now s p = None"
    using assms(3-5) by (simp add: own_route_def isHeldRoute_def)
  have sel: "sel_from now s p (rs_Neighbours s) None = Some c"
    using sel_from_found [OF wf_routerD(4) [OF assms(1)] assms(6,7,3,8)] .
  obtain b where b: "best_from now s p (rs_Neighbours s) None = Some b"
    using best_from_least [OF assms(6,7)] by blast
  then obtain m where m: "m \<in> set (rs_Neighbours s)" "cand_at now s p m = Some b"
    using best_from_cases by blast
  have "selected_route now s p = Some (select_route b (Some (cand_route c, cand_smoothed c)))"
    by (simp add: selected_route_def b sel own current_route_def)
  moreover have "sr_Metric (select_route b (Some (cand_route c, cand_smoothed c))) \<noteq> M_INF"
    using cand_at_finite [OF assms(7)] cand_at_finite [OF m(2)] by (simp add: select_route_def)
  ultimately have t: "mget (rs_Routes s') p = Some (select_route b (Some (cand_route c, cand_smoothed c)))"
    using computed_route [OF assms(1,2)] assms(3) by (simp add: next_route_def)
  have "sameRoute (cand_route b) old" if "sameRoute (cand_route b) (cand_route c)"
    using that assms(8) by (simp add: sameRoute_def)
  then show ?thesis
    using t m by (auto simp: select_route_def split: if_splits)
qed

lemma selection_hysteresis_witness:
  "\<exists>b :: candidate. cand_smoothed b < 45 \<and> mget (rs_Routes (fst after_1)) (host 7) = Some (cand_route b)"
proof -
  let ?n = "nbr ''b'' 10 True [(host 7, nroute (pub ''d'' (host 7) 0 30))]"
  let ?old = "\<lparr>sr_PubRoute = pub ''d'' (host 7) 0 45, sr_Nh = ''b'', sr_ExpireAt = 100, sr_RetractedBy = []\<rparr>"
  let ?T = "mget (rs_Routes (fst after_1)) (host 7)"
  obtain c where c: "cand_at 0 router_1 (host 7) ?n = Some c"
    "cand_route c = candidate_route ''b'' 45 (nroute (pub ''d'' (host 7) 0 30))" "cand_smoothed c = 45"
  proof
    show "cand_at 0 router_1 (host 7) ?n =
      Some \<lparr>cand_route = candidate_route ''b'' 45 (nroute (pub ''d'' (host 7) 0 30)), cand_smoothed = 45\<rparr>"
      by code_simp
  qed simp_all
  have o: "mget (rs_Routes router_1) (host 7) = Some ?old" "mget (rs_Advertised router_1) (host 7) = None"
    "?n \<in> set (rs_Neighbours router_1)" "sr_Metric ?old \<noteq> M_INF" "sameRoute ?old (cand_route c)"
    by (simp_all add: router_1_def pub_def M_INF_eval sameRoute_def c(2) nroute_def)
  have nh: "sr_Nh r = ''c''" if "?T = Some r" for r
    using that route_7 by auto
  from selection_hysteresis [OF wf_router_1 after_1 o(1,4,2,3) c(1) o(5)] show ?thesis
  proof (elim disjE bexE exE conjE)
    fix m and b :: candidate
    assume "?T = Some (cand_route b)" "cand_smoothed b < cand_smoothed c"
    then show ?thesis
      using c(3) by metis
  qed (auto dest!: nh simp: c(2) sameRoute_def)
qed

end
