(* ===== verification/Route_Table.thy ===== *)
theory Route_Table
  imports Route_Properties
begin

text \<open>
  The route table over time: how a prefix gets its first route, loses it, is held as a blackhole
  and released; that the forwarding table follows; and that the result of a computation does not
  depend on the order of Go's maps.
\<close>

subsection \<open>The forwarding table\<close>

text \<open>
  The forwarding table agrees with the route table: the same next hop, a blackhole exactly for an
  infinite metric, and nothing but blackholes for prefixes that have no route.
\<close>

definition fib_ok :: "(Prefix, SelRoute) gomap \<Rightarrow> (Prefix \<rightharpoonup> NodeId \<times> bool) \<Rightarrow> bool" where
  "fib_ok routes fib \<longleftrightarrow>
     (\<forall>p. case mget routes p of
            Some r \<Rightarrow> fib p = Some (sr_Nh r, sr_Metric r = M_INF)
          | None \<Rightarrow> (\<forall>nh blackhole. fib p = Some (nh, blackhole) \<longrightarrow> blackhole))"

lemma fib_next_ok:
  assumes "case mget (rs_Routes s) p of
      Some r \<Rightarrow> cur = Some (sr_Nh r, sr_Metric r = M_INF)
    | None \<Rightarrow> (\<forall>nh blackhole. cur = Some (nh, blackhole) \<longrightarrow> blackhole)"
  shows "case next_route now s p of
      Some r \<Rightarrow> fib_next now s p cur = Some (sr_Nh r, sr_Metric r = M_INF)
    | None \<Rightarrow> (\<forall>nh blackhole. fib_next now s p cur = Some (nh, blackhole) \<longrightarrow> blackhole)"
proof (cases "mget (rs_Routes s) p")
  case None
  then show ?thesis
    using assms by (cases "selected_route now s p") (simp_all add: next_route_def fib_next_def table_entry_def)
next
  case (Some old)
  then show ?thesis
    using assms by (cases "selected_route now s p") (auto simp: next_route_def fib_next_def table_entry_def Let_def)
qed

lemma ComputeRoutes_fib:
  assumes "wf_router s" and "ComputeRoutes now s = Some (s', cs)" and "fib_ok (rs_Routes s) fib"
  shows "fib_ok (rs_Routes s') (fib_run cs fib)"
proof -
  have c: "\<And>p. mget (rs_Routes s') p = next_route now s p" "\<And>p. fib_run cs fib p = fib_next now s p (fib p)"
    using computedI [OF assms(1,2)] by (simp_all add: computed_def)
  show ?thesis
    unfolding fib_ok_def c
    by (intro allI fib_next_ok) (use assms(3) in \<open>simp add: fib_ok_def\<close>)
qed

subsection \<open>Order of the maps\<close>

text \<open>Two states that answer every lookup alike: the maps may be in any order.\<close>

definition same_lookups :: "RouterState \<Rightarrow> RouterState \<Rightarrow> bool" where
  "same_lookups s1 s2 \<longleftrightarrow>
     rs_Tunables s1 = rs_Tunables s2 \<and> rs_Id s1 = rs_Id s2 \<and>
     mget (rs_SelfSeqno s1) = mget (rs_SelfSeqno s2) \<and> mget (rs_Routes s1) = mget (rs_Routes s2) \<and>
     mget (rs_Sources s1) = mget (rs_Sources s2) \<and> mget (rs_Advertised s1) = mget (rs_Advertised s2) \<and>
     list_all2 (\<lambda>n1 n2. neigh_Id n1 = neigh_Id n2 \<and> neigh_Eps n1 = neigh_Eps n2 \<and>
                  mget (neigh_Routes n1) = mget (neigh_Routes n2)) (rs_Neighbours s1) (rs_Neighbours s2)"

lemma same_lookups_route:
  assumes "same_lookups s1 s2"
  shows "selected_route now s1 p = selected_route now s2 p"
proof -
  let ?R = "\<lambda>n1 n2. neigh_Id n1 = neigh_Id n2 \<and> neigh_Eps n1 = neigh_Eps n2 \<and>
    mget (neigh_Routes n1) = mget (neigh_Routes n2)"
  have R: "list_all2 ?R (rs_Neighbours s1) (rs_Neighbours s2)"
    and e: "rs_Tunables s1 = rs_Tunables s2" "rs_Id s1 = rs_Id s2" "mget (rs_SelfSeqno s1) = mget (rs_SelfSeqno s2)"
      "mget (rs_Routes s1) = mget (rs_Routes s2)" "mget (rs_Sources s1) = mget (rs_Sources s2)"
      "mget (rs_Advertised s1) = mget (rs_Advertised s2)"
    using assms by (simp_all add: same_lookups_def)
  have feas: "checkFeasibility s1 r = checkFeasibility s2 r" for r
    using e by (simp add: checkFeasibility_def)
  have cand: "cand_at now s1 p n1 = cand_at now s2 p n2" if "?R n1 n2" for n1 n2
    using that e feas
    by (simp add: cand_at_def cand_of_def link_cost_of_def link_up_def Let_def split: option.splits)
  have "best_from now s1 p ns1 cur = best_from now s2 p ns2 cur \<and>
    sel_from now s1 p ns1 cur' = sel_from now s2 p ns2 cur'" if "list_all2 ?R ns1 ns2" for ns1 ns2 cur cur'
    using that
  proof (induction arbitrary: cur cur' rule: list_all2_induct)
    case (Cons x xs y ys)
    then show ?case
      using cand [of x y] by (simp add: best_from_def sel_from_def e(4))
  qed (simp add: best_from_def sel_from_def)
  moreover have "linked now (rs_Neighbours s1) x = linked now (rs_Neighbours s2) x" for x
    using R by (induction rule: list_all2_induct) (simp_all add: linked_def link_up_def)
  moreover have "length (filter (link_up now) (rs_Neighbours s1)) = length (filter (link_up now) (rs_Neighbours s2))"
    using R by (induction rule: list_all2_induct) (simp_all add: link_up_def)
  moreover have "advertised_route now s1 p adv = advertised_route now s2 p adv" for adv
    using e by (simp add: advertised_route_def GetSeqno_def)
  ultimately show ?thesis
    using R e by (simp add: selected_route_def own_route_def isHeldRoute_def split: option.splits)
qed

subsection \<open>Properties\<close>

text \<open>C4: The forwarding table follows the route table: if before a computation every routed prefix
forwards to its next hop, or is a blackhole exactly when its metric is infinite, and a prefix without
a route is at most a blackhole, then so it is after the calls the computation makes.\<close>

theorem forwarding_follows_routes:
  assumes "wf_router s" and "ComputeRoutes now s = Some (s', cs)" and "fib_ok (rs_Routes s) fib"
  shows "fib_ok (rs_Routes s') (fib_run cs fib)"
  by (rule ComputeRoutes_fib [OF assms])

lemma forwarding_follows_routes_witness:
  "fib_run (snd after_1) (map_of [(host 7, (''b'', False)), (host 8, (''e'', False))]) (host 7) = Some (''c'', False)"
proof -
  let ?fib = "map_of [(host 7, (''b'', False)), (host 8, (''e'', False))]"
  have "fib_ok (rs_Routes router_1) ?fib"
    by (auto simp: fib_ok_def router_1_def pub_def M_INF_eval split: option.splits if_splits)
  then have "fib_ok (rs_Routes (fst after_1)) (fib_run (snd after_1) ?fib)"
    by (rule forwarding_follows_routes [OF wf_router_1 after_1])
  from this [unfolded fib_ok_def, rule_format, of "host 7"] show ?thesis
    by (simp add: route_7 M_INF_eval)
qed

text \<open>C14: The outcome of a computation does not depend on the order in which Go visits its maps:
on states that answer every lookup alike the computation gives the same routes, the same
feasibility distances and the same forwarding table.\<close>

theorem order_independent:
  assumes "wf_router s1" and "wf_router s2" and "same_lookups s1 s2"
    and "ComputeRoutes now s1 = Some (s1', cs1)" and "ComputeRoutes now s2 = Some (s2', cs2)"
  shows "mget (rs_Routes s1') = mget (rs_Routes s2') \<and> mget (rs_Sources s1') = mget (rs_Sources s2') \<and>
    fib_run cs1 fib = fib_run cs2 fib"
proof -
  have c: "computed now s1 s1' cs1" "computed now s2 s2' cs2"
    using computedI assms(1,2,4,5) by blast+
  note sel = same_lookups_route [OF assms(3), of now]
  have e: "mget (rs_Routes s1) = mget (rs_Routes s2)" "mget (rs_Sources s1) = mget (rs_Sources s2)"
    "rs_Tunables s1 = rs_Tunables s2"
    using assms(3) by (simp_all add: same_lookups_def)
  have mc: "major_change s1 = major_change s2"
    using e(3) by (rule major_change_cong)
  have "next_route now s1 p = next_route now s2 p" "source_next now s1 src = source_next now s2 src"
    "fib_next now s1 p cur = fib_next now s2 p cur" for p src cur
    unfolding next_route_def source_next_def fib_next_def sel e mc by (rule refl)+
  then show ?thesis
    using c by (simp add: computed_def fun_eq_iff)
qed

lemma order_independent_witness:
  "mget (rs_Routes (fst (the (ComputeRoutes 0 (router_1\<lparr>rs_Routes := rev (rs_Routes router_1)\<rparr>))))) (host 7) =
   mget (rs_Routes (fst after_1)) (host 7)"
proof -
  let ?s = "router_1\<lparr>rs_Routes := rev (rs_Routes router_1)\<rparr>"
  have wf: "wf_router ?s"
    by (auto simp: wf_router_def wf_neigh_def router_1_def nbr_def nroute_def pub_def split: if_splits)
  have "same_lookups ?s router_1"
    by (auto simp: same_lookups_def router_1_def fun_eq_iff)
  moreover obtain s' cs where "ComputeRoutes 0 ?s = Some (s', cs)"
    using ComputeRoutes_computed [OF wf] by blast
  ultimately show ?thesis
    using order_independent [OF wf wf_router_1 _ _ after_1] by simp
qed

text \<open>C15: A prefix that had neither a route nor an advertisement gets the candidate with the least
metric over all neighbours, and no route when there is no candidate.\<close>

theorem first_route_is_best:
  assumes "wf_router s" and "ComputeRoutes now s = Some (s', cs)"
    and "mget (rs_Routes s) p = None" and "mget (rs_Advertised s) p = None"
  shows "case mget (rs_Routes s') p of
      None \<Rightarrow> \<forall>n \<in> set (rs_Neighbours s). cand_at now s p n = None
    | Some r \<Rightarrow> (\<exists>n \<in> set (rs_Neighbours s). \<exists>c. cand_at now s p n = Some c \<and> r = cand_route c) \<and>
        (\<forall>n \<in> set (rs_Neighbours s). \<forall>c. cand_at now s p n = Some c \<longrightarrow> sr_Metric r \<le> sr_Metric (cand_route c))"
proof -
  have own: "own_route now s p = None"
    using assms(3,4) by (simp add: own_route_def)
  have sel: "sel_from now s p (rs_Neighbours s) None = None"
    using sel_from_cases [of now s p "rs_Neighbours s" None] assms(3) by fastforce
  have t: "mget (rs_Routes s') p = map_option cand_route (best_from now s p (rs_Neighbours s) None)"
    using computed_route [OF assms(1,2)] assms(3) own sel
    by (simp add: next_route_def selected_route_def current_route_def select_route_def split: option.splits)
  show ?thesis
  proof (cases "best_from now s p (rs_Neighbours s) None")
    case None
    then show ?thesis
      using t best_from_least [of _ "rs_Neighbours s" now s p _ None] by fastforce
  next
    case (Some b)
    then show ?thesis
      using t best_from_cases [OF Some] best_from_least [of _ "rs_Neighbours s" now s p _ None] by fastforce
  qed
qed

lemma first_route_is_best_witness:
  "\<exists>n \<in> set (rs_Neighbours router_1). \<exists>c. cand_at 0 router_1 (host 6) n = Some c \<and> sr_Metric (cand_route c) = 28"
proof -
  have new: "mget (rs_Routes router_1) (host 6) = None" "mget (rs_Advertised router_1) (host 6) = None"
    by (simp_all add: router_1_def)
  obtain n c where "n \<in> set (rs_Neighbours router_1)" "cand_at 0 router_1 (host 6) n = Some c"
    "candidate_route ''c'' 28 (nroute (pub ''f'' (host 6) 0 3)) = cand_route c"
    using first_route_is_best [OF wf_router_1 after_1 new] unfolding route_6 option.case by blast
  moreover have "sr_Metric (cand_route c) = 28"
    using candidate_route_simps(3) [of "''c''" 28] unfolding calculation(3) [symmetric] .
  ultimately show ?thesis by blast
qed

text \<open>C17: A route is never lost silently: when a prefix had a finite route and has none afterwards, a
retraction of the old route was broadcast, the table keeps the old route with infinite metric and no
acknowledgements, and the prefix is a blackhole in the forwarding table.\<close>

theorem lost_route_retracted:
  assumes "wf_router s" and "ComputeRoutes now s = Some (s', cs)"
    and "mget (rs_Routes s) p = Some old" and "sr_Metric old \<noteq> M_INF"
    and "\<forall>r. mget (rs_Routes s') p = Some r \<longrightarrow> sr_Metric r = M_INF"
  shows "mget (rs_Routes s') p = Some (blackholed old) \<and>
    BroadcastSendRouteUpdate (set_pr_Metric M_INF (sr_PubRoute old)) \<in> set cs \<and>
    fib_run cs fib p = Some (sr_Nh old, True)"
proof -
  have c: "mget (rs_Routes s') p = next_route now s p" "fib_run cs fib p = fib_next now s p (fib p)"
    using computedI [OF assms(1,2)] by (simp_all add: computed_def)
  have gone: "case selected_route now s p of None \<Rightarrow> True | Some r \<Rightarrow> sr_Metric r = M_INF"
  proof (cases "selected_route now s p")
    case (Some r)
    have "sr_Metric r = M_INF"
    proof (rule ccontr)
      assume "sr_Metric r \<noteq> M_INF"
      then have "next_route now s p = Some r"
        using Some assms(3) by (simp add: next_route_def)
      then show False
        using c(1) assms(5) \<open>sr_Metric r \<noteq> M_INF\<close> by simp
    qed
    then show ?thesis
      using Some by simp
  qed simp
  then have "next_route now s p = Some (blackholed old)" "fib_next now s p (fib p) = Some (sr_Nh old, True)"
    using assms(3,4) by (simp_all add: next_route_def fib_next_def Let_def)
  then show ?thesis
    using c ComputeRoutes_emits(2) [OF assms(1,2,3,4) gone] by (simp add: set_sr_Metric_def)
qed

lemma lost_route_retracted_witness:
  "BroadcastSendRouteUpdate (pub ''e'' (host 8) 0 M_INF) \<in> set (snd after_1)"
proof -
  let ?old = "\<lparr>sr_PubRoute = pub ''e'' (host 8) 0 20, sr_Nh = ''e'', sr_ExpireAt = 100, sr_RetractedBy = []\<rparr>"
  have "mget (rs_Routes router_1) (host 8) = Some ?old" "sr_Metric ?old \<noteq> M_INF"
    by (simp_all add: router_1_def pub_def M_INF_eval)
  from lost_route_retracted [OF wf_router_1 after_1 this]
  show ?thesis
    using route_8 by (simp add: set_pr_Metric_def pub_def)
qed


text \<open>The router after its neighbour \<open>e\<close> died: the prefix \<open>host 8\<close> is held.\<close>

definition held_8 :: SelRoute where
  "held_8 = \<lparr>sr_PubRoute = pub ''e'' (host 8) 0 M_INF, sr_Nh = ''e'', sr_ExpireAt = 100, sr_RetractedBy = []\<rparr>"

definition router_2 :: RouterState where
  "router_2 = router_1\<lparr>rs_Routes := [(host 8, held_8)], rs_Advertised := []\<rparr>"

lemma wf_router_2: "wf_router router_2"
  using wf_router_1 by (auto simp: wf_router_def router_2_def held_8_def pub_def split: if_splits)


end
