(* ===== verification/Router_Handlers.thy ===== *)
theory Router_Handlers
  imports Route_Table
begin

text \<open>
  The handlers around route selection: route updates, retraction acknowledgements, sequence-number
  requests, starvation and garbage collection. Each handler succeeds on a well-formed state, keeps
  it well-formed, and is characterised by what it does to the tables and which calls it makes.
\<close>

subsection \<open>Reading links\<close>

text \<open>Two states that differ at most in the bookkeeping of link readings.\<close>

definition same_router :: "RouterState \<Rightarrow> RouterState \<Rightarrow> bool" where
  "same_router s s' \<longleftrightarrow>
     s' = s\<lparr>rs_Neighbours := rs_Neighbours s'\<rparr> \<and> list_all2 same_neigh (rs_Neighbours s) (rs_Neighbours s')"

lemma same_router_frame:
  assumes "same_router s s'"
  shows "rs_Routes s' = rs_Routes s" "rs_Sources s' = rs_Sources s" "rs_Advertised s' = rs_Advertised s"
    "rs_Tunables s' = rs_Tunables s" "rs_Id s' = rs_Id s" "rs_SelfSeqno s' = rs_SelfSeqno s"
    "list_all2 same_neigh (rs_Neighbours s) (rs_Neighbours s')"
proof -
  from assms have eq: "s' = s\<lparr>rs_Neighbours := rs_Neighbours s'\<rparr>"
    and "list_all2 same_neigh (rs_Neighbours s) (rs_Neighbours s')"
    by (simp_all add: same_router_def)
  then show "list_all2 same_neigh (rs_Neighbours s) (rs_Neighbours s')" by simp
  show "rs_Routes s' = rs_Routes s" "rs_Sources s' = rs_Sources s" "rs_Advertised s' = rs_Advertised s"
    "rs_Tunables s' = rs_Tunables s" "rs_Id s' = rs_Id s" "rs_SelfSeqno s' = rs_SelfSeqno s"
    by (subst eq, simp)+
qed

lemma same_router_refl: "wf_router s \<Longrightarrow> same_router s s"
  using wf_routerD(5) [of s]
  by (simp add: same_router_def list_all2_same list_all_iff same_neigh_refl)

lemma same_neigh_trans: "same_neigh a b \<Longrightarrow> same_neigh b c \<Longrightarrow> same_neigh a c"
  by (auto simp: same_neigh_def intro: list_all2_trans [OF same_link_trans])

lemma same_router_trans: "same_router a b \<Longrightarrow> same_router b c \<Longrightarrow> same_router a c"
proof -
  assume ab: "same_router a b" and bc: "same_router b c"
  have "list_all2 same_neigh (rs_Neighbours a) (rs_Neighbours c)"
    using list_all2_trans [OF same_neigh_trans same_router_frame(7) [OF ab] same_router_frame(7) [OF bc]] .
  moreover have "c = a\<lparr>rs_Neighbours := rs_Neighbours c\<rparr>"
    using same_router_frame [OF ab] same_router_frame [OF bc] by (cases a; cases c) simp
  ultimately show ?thesis by (simp add: same_router_def)
qed

lemma same_neighs_ids:
  "list_all2 same_neigh ns ns' \<Longrightarrow> map neigh_Id ns' = map neigh_Id ns"
  by (induction rule: list_all2_induct) (auto simp: same_neigh_def)

lemma same_router_wf:
  assumes "wf_router s" and "same_router s s'"
  shows "wf_router s'"
proof -
  note f = same_router_frame [OF assms(2)]
  have "list_all wf_neigh (rs_Neighbours s')"
    using f(7) wf_routerD(5) [OF assms(1)] same_neigh_wf
    by (fastforce simp: list_all2_conv_all_nth list_all_length)
  then show ?thesis
    using wf_routerD [OF assms(1)] same_neighs_ids [OF f(7)] by (simp add: wf_router_def f)
qed

lemma same_router_at:
  assumes "same_router s s'" and "i < length (rs_Neighbours s)"
  shows "same_neigh (rs_Neighbours s ! i) (rs_Neighbours s' ! i)" "i < length (rs_Neighbours s')"
  using same_router_frame(7) [OF assms(1)] assms(2) by (auto simp: list_all2_conv_all_nth)

lemma index_of_map: "index_of (\<lambda>x. P (f x)) xs = index_of P (map f xs)"
  by (induction xs) auto

lemma GetNeighbour_same: "same_router s s' \<Longrightarrow> GetNeighbour s' node = GetNeighbour s node"
  using same_neighs_ids [OF same_router_frame(7)]
  by (simp add: GetNeighbour_def index_of_map [of "\<lambda>i. i = node" neigh_Id])

lemma GetNeighbour_Some:
  assumes "GetNeighbour s node = Some i"
  shows "i < length (rs_Neighbours s)" "neigh_Id (rs_Neighbours s ! i) = node"
  using index_of_Some [OF assms [unfolded GetNeighbour_def]] by auto

lemma GetNeighbour_known: "(\<exists>i. GetNeighbour s node = Some i) \<longleftrightarrow> node \<in> neigh_Id ` set (rs_Neighbours s)"
  using index_of_None [of "\<lambda>n. neigh_Id n = node" "rs_Neighbours s"]
  by (cases "GetNeighbour s node") (auto simp: GetNeighbour_def)

lemma GetNeighbour_nth:
  assumes "wf_router s" and "i < length (rs_Neighbours s)"
  shows "GetNeighbour s (neigh_Id (rs_Neighbours s ! i)) = Some i"
proof -
  let ?x = "neigh_Id (rs_Neighbours s ! i)"
  obtain j where j: "GetNeighbour s ?x = Some j"
    using GetNeighbour_known [of s ?x] assms(2) by auto
  then have "map neigh_Id (rs_Neighbours s) ! j = map neigh_Id (rs_Neighbours s) ! i" "j < length (rs_Neighbours s)"
    using GetNeighbour_Some [OF j] assms(2) by simp_all
  then have "j = i"
    using wf_routerD(4) [OF assms(1)] assms(2) nth_eq_iff_index_eq [of "map neigh_Id (rs_Neighbours s)" j i] by simp
  with j show ?thesis by simp
qed

subsection \<open>Updating one neighbour\<close>

lemma neigh_at_wf:
  assumes "wf_router s" and "i < length (rs_Neighbours s)" and "wf_neigh (f (rs_Neighbours s ! i))"
    and "neigh_Id (f (rs_Neighbours s ! i)) = neigh_Id (rs_Neighbours s ! i)"
  shows "wf_router (neigh_at i f s)"
proof -
  have "map neigh_Id ((rs_Neighbours s)[i := f (rs_Neighbours s ! i)]) = map neigh_Id (rs_Neighbours s)"
    using assms(2,4) by (auto simp: map_update list_update_same_conv)
  then show ?thesis
    using wf_routerD [OF assms(1)] assms(3)
    by (auto simp: wf_router_def neigh_at_def list_all_iff dest!: subsetD [OF set_update_subset_insert])
qed

lemma neigh_at_frame [simp]:
  "rs_Routes (neigh_at i f s) = rs_Routes s" "rs_Sources (neigh_at i f s) = rs_Sources s"
  "rs_Advertised (neigh_at i f s) = rs_Advertised s" "rs_Tunables (neigh_at i f s) = rs_Tunables s"
  "rs_Id (neigh_at i f s) = rs_Id s" "rs_SelfSeqno (neigh_at i f s) = rs_SelfSeqno s"
  "length (rs_Neighbours (neigh_at i f s)) = length (rs_Neighbours s)"
  by (simp_all add: neigh_at_def)

lemma neigh_at_nth:
  "j < length (rs_Neighbours s) \<Longrightarrow>
   rs_Neighbours (neigh_at i f s) ! j = (if j = i then f (rs_Neighbours s ! j) else rs_Neighbours s ! j)"
  by (simp add: neigh_at_def nth_list_update)

lemma neigh_at_same:
  assumes "wf_router s" and "i < length (rs_Neighbours s)" and "same_links (neigh_Eps (rs_Neighbours s ! i)) eps"
  shows "same_router s (neigh_at i (\<lambda>n. n\<lparr>neigh_Eps := eps\<rparr>) s)"
proof -
  have "same_neigh n n" if "n \<in> set (rs_Neighbours s)" for n
    using wf_routerD(5) [OF assms(1)] that by (simp add: list_all_iff same_neigh_refl)
  then show ?thesis
    using assms(2,3)
    by (auto simp: same_router_def neigh_at_def list_all2_conv_all_nth nth_list_update same_neigh_def)
qed

lemma wf_router_nth: "wf_router s \<Longrightarrow> i < length (rs_Neighbours s) \<Longrightarrow> wf_neigh (rs_Neighbours s ! i)"
  using wf_routerD(5) by (simp add: list_all_length)

text \<open>Asking for the best link of one neighbour.\<close>

lemma best_link:
  assumes "wf_router s" and "i < length (rs_Neighbours s)"
  obtains best eps where "BestEndpoint now (neigh_Eps (rs_Neighbours s ! i)) = Some (best, eps)"
    "same_router s (neigh_at i (\<lambda>n. n\<lparr>neigh_Eps := eps\<rparr>) s)" "(best \<noteq> None) = link_up now (rs_Neighbours s ! i)"
proof -
  have "list_all wf_endpoint (neigh_Eps (rs_Neighbours s ! i))"
    using wf_router_nth [OF assms] by (simp add: wf_neigh_def)
  then obtain best eps where "BestEndpoint now (neigh_Eps (rs_Neighbours s ! i)) = Some (best, eps)"
    "same_links (neigh_Eps (rs_Neighbours s ! i)) eps" "(best \<noteq> None) = link_up now (rs_Neighbours s ! i)"
    using BestEndpoint_up [of "neigh_Eps (rs_Neighbours s ! i)" now] unfolding link_up_def by blast
  then show ?thesis
    using that neigh_at_same [OF assms] by blast
qed

subsection \<open>Route updates\<close>

text \<open>The route in use for the prefix of an update is the updated one.\<close>

definition selected_via :: "RouterState \<Rightarrow> NodeId \<Rightarrow> PubRoute \<Rightarrow> bool" where
  "selected_via s node adv \<longleftrightarrow>
     (\<exists>sel. mget (rs_Routes s) (pr_Prefix adv) = Some sel \<and> sr_Nh sel = node \<and> sr_Source sel = pr_Source adv)"

text \<open>
  The entry an update leaves for its neighbour and prefix, given the old one: unfeasible updates
  of the selected route are ignored, as are unfeasible or infinite updates of an unknown route.
\<close>

definition acquired :: "instant \<Rightarrow> RouterState \<Rightarrow> NodeId \<Rightarrow> PubRoute \<Rightarrow> NeighRoute option \<Rightarrow> NeighRoute option" where
  "acquired now s node adv old =
     (case old of
        None \<Rightarrow>
          if checkFeasibility s adv \<and> pr_Metric adv \<noteq> M_INF
          then Some \<lparr>nr_PubRoute = adv, nr_ExpireAt = now + RouteExpiryTime (rs_Tunables s), nr_SmoothedMetric = 0\<rparr>
          else None
      | Some nr \<Rightarrow>
          if \<not> checkFeasibility s adv \<and>
             selected_via s node adv
          then Some nr
          else Some (nr\<lparr>nr_PubRoute := adv,
                 nr_ExpireAt := if pr_Metric adv = M_INF then nr_ExpireAt nr
                                else now + RouteExpiryTime (rs_Tunables s)\<rparr>))"

text \<open>
  What the handler sends: an acknowledgement of a retraction, and a request for a newer sequence
  number when an unfeasible update is of the selected route or would be better than it.
\<close>

definition update_calls :: "instant \<Rightarrow> RouterState \<Rightarrow> Neighbour \<Rightarrow> PubRoute \<Rightarrow> calls" where
  "update_calls now s n adv =
     (if pr_Metric adv = M_INF then [SendAckRetract (neigh_Id n) (pr_Prefix adv)] else []) @
     (if mget (neigh_Routes n) (pr_Prefix adv) \<noteq> None \<and> \<not> checkFeasibility s adv \<and>
         (selected_via s (neigh_Id n) adv \<or>
          (\<exists>sel. mget (rs_Routes s) (pr_Prefix adv) = Some sel \<and>
             AddMetric (pr_Metric adv) (link_cost_of now (rs_Tunables s) n) < sr_Metric sel))
      then [RequestSeqno (neigh_Id n) (pr_Source adv) (fd_Seqno (source_FD s (pr_Source adv)) + 1)
              (SeqnoRequestHopCount (rs_Tunables s))]
      else [])"

lemma refresh_route_at:
  "mget (neigh_Routes n) (pr_Prefix adv) = Some nr \<Longrightarrow>
   mget (neigh_Routes (refresh_route now t adv n)) p =
     (if p = pr_Prefix adv
      then Some (nr\<lparr>nr_PubRoute := adv,
             nr_ExpireAt := if pr_Metric adv = M_INF then nr_ExpireAt nr else now + RouteExpiryTime t\<rparr>)
      else mget (neigh_Routes n) p)"
  by (simp add: refresh_route_def Let_def)

lemma refresh_route_wf:
  "wf_neigh n \<Longrightarrow> wf_neigh (refresh_route now t adv n) \<and> neigh_Id (refresh_route now t adv n) = neigh_Id n \<and>
   neigh_Eps (refresh_route now t adv n) = neigh_Eps n"
  by (auto simp: wf_neigh_def refresh_route_def Let_def split: option.splits if_splits)

lemma dummy_metric_ok:
  assumes "wf_router s" and "i < length (rs_Neighbours s)"
  obtains s' where "same_router s s'"
    "dummy_metric now i adv s =
       Some (AddMetric (pr_Metric adv) (link_cost_of now (rs_Tunables s) (rs_Neighbours s ! i)), s')"
proof -
  obtain best eps where b: "BestEndpoint now (neigh_Eps (rs_Neighbours s ! i)) = Some (best, eps)"
    "same_router s (neigh_at i (\<lambda>n. n\<lparr>neigh_Eps := eps\<rparr>) s)" "(best \<noteq> None) = link_up now (rs_Neighbours s ! i)"
    by (rule best_link [OF assms])
  let ?s = "neigh_at i (\<lambda>n. n\<lparr>neigh_Eps := eps\<rparr>) s"
  have wf: "wf_router ?s" and i: "i < length (rs_Neighbours ?s)"
    using same_router_wf [OF assms(1) b(2)] assms(2) by simp_all
  show ?thesis
  proof (cases best)
    case None
    then show ?thesis
      using that b by (simp add: dummy_metric_def link_cost_of_def)
  next
    case (Some x)
    obtain c eps' where l: "LinkCost now (neigh_Eps (rs_Neighbours ?s ! i)) = Some (c, eps')"
      "same_links (neigh_Eps (rs_Neighbours ?s ! i)) eps'"
      using LinkCost_spec wf_router_nth [OF wf i] unfolding wf_neigh_def by metis
    have "link_cost_of now (rs_Tunables s) (rs_Neighbours s ! i) =
        AddMetric c (AddMetric (HopCost (rs_Tunables s)) (TransitCost (rs_Tunables s)))"
      using same_neigh_cost [OF same_router_at(1) [OF b(2) assms(2)], of now "rs_Tunables s"]
        same_neigh_up [OF same_router_at(1) [OF b(2) assms(2)], of now] b(3) Some l(1)
      by (simp add: link_cost_of_def metric.add_assoc)
    then show ?thesis
      using that Some b(1) l(1) same_router_trans [OF b(2) neigh_at_same [OF wf i l(2)]]
      by (simp add: dummy_metric_def Let_def)
  qed
qed

text \<open>The routes of every neighbour after one entry of one neighbour was changed.\<close>

definition routes_changed :: "RouterState \<Rightarrow> nat \<Rightarrow> Prefix \<Rightarrow> NeighRoute option \<Rightarrow> RouterState \<Rightarrow> bool" where
  "routes_changed s i p entry s' \<longleftrightarrow>
     length (rs_Neighbours s') = length (rs_Neighbours s) \<and>
     (\<forall>j < length (rs_Neighbours s). \<forall>q.
        mget (neigh_Routes (rs_Neighbours s' ! j)) q =
          (if j = i \<and> q = p then entry else mget (neigh_Routes (rs_Neighbours s ! j)) q))"

lemma routes_changed_same:
  assumes "same_router s s'" and "mget (neigh_Routes (rs_Neighbours s ! i)) p = entry"
  shows "routes_changed s i p entry s'"
  using same_router_at(1) [OF assms(1)] list_all2_lengthD [OF same_router_frame(7) [OF assms(1)]] assms(2)
  by (auto simp: routes_changed_def same_neigh_def)

lemma routes_changed_at:
  assumes "same_router s s'" and "i < length (rs_Neighbours s)"
    and "\<And>q. mget (neigh_Routes (f (rs_Neighbours s' ! i))) q =
       (if q = p then entry else mget (neigh_Routes (rs_Neighbours s' ! i)) q)"
  shows "routes_changed s i p entry (neigh_at i f s')"
  using same_router_at [OF assms(1)] list_all2_lengthD [OF same_router_frame(7) [OF assms(1)]] assms(3)
  by (auto simp: routes_changed_def same_neigh_def neigh_at_nth)

text \<open>The states a handler may leave: only the neighbours change.\<close>

definition neighs_only :: "RouterState \<Rightarrow> RouterState \<Rightarrow> bool" where
  "neighs_only s s' \<longleftrightarrow> s' = s\<lparr>rs_Neighbours := rs_Neighbours s'\<rparr>"

lemma neighs_only_same: "same_router s s' \<Longrightarrow> neighs_only s s'"
  by (simp add: same_router_def neighs_only_def)

lemma neighs_only_at: "neighs_only s s' \<Longrightarrow> neighs_only s (neigh_at i f s')"
  by (cases s; cases s') (simp add: neighs_only_def neigh_at_def)

definition same_host :: "Neighbour \<Rightarrow> Neighbour \<Rightarrow> bool" where
  "same_host n n' \<longleftrightarrow> neigh_Id n' = neigh_Id n \<and> same_links (neigh_Eps n) (neigh_Eps n')"

lemma same_hosts_at:
  assumes "same_router s s'" and "i < length (rs_Neighbours s)"
    and "neigh_Id (f (rs_Neighbours s' ! i)) = neigh_Id (rs_Neighbours s' ! i)"
    and "neigh_Eps (f (rs_Neighbours s' ! i)) = neigh_Eps (rs_Neighbours s' ! i)"
  shows "list_all2 same_host (rs_Neighbours s) (rs_Neighbours (neigh_at i f s'))"
  using same_router_frame(7) [OF assms(1)] assms(2-4)
  by (auto simp: list_all2_conv_all_nth neigh_at_nth same_neigh_def same_host_def)

definition updated :: "instant \<Rightarrow> RouterState \<Rightarrow> nat \<Rightarrow> PubRoute \<Rightarrow> RouterState \<Rightarrow> bool" where
  "updated now s i adv s' \<longleftrightarrow>
     wf_router s' \<and> neighs_only s s' \<and> list_all2 same_host (rs_Neighbours s) (rs_Neighbours s') \<and>
     routes_changed s i (pr_Prefix adv)
       (acquired now s (neigh_Id (rs_Neighbours s ! i)) adv (mget (neigh_Routes (rs_Neighbours s ! i)) (pr_Prefix adv))) s'"

lemma updatedI:
  assumes "wf_router s" and "same_router s s'" and "i < length (rs_Neighbours s)"
    and "wf_neigh (f (rs_Neighbours s' ! i))" "neigh_Id (f (rs_Neighbours s' ! i)) = neigh_Id (rs_Neighbours s' ! i)"
    and "neigh_Eps (f (rs_Neighbours s' ! i)) = neigh_Eps (rs_Neighbours s' ! i)"
    and "\<And>q. mget (neigh_Routes (f (rs_Neighbours s' ! i))) q =
       (if q = pr_Prefix adv
        then acquired now s (neigh_Id (rs_Neighbours s ! i)) adv (mget (neigh_Routes (rs_Neighbours s ! i)) (pr_Prefix adv))
        else mget (neigh_Routes (rs_Neighbours s' ! i)) q)"
  shows "updated now s i adv (neigh_at i f s')"
  unfolding updated_def
  using neigh_at_wf [OF same_router_wf [OF assms(1,2)], of i f] same_router_at(2) [OF assms(2,3)] assms(4,5)
    neighs_only_at [OF neighs_only_same [OF assms(2)]] routes_changed_at [OF assms(2,3), of f, OF assms(7)]
    same_hosts_at [OF assms(2,3), of f, OF assms(5,6)]
  by simp

lemma updated_same:
  assumes "wf_router s" and "same_router s s'"
    and "acquired now s (neigh_Id (rs_Neighbours s ! i)) adv (mget (neigh_Routes (rs_Neighbours s ! i)) (pr_Prefix adv)) =
      mget (neigh_Routes (rs_Neighbours s ! i)) (pr_Prefix adv)"
  shows "updated now s i adv s'"
  unfolding updated_def
  using same_router_wf [OF assms(1,2)] neighs_only_same [OF assms(2)] routes_changed_same [OF assms(2)] assms(3)
    list_all2_mono [OF same_router_frame(7) [OF assms(2)], of same_host]
  by (simp add: same_neigh_def same_host_def)

lemma updated_refresh:
  assumes "wf_router s" and "same_router s s'" and "i < length (rs_Neighbours s)"
    and "mget (neigh_Routes (rs_Neighbours s ! i)) (pr_Prefix adv) = Some nr"
    and "checkFeasibility s adv \<or> \<not> selected_via s (neigh_Id (rs_Neighbours s ! i)) adv"
  shows "updated now s i adv (neigh_at i (refresh_route now (rs_Tunables s) adv) s')"
proof (rule updatedI [OF assms(1-3)])
  have same: "neigh_Routes (rs_Neighbours s' ! i) = neigh_Routes (rs_Neighbours s ! i)"
    using same_router_at [OF assms(2,3)] by (simp add: same_neigh_def)
  have "wf_neigh (rs_Neighbours s' ! i)"
    using wf_router_nth [OF same_router_wf [OF assms(1,2)]] same_router_at [OF assms(2,3)] by simp
  then show "wf_neigh (refresh_route now (rs_Tunables s) adv (rs_Neighbours s' ! i))"
    "neigh_Id (refresh_route now (rs_Tunables s) adv (rs_Neighbours s' ! i)) = neigh_Id (rs_Neighbours s' ! i)"
    "neigh_Eps (refresh_route now (rs_Tunables s) adv (rs_Neighbours s' ! i)) = neigh_Eps (rs_Neighbours s' ! i)"
    using refresh_route_wf by blast+
  fix q
  show "mget (neigh_Routes (refresh_route now (rs_Tunables s) adv (rs_Neighbours s' ! i))) q =
     (if q = pr_Prefix adv
      then acquired now s (neigh_Id (rs_Neighbours s ! i)) adv (mget (neigh_Routes (rs_Neighbours s ! i)) (pr_Prefix adv))
      else mget (neigh_Routes (rs_Neighbours s' ! i)) q)"
    using refresh_route_at [of "rs_Neighbours s' ! i" adv nr now "rs_Tunables s" q] assms(4,5)
    by (auto simp: same acquired_def)
qed

lemma HandleNeighbourUpdate_spec:
  assumes wf: "wf_router s" and "GetNeighbour s node = Some i"
  shows "\<exists>s'. HandleNeighbourUpdate now node adv s = Some (s', update_calls now s (rs_Neighbours s ! i) adv) \<and>
    updated now s i adv s'"
proof -
  let ?n = "rs_Neighbours s ! i"
  note i = GetNeighbour_Some [OF assms(2)]
  note same = same_router_refl [OF wf]
  note defs = HandleNeighbourUpdate_def assms(2) update_calls_def i(2)
  show ?thesis
  proof (cases "mget (neigh_Routes ?n) (pr_Prefix adv)")
    case None
    show ?thesis
    proof (cases "checkFeasibility s adv \<and> pr_Metric adv \<noteq> M_INF")
      case True
      show ?thesis
        using True None wf_router_nth [OF wf i(1)]
        by (auto simp: defs acquired_def wf_neigh_def split: if_splits intro!: updatedI [OF wf same i(1)])
    next
      case False
      then show ?thesis
        using None by (auto simp: defs acquired_def intro!: updated_same [OF wf same])
    qed
  next
    case (Some nr)
    show ?thesis
    proof (cases "checkFeasibility s adv")
      case True
      then show ?thesis
        using Some updated_refresh [OF wf same i(1) Some] by (auto simp: defs Let_def)
    next
      case False
      obtain s' where d: "same_router s s'" "dummy_metric now i adv s =
          Some (AddMetric (pr_Metric adv) (link_cost_of now (rs_Tunables s) ?n), s')"
        by (rule dummy_metric_ok [OF wf i(1)])
      have "updated now s i adv (if selected_via s node adv then s'
          else neigh_at i (refresh_route now (rs_Tunables s) adv) s')"
        using updated_same [OF wf d(1)] updated_refresh [OF wf d(1) i(1) Some] False Some
        by (simp add: i(2) acquired_def)
      then show ?thesis
        using False Some d(2) same_router_frame(4) [OF d(1)]
        by (cases "mget (rs_Routes s) (pr_Prefix adv)")
          (auto simp: defs Let_def selected_via_def IsStrictlyBetter_def)
    qed
  qed
qed

subsection \<open>Sequence-number requests\<close>

lemma linked_at:
  assumes "wf_router s"
  shows "linked now (rs_Neighbours s) node =
    (case GetNeighbour s node of None \<Rightarrow> False | Some i \<Rightarrow> link_up now (rs_Neighbours s ! i))"
proof (cases "GetNeighbour s node")
  case None
  then show ?thesis
    using GetNeighbour_known [of s node] by (auto simp: linked_def list_ex_iff)
next
  case (Some i)
  have "n = rs_Neighbours s ! i" if "n \<in> set (rs_Neighbours s)" "neigh_Id n = node" for n
    using GetNeighbour_nth [OF assms] that Some by (auto simp: in_set_conv_nth)
  then show ?thesis
    using Some GetNeighbour_Some [OF Some] by (auto simp: linked_def list_ex_iff)
qed

lemma linked_same:
  assumes "wf_router s" and "same_router s s'"
  shows "linked now (rs_Neighbours s') node = linked now (rs_Neighbours s) node"
  using same_neigh_up [OF same_router_at(1) [OF assms(2) GetNeighbour_Some(1)]]
  by (auto simp: linked_at [OF assms(1)] linked_at [OF same_router_wf [OF assms]] GetNeighbour_same [OF assms(2)]
      split: option.splits)

lemma live_link_spec:
  assumes "wf_router s"
  obtains s' where "live_link now node s = Some (linked now (rs_Neighbours s) node, s')" "same_router s s'"
proof (cases "GetNeighbour s node")
  case None
  then show ?thesis
    using that [OF _ same_router_refl [OF assms]] by (simp add: live_link_def linked_at [OF assms])
next
  case (Some i)
  obtain best eps where b: "BestEndpoint now (neigh_Eps (rs_Neighbours s ! i)) = Some (best, eps)"
    "same_router s (neigh_at i (\<lambda>n. n\<lparr>neigh_Eps := eps\<rparr>) s)" "(best \<noteq> None) = link_up now (rs_Neighbours s ! i)"
    by (rule best_link [OF assms GetNeighbour_Some(1) [OF Some]])
  then have "live_link now node s =
      Some (linked now (rs_Neighbours s) node, neigh_at i (\<lambda>n. n\<lparr>neigh_Eps := eps\<rparr>) s)"
    using Some by (simp add: live_link_def linked_at [OF assms])
  with b(2) show ?thesis
    by (rule that [rotated])
qed

text \<open>The outcome of a search for a neighbour over its routes.\<close>

definition scan_result ::
  "instant \<Rightarrow> RouterState \<Rightarrow> (NodeId \<Rightarrow> NeighRoute \<Rightarrow> bool) \<Rightarrow> (NodeId \<times> NeighRoute) set \<Rightarrow> NodeId option \<Rightarrow> bool" where
  "scan_result now s P rs r =
     (case r of
        None \<Rightarrow> \<forall>(x, route) \<in> rs. \<not> (linked now (rs_Neighbours s) x \<and> P x route)
      | Some x \<Rightarrow> linked now (rs_Neighbours s) x \<and> (\<exists>route. (x, route) \<in> rs \<and> P x route))"

lemma neigh_scan_spec:
  assumes "wf_router s"
  shows "\<exists>r s'. neigh_scan now P rs s = Some (r, s') \<and> same_router s s' \<and> scan_result now s P (set rs) r"
  using assms
proof (induction rs arbitrary: s)
  case Nil
  then show ?case
    by (simp add: same_router_refl scan_result_def)
next
  case (Cons a rs)
  obtain x route where a: "a = (x, route)"
    by (cases a)
  obtain s1 where l: "live_link now x s = Some (linked now (rs_Neighbours s) x, s1)" "same_router s s1"
    by (rule live_link_spec [OF Cons.prems])
  show ?case
  proof (cases "linked now (rs_Neighbours s) x \<and> P x route")
    case True
    then show ?thesis
      using l a by (auto simp: scan_result_def)
  next
    case False
    obtain r s2 where r: "neigh_scan now P rs s1 = Some (r, s2)" "same_router s1 s2" "scan_result now s1 P (set rs) r"
      using Cons.IH [OF same_router_wf [OF Cons.prems l(2)]] by blast
    have "scan_result now s P (set (a # rs)) r"
      using r(3) False a linked_same [OF Cons.prems l(2)] by (auto simp: scan_result_def split: option.splits)
    then show ?thesis
      using False l(1) r(1) a same_router_trans [OF l(2) r(2)] by auto
  qed
qed

text \<open>The routes of all neighbours.\<close>

definition neigh_routes :: "RouterState \<Rightarrow> (NodeId \<times> NeighRoute) set" where
  "neigh_routes s = (\<Union>(x, rs) \<in> (\<lambda>n. (neigh_Id n, neigh_Routes n)) ` set (rs_Neighbours s). Pair x ` snd ` set rs)"

lemma in_neigh_routes:
  "(x, r) \<in> neigh_routes s \<longleftrightarrow> (\<exists>n \<in> set (rs_Neighbours s). x = neigh_Id n \<and> r \<in> snd ` set (neigh_Routes n))"
  by (auto simp: neigh_routes_def)

lemma NeighContainsFunc_spec:
  assumes "wf_router s"
  shows "\<exists>r s'. NeighContainsFunc now P s = Some (r, s') \<and> same_router s s' \<and> scan_result now s P (neigh_routes s) r"
proof -
  let ?rs = "concat (map (\<lambda>n. map (\<lambda>(prefix, r). (neigh_Id n, r)) (neigh_Routes n)) (rs_Neighbours s))"
  have "set ?rs = neigh_routes s"
    by (force simp: in_neigh_routes)
  then show ?thesis
    using neigh_scan_spec [OF assms, of now P ?rs] by (simp add: NeighContainsFunc_def)
qed

lemma neigh_routes_same: "same_router s s' \<Longrightarrow> neigh_routes s' = neigh_routes s"
proof -
  assume "same_router s s'"
  then have "list_all2 same_neigh (rs_Neighbours s) (rs_Neighbours s')"
    by (rule same_router_frame(7))
  then have "map (\<lambda>n. (neigh_Id n, neigh_Routes n)) (rs_Neighbours s') = map (\<lambda>n. (neigh_Id n, neigh_Routes n)) (rs_Neighbours s)"
    by (induction rule: list_all2_induct) (auto simp: same_neigh_def)
  from arg_cong [OF this, of set] show ?thesis
    unfolding neigh_routes_def set_map by (simp only:)
qed

lemma checkFeasibility_same: "same_router s s' \<Longrightarrow> checkFeasibility s' r = checkFeasibility s r"
  by (simp add: checkFeasibility_def same_router_frame)

text \<open>A way around the requesting neighbour: a finite route of another neighbour with a live link.\<close>

definition detour :: "instant \<Rightarrow> RouterState \<Rightarrow> NodeId \<Rightarrow> Prefix \<Rightarrow> NodeId \<Rightarrow> NeighRoute \<Rightarrow> bool" where
  "detour now s from p x route \<longleftrightarrow>
     (x, route) \<in> neigh_routes s \<and> linked now (rs_Neighbours s) x \<and> x \<noteq> from \<and>
     pr_Prefix (nr_PubRoute route) = p \<and> nr_Metric route \<noteq> M_INF"

text \<open>Where a request goes: along a feasible detour if there is one, else along any.\<close>

definition forwarded_to :: "instant \<Rightarrow> RouterState \<Rightarrow> NodeId \<Rightarrow> Prefix \<Rightarrow> NodeId option \<Rightarrow> bool" where
  "forwarded_to now s from p nh =
     (case nh of
        None \<Rightarrow> \<nexists>x route. detour now s from p x route
      | Some x \<Rightarrow>
          (\<exists>route. detour now s from p x route \<and> checkFeasibility s (nr_PubRoute route)) \<or>
          (\<exists>route. detour now s from p x route) \<and>
          (\<nexists>y route. detour now s from p y route \<and> checkFeasibility s (nr_PubRoute route)))"

lemma forward_request_spec:
  assumes "wf_router s"
  shows "\<exists>s' nh. forward_request now from src q h s =
      Some (s', case nh of None \<Rightarrow> [] | Some x \<Rightarrow> [RequestSeqno x src q (h - 1)]) \<and>
    same_router s s' \<and> forwarded_to now s from (src_Prefix src) nh"
proof -
  let ?any = "\<lambda>x route. src_Prefix src = pr_Prefix (nr_PubRoute route) \<and> x \<noteq> from \<and> nr_Metric route \<noteq> M_INF"
  let ?feas = "\<lambda>x route. ?any x route \<and> checkFeasibility s (nr_PubRoute route)"
  obtain r s1 where r: "NeighContainsFunc now ?feas s = Some (r, s1)" "same_router s s1"
    "scan_result now s ?feas (neigh_routes s) r"
    using NeighContainsFunc_spec [OF assms, of now ?feas] by auto
  show ?thesis
  proof (cases r)
    case (Some x)
    then have "forwarded_to now s from (src_Prefix src) (Some x)"
      using r(3) by (auto simp: scan_result_def forwarded_to_def detour_def)
    then show ?thesis
      using r Some by (auto simp: forward_request_def intro!: exI [of _ "Some x"])
  next
    case None
    obtain r' s2 where r': "NeighContainsFunc now ?any s1 = Some (r', s2)" "same_router s1 s2"
      "scan_result now s1 ?any (neigh_routes s1) r'"
      using NeighContainsFunc_spec [OF same_router_wf [OF assms r(2)], of now ?any] by auto
    have "forwarded_to now s from (src_Prefix src) r'"
      using r(3) r'(3) None linked_same [OF assms r(2)] neigh_routes_same [OF r(2)]
      by (auto simp: scan_result_def forwarded_to_def detour_def split: option.splits)
    then show ?thesis
      using None r r' same_router_trans [OF r(2) r'(2)] by (auto simp: forward_request_def intro!: exI [of _ r'])
  qed
qed

text \<open>The node's own answer: a request for a route it has, unless that route is too old.\<close>

definition answers :: "SelRoute \<Rightarrow> Source \<Rightarrow> u16 \<Rightarrow> bool" where
  "answers sel src q \<longleftrightarrow>
     sr_Metric sel \<noteq> M_INF \<and> (src_NodeId (sr_Source sel) \<noteq> src_NodeId src \<or> SeqnoGe (sr_Seqno sel) q)"

definition answered :: "NodeId \<Rightarrow> SelRoute \<Rightarrow> Source \<Rightarrow> u16 \<Rightarrow> RouterState \<Rightarrow> RouterState \<times> calls" where
  "answered from sel src q s =
     (if answers sel src q
      then (updateFeasibility (sr_PubRoute sel) s, [SendRouteUpdate from (sr_PubRoute sel)])
      else (s, []))"

definition too_old :: "SelRoute \<Rightarrow> Source \<Rightarrow> u16 \<Rightarrow> bool" where
  "too_old sel src q \<longleftrightarrow> src_NodeId (sr_Source sel) = src_NodeId src \<and> SeqnoGt q (sr_Seqno sel)"

lemma bind_calls:
  "(m :: (RouterState \<times> calls) option) \<bind> (\<lambda>(s, cs'). Some (s, c # cs')) = map_option (apsnd ((@) [c])) m"
  "map_option (apsnd ((@) [])) (m :: (RouterState \<times> calls) option) = m"
  by (cases m; auto)+

lemma HandleSeqnoRequest_eq:
  "HandleSeqnoRequest now from src q h s =
     (case mget (rs_Routes s) (src_Prefix src) of
        None \<Rightarrow> Some (s, [])
      | Some sel \<Rightarrow>
          let (s1, cs) = answered from sel src q s
          in if \<not> too_old sel src q then Some (s1, cs)
             else if src_NodeId src = rs_Id s1
             then map_option (apsnd ((@) cs)) (ComputeRoutes now (SetSeqno (src_Prefix (sr_Source sel)) q s1))
             else if 2 \<le> h then map_option (apsnd ((@) cs)) (forward_request now from src q h s1)
             else Some (s1, cs))"
  by (auto simp: HandleSeqnoRequest_def answered_def answers_def too_old_def Let_def bind_calls
      split: option.split prod.split)

lemma updateFeasibility_wf: "wf_router s \<Longrightarrow> wf_router (updateFeasibility r s)"
  by (simp add: wf_router_def)

lemma SetSeqno_wf: "wf_router s \<Longrightarrow> wf_router (SetSeqno p q s)"
  by (simp add: wf_router_def SetSeqno_def)

lemma answered_wf:
  assumes "wf_router s" and "answered from sel src q s = (s1, cs)"
  shows "wf_router s1" "rs_Routes s1 = rs_Routes s" "rs_Neighbours s1 = rs_Neighbours s" "rs_Id s1 = rs_Id s"
    "rs_Advertised s1 = rs_Advertised s" "rs_Tunables s1 = rs_Tunables s" "rs_SelfSeqno s1 = rs_SelfSeqno s"
  using assms by (auto simp: answered_def updateFeasibility_wf split: if_splits)

lemma HandleSeqnoRequest_total:
  assumes "wf_router s"
  shows "\<exists>s' cs. HandleSeqnoRequest now from src q h s = Some (s', cs) \<and> wf_router s'"
proof (cases "mget (rs_Routes s) (src_Prefix src)")
  case (Some sel)
  obtain s1 cs where a: "answered from sel src q s = (s1, cs)"
    by (cases "answered from sel src q s")
  have wf: "wf_router s1"
    by (rule answered_wf(1) [OF assms a])
  obtain s2 cs2 where c: "ComputeRoutes now (SetSeqno (src_Prefix (sr_Source sel)) q s1) = Some (s2, cs2)" "wf_router s2"
    using ComputeRoutes_computed [OF SetSeqno_wf [OF wf]] ComputeRoutes_wf [OF SetSeqno_wf [OF wf]] by blast
  obtain s3 cs3 where f: "forward_request now from src q h s1 = Some (s3, cs3)" "same_router s1 s3"
    using forward_request_spec [OF wf] by blast
  show ?thesis
    using Some a wf c f same_router_wf [OF wf f(2)] by (auto simp: HandleSeqnoRequest_eq)
qed (simp add: HandleSeqnoRequest_eq assms)

lemma HandleAckRetract_total:
  assumes "wf_router s"
  shows "\<exists>s' cs. HandleAckRetract now node p s = Some (s', cs) \<and> wf_router s'"
proof (cases "mget (rs_Routes s) p")
  case (Some r)
  let ?s = "s\<lparr>rs_Routes := mput p (r\<lparr>sr_RetractedBy := sr_RetractedBy r @ [node]\<rparr>) (rs_Routes s)\<rparr>"
  have "wf_router ?s"
    using assms Some by (auto simp: wf_router_def)
  then obtain s' cs where "ComputeRoutes now ?s = Some (s', cs)" "wf_router s'"
    using ComputeRoutes_computed ComputeRoutes_wf by blast
  then show ?thesis
    using Some assms by (auto simp: HandleAckRetract_def)
qed (simp add: HandleAckRetract_def assms)

text \<open>An own prefix announced at no cost keeps its own route whatever the neighbours offer.\<close>

lemma select_route_free:
  assumes "\<not> sameRoute (cand_route b) r" and "sr_Metric r = 0"
  shows "select_route b (current_route (Some r) sel) = r"
  using assms by (simp add: select_route_def current_route_def)

lemma own_route_wins:
  assumes "mget (rs_Advertised s) p = Some adv" and "sr_Metric (advertised_route now s p adv) = 0"
    and "\<forall>n \<in> set (rs_Neighbours s). \<forall>c. cand_at now s p n = Some c \<longrightarrow> neigh_Id n \<noteq> adv_NodeId adv"
  shows "selected_route now s p = Some (advertised_route now s p adv)"
    "next_route now s p = Some (advertised_route now s p adv)"
proof -
  let ?r = "advertised_route now s p adv"
  have own: "own_route now s p = Some ?r"
    using assms(1) by (simp add: own_route_def)
  show sel: "selected_route now s p = Some ?r"
  proof (cases "best_from now s p (rs_Neighbours s) None")
    case (Some b)
    obtain n where n: "n \<in> set (rs_Neighbours s)" "cand_at now s p n = Some b"
      using best_from_cases [OF Some] by auto
    have "sr_Nh (cand_route b) \<noteq> adv_NodeId adv"
      unfolding cand_at_Nh [OF n(2)] using assms(3) n by blast
    then have "\<not> sameRoute (cand_route b) ?r"
      by (simp add: sameRoute_def advertised_route_def Let_def)
    then show ?thesis
      using Some select_route_free assms(2) by (simp add: selected_route_def own)
  qed (simp add: selected_route_def own)
  show "next_route now s p = Some ?r"
    using assms(2) by (cases "mget (rs_Routes s) p") (simp_all add: next_route_def sel)
qed

subsection \<open>Starvation\<close>

text \<open>A source some live neighbour has a route for, and one with a usable such route.\<close>

definition offered :: "instant \<Rightarrow> Neighbour list \<Rightarrow> Source \<Rightarrow> bool" where
  "offered now ns src \<longleftrightarrow> (\<exists>n \<in> set ns. link_up now n \<and> (\<exists>r \<in> snd ` set (neigh_Routes n). nr_Source r = src))"

definition usable :: "RouterState \<Rightarrow> NeighRoute \<Rightarrow> bool" where
  "usable s r \<longleftrightarrow> nr_Metric r \<noteq> M_INF \<and> checkFeasibility s (nr_PubRoute r)"

definition fed :: "instant \<Rightarrow> RouterState \<Rightarrow> Neighbour list \<Rightarrow> Source \<Rightarrow> bool" where
  "fed now s ns src \<longleftrightarrow>
     (\<exists>n \<in> set ns. link_up now n \<and> (\<exists>r \<in> snd ` set (neigh_Routes n). nr_Source r = src \<and> usable s r))"

definition fed_entry :: "bool option \<Rightarrow> bool \<Rightarrow> bool \<Rightarrow> bool option" where
  "fed_entry cur off us = (if off \<or> cur \<noteq> None then Some (cur = Some True \<or> us) else None)"

lemma fed_entry_idle [simp]: "fed_entry cur False False = cur"
  by (cases cur) (auto simp: fed_entry_def)

lemma feasible_fold:
  "gomap_ok m \<Longrightarrow> gomap_ok (fold (feasible_step s) rs m) \<and>
   mget (fold (feasible_step s) rs m) src =
     fed_entry (mget m src) (\<exists>r \<in> snd ` set rs. nr_Source r = src) (\<exists>r \<in> snd ` set rs. nr_Source r = src \<and> usable s r)"
proof (induction rs arbitrary: m)
  case (Cons a rs)
  obtain p r where a: "a = (p, r)"
    by (cases a)
  have "gomap_ok (feasible_step s a m)"
    using Cons.prems a by (simp add: feasible_step_def Let_def)
  moreover have "mget (feasible_step s a m) src =
      fed_entry (mget m src) (nr_Source r = src) (nr_Source r = src \<and> usable s r)"
    using a by (auto simp: feasible_step_def Let_def fed_entry_def usable_def)
  ultimately show ?case
    using Cons.IH [of "feasible_step s a m"] a by (auto simp: fed_entry_def)
qed simp

lemma feasible_sources_spec:
  assumes "list_all wf_neigh ns" and "gomap_ok m"
  shows "\<exists>ns' m'. feasible_sources now s ns m = Some (ns', m') \<and> list_all2 same_neigh ns ns' \<and> gomap_ok m' \<and>
    (\<forall>src. mget m' src = fed_entry (mget m src) (offered now ns src) (fed now s ns src))"
  using assms
proof (induction ns arbitrary: m)
  case Nil
  then show ?case
    by (simp add: offered_def fed_def)
next
  case (Cons n ns)
  obtain best eps where b: "BestEndpoint now (neigh_Eps n) = Some (best, eps)"
    "same_links (neigh_Eps n) eps" "(best \<noteq> None) = link_up now n"
    using BestEndpoint_up [of "neigh_Eps n" now] Cons.prems(1) by (auto simp: wf_neigh_def link_up_def)
  let ?m = "if best = None then m else fold (feasible_step s) (neigh_Routes n) m"
  have m: "gomap_ok ?m" "mget ?m src = fed_entry (mget m src) (offered now [n] src) (fed now s [n] src)" for src
    using feasible_fold [OF Cons.prems(2), of s "neigh_Routes n"] Cons.prems(2) b(3)
    by (cases best; simp add: offered_def fed_def)+
  obtain ns' m' where r: "feasible_sources now s ns ?m = Some (ns', m')" "list_all2 same_neigh ns ns'" "gomap_ok m'"
    "\<And>src. mget m' src = fed_entry (mget ?m src) (offered now ns src) (fed now s ns src)"
    using Cons.IH [OF _ m(1)] Cons.prems(1) by auto
  have "feasible_sources now s (n # ns) m = Some (n\<lparr>neigh_Eps := eps\<rparr> # ns', m')"
    using b(1) r(1) by simp
  moreover have "list_all2 same_neigh (n # ns) (n\<lparr>neigh_Eps := eps\<rparr> # ns')"
    using b(2) r(2) by (simp add: same_neigh_def)
  moreover have "mget m' src = fed_entry (mget m src) (offered now (n # ns) src) (fed now s (n # ns) src)" for src
    unfolding r(4) m(2) by (auto simp: offered_def fed_def fed_entry_def)
  ultimately show ?case
    using r(3) by blast
qed

lemma in_starving_calls:
  "BroadcastRequestSeqno src q h \<in> set (concat (map (starving_calls s) m)) \<longleftrightarrow>
     (src, False) \<in> set m \<and> src_NodeId src \<noteq> rs_Id s \<and> q = fd_Seqno (source_FD s src) + 1 \<and>
     h = SeqnoRequestHopCount (rs_Tunables s)"
  by (induction m) (auto simp: starving_calls_def)

lemma SolveStarvation_spec:
  assumes "wf_router s"
  shows "\<exists>s' cs. SolveStarvation now s = Some (s', cs) \<and> same_router s s' \<and>
    (\<forall>src q h. BroadcastRequestSeqno src q h \<in> set cs \<longleftrightarrow>
       (offered now (rs_Neighbours s) src \<and> \<not> fed now s (rs_Neighbours s) src) \<and> src_NodeId src \<noteq> rs_Id s \<and>
       q = fd_Seqno (source_FD s src) + 1 \<and> h = SeqnoRequestHopCount (rs_Tunables s))"
proof -
  obtain ns m where f: "feasible_sources now s (rs_Neighbours s) [] = Some (ns, m)"
    "list_all2 same_neigh (rs_Neighbours s) ns" "gomap_ok m"
    "\<And>src. mget m src = fed_entry None (offered now (rs_Neighbours s) src) (fed now s (rs_Neighbours s) src)"
    using feasible_sources_spec [OF wf_routerD(5) [OF assms], of "[]" now s] by auto
  have "(src, False) \<in> set m \<longleftrightarrow> offered now (rs_Neighbours s) src \<and> \<not> fed now s (rs_Neighbours s) src" for src
    using f(4) [of src] in_set_mget [OF f(3), of src False] by (auto simp: fed_entry_def split: if_splits)
  then show ?thesis
    using f(1,2) by (simp add: SolveStarvation_def same_router_def in_starving_calls del: set_concat)
qed

subsection \<open>Garbage collection\<close>

text \<open>A learned route after one collection: an expired finite route becomes infinite and is kept for
another expiry time, an expired infinite one goes.\<close>

definition aged :: "instant \<Rightarrow> RouterTunables \<Rightarrow> NeighRoute \<Rightarrow> NeighRoute option" where
  "aged now t r =
     (if now \<le> nr_ExpireAt r then Some r
      else if nr_Metric r = M_INF then None
      else Some ((set_nr_Metric M_INF r)\<lparr>nr_ExpireAt := now + RouteExpiryTime t\<rparr>))"

lemma gc_route_at:
  "mget (fst (gc_route now t (p, r) (m, cs))) q = (if q = p \<and> nr_ExpireAt r < now then aged now t r else mget m q)"
  by (auto simp: gc_route_def aged_def not_le)

lemma gc_routes_at:
  assumes "gomap_ok rs"
  shows "mget (fst (fold (gc_route now t) rs (m, cs))) q =
    (case mget rs q of Some r \<Rightarrow> if nr_ExpireAt r < now then aged now t r else mget m q | None \<Rightarrow> mget m q)"
  using assms
proof (induction rs arbitrary: m cs)
  case (Cons a rs)
  obtain p r where a: "a = (p, r)"
    by (cases a)
  obtain m' cs' where g: "gc_route now t a (m, cs) = (m', cs')"
    by (cases "gc_route now t a (m, cs)")
  have "mget m' q = (if q = p \<and> nr_ExpireAt r < now then aged now t r else mget m q)"
    using gc_route_at [of now t p r m cs q] g a by simp
  moreover have "p \<notin> fst ` set rs" "gomap_ok rs"
    using Cons.prems a by auto
  moreover from this(1) have "mget rs p = None"
    by (simp add: map_of_eq_None_iff)
  ultimately show ?case
    using Cons.IH [of m' cs'] g a by (auto split: option.splits)
qed simp

lemma gc_routes_ok: "gomap_ok m \<Longrightarrow> gomap_ok (fst (fold (gc_route now t) rs (m, cs)))"
  by (rule fold_inv) (auto simp: gc_route_def)

definition collected :: "instant \<Rightarrow> RouterTunables \<Rightarrow> Neighbour \<Rightarrow> Neighbour \<Rightarrow> bool" where
  "collected now t n n' \<longleftrightarrow>
     neigh_Id n' = neigh_Id n \<and> neigh_Eps n' = neigh_Eps n \<and> wf_neigh n' \<and>
     (\<forall>p. mget (neigh_Routes n') p = Option.bind (mget (neigh_Routes n) p) (aged now t))"

lemma gc_neighbour:
  assumes "wf_neigh n"
  shows "collected now t n (n\<lparr>neigh_Routes := fst (fold (gc_route now t) (neigh_Routes n) (neigh_Routes n, []))\<rparr>)"
proof -
  let ?rs = "fst (fold (gc_route now t) (neigh_Routes n) (neigh_Routes n, []))"
  have at: "mget ?rs p = Option.bind (mget (neigh_Routes n) p) (aged now t)" for p
    using gc_routes_at [of "neigh_Routes n" now t "neigh_Routes n" "[]" p] assms
    by (auto simp: wf_neigh_def aged_def split: option.splits)
  have "src_Prefix (nr_Source r) = p" if "mget ?rs p = Some r" for p r
    using assms that unfolding at by (auto simp: wf_neigh_def aged_def bind_eq_Some_conv split: if_splits)
  then show ?thesis
    using at assms by (simp add: collected_def wf_neigh_def gc_routes_ok)
qed

lemma gc_neighbours_spec:
  "list_all wf_neigh ns \<Longrightarrow> list_all2 (collected now t) ns (fst (gc_neighbours now t ns))"
proof (induction ns)
  case (Cons n ns)
  then show ?case
    using gc_neighbour [of n now t] by (auto simp: Let_def split: prod.splits)
qed simp

lemma gc_advertised_step:
  assumes "gomap_ok rs"
  shows "mget (fst (fold (\<lambda>(svc, exp) (m, cs).
             if now > adv_Expiry exp
             then (mdel svc m, if adv_ExpiryFn exp then cs @ [ExpiryFn svc] else cs)
             else (m, cs)) rs (m, cs))) q =
    (case mget rs q of Some a \<Rightarrow> if adv_Expiry a < now then None else mget m q | None \<Rightarrow> mget m q)"
  using assms
proof (induction rs arbitrary: m cs)
  case (Cons a rs)
  obtain p r where a: "a = (p, r)"
    by (cases a)
  have "p \<notin> fst ` set rs" "gomap_ok rs"
    using Cons.prems a by auto
  moreover from this(1) have "mget rs p = None"
    by (simp add: map_of_eq_None_iff)
  ultimately show ?case
    using Cons.IH a by (auto split: option.splits)
qed simp

lemma gc_advertised_spec:
  assumes "gomap_ok adv"
  shows "gomap_ok (fst (gc_advertised now adv))"
    and "mget (fst (gc_advertised now adv)) p =
      (case mget adv p of Some a \<Rightarrow> if adv_Expiry a < now then None else Some a | None \<Rightarrow> None)"
proof -
  show "gomap_ok (fst (gc_advertised now adv))"
    unfolding gc_advertised_def by (rule fold_inv) (use assms in auto)
  show "mget (fst (gc_advertised now adv)) p =
      (case mget adv p of Some a \<Rightarrow> if adv_Expiry a < now then None else Some a | None \<Rightarrow> None)"
    unfolding gc_advertised_def using gc_advertised_step [OF assms, of now adv "[]" p]
    by (cases "mget adv p") simp_all
qed

lemma gc_sources_at:
  assumes "gomap_ok (rs_Sources s)"
  shows "mget (rs_Sources (gc_sources s)) src = (if source_used s src then mget (rs_Sources s) src else None)"
proof -
  have f: "mget (fold (\<lambda>(src, fd) m. if source_used s src then m else mdel src m) xs m) src =
      (if src \<in> fst ` set xs \<and> \<not> source_used s src then None else mget m src)" for xs m
    by (induction xs arbitrary: m) auto
  show ?thesis
    using map_of_eq_None_iff [of "rs_Sources s" src] by (simp add: gc_sources_def f)
qed

lemma gc_sources_frame [simp]:
  "rs_Routes (gc_sources s) = rs_Routes s" "rs_Neighbours (gc_sources s) = rs_Neighbours s"
  "rs_Advertised (gc_sources s) = rs_Advertised s" "rs_Tunables (gc_sources s) = rs_Tunables s"
  "rs_Id (gc_sources s) = rs_Id s" "rs_SelfSeqno (gc_sources s) = rs_SelfSeqno s"
  by (simp_all add: gc_sources_def)

lemma gc_sources_wf: "wf_router s \<Longrightarrow> wf_router (gc_sources s)"
proof -
  assume wf: "wf_router s"
  have "gomap_ok (rs_Sources (gc_sources s))"
    unfolding gc_sources_def by simp (rule fold_inv, use wf in \<open>auto simp: wf_router_def\<close>)
  with wf show ?thesis
    by (simp add: wf_router_def)
qed

text \<open>The state on which a collection recomputes the routes.\<close>

definition gc_swept :: "instant \<Rightarrow> RouterState \<Rightarrow> RouterState" where
  "gc_swept now s =
     s\<lparr>rs_Neighbours := fst (gc_neighbours now (rs_Tunables s) (rs_Neighbours s)),
       rs_Advertised := fst (gc_advertised now (rs_Advertised s))\<rparr>"

lemma gc_swept_wf:
  assumes "wf_router s"
  shows "wf_router (gc_swept now s)"
proof -
  let ?ns = "fst (gc_neighbours now (rs_Tunables s) (rs_Neighbours s))"
  have c: "list_all2 (collected now (rs_Tunables s)) (rs_Neighbours s) ?ns"
    by (rule gc_neighbours_spec [OF wf_routerD(5) [OF assms]])
  then have "map neigh_Id ?ns = map neigh_Id (rs_Neighbours s)" "list_all wf_neigh ?ns"
    by (induction rule: list_all2_induct) (auto simp: collected_def)
  then show ?thesis
    using assms gc_advertised_spec(1) by (simp add: wf_router_def gc_swept_def)
qed

lemma RunGC_eq:
  "RunGC now s = map_option
     (\<lambda>(s', cs). (gc_sources s', snd (gc_neighbours now (rs_Tunables s) (rs_Neighbours s)) @
        snd (gc_advertised now (rs_Advertised s)) @ cs))
     (ComputeRoutes now (gc_swept now s))"
  by (cases "ComputeRoutes now (gc_swept now s)") (auto simp: RunGC_def gc_swept_def split: prod.splits)

lemma RunGC_total:
  assumes "wf_router s"
  shows "\<exists>s' cs. RunGC now s = Some (s', cs) \<and> wf_router s'"
  using ComputeRoutes_computed [OF gc_swept_wf [OF assms], of now now]
    gc_sources_wf [OF ComputeRoutes_wf [OF gc_swept_wf [OF assms]]]
  by (auto simp: RunGC_eq)

end
