(* ===== verification/Handler_Properties.thy ===== *)
theory Handler_Properties
  imports Router_Handlers
begin

text \<open>
  What the message handlers and periodic tasks of the router guarantee: route acquisition, the
  release of held routes, sequence-number requests and their answers, the escape from starvation
  and the two phases of route expiry.
\<close>

subsection \<open>Route updates\<close>



subsection \<open>Sequence-number requests\<close>

lemma GetSeqno_SetSeqno: "GetSeqno (SetSeqno p q s) p' = (if p' = p then q else GetSeqno s p')"
  by (simp add: GetSeqno_def SetSeqno_def)

lemma SetSeqno_frame [simp]:
  "rs_Routes (SetSeqno p q s) = rs_Routes s" "rs_Neighbours (SetSeqno p q s) = rs_Neighbours s"
  "rs_Advertised (SetSeqno p q s) = rs_Advertised s" "rs_Tunables (SetSeqno p q s) = rs_Tunables s"
  "rs_Id (SetSeqno p q s) = rs_Id s" "rs_Sources (SetSeqno p q s) = rs_Sources s"
  by (simp_all add: SetSeqno_def)

lemma SeqnoGt_neq: "SeqnoGt a b \<Longrightarrow> a \<noteq> b"
  by (auto simp: SeqnoGt_def SeqnoLe_def SeqnoLt_def)

lemma SeqnoLt_Suc: "SeqnoLt x (x + 1)"
  by (simp add: SeqnoLt_def)

text \<open>The node originates the prefix itself and announces it at no cost.\<close>

definition own_prefix :: "RouterState \<Rightarrow> Prefix \<Rightarrow> bool" where
  "own_prefix s p \<longleftrightarrow> rs_Id s \<notin> neigh_Id ` set (rs_Neighbours s) \<and>
     (\<exists>adv. mget (rs_Advertised s) p = Some adv \<and> adv_NodeId adv = rs_Id s \<and> \<not> adv_IsPassiveHold adv \<and>
        adv_MetricFn adv \<in> {None, Some 0})"

lemma own_prefix_selected:
  assumes "own_prefix s p"
  obtains r where "selected_route now s p = Some r" "next_route now s p = Some r"
    "sr_PubRoute r = \<lparr>pr_Source = \<lparr>src_NodeId = rs_Id s, src_Prefix = p\<rparr>, pr_FD = \<lparr>fd_Seqno = GetSeqno s p, fd_Metric = 0\<rparr>\<rparr>"
proof -
  obtain adv where a: "mget (rs_Advertised s) p = Some adv" "adv_NodeId adv = rs_Id s" "\<not> adv_IsPassiveHold adv"
    "adv_MetricFn adv \<in> {None, Some 0}" "rs_Id s \<notin> neigh_Id ` set (rs_Neighbours s)"
    using assms by (auto simp: own_prefix_def)
  have r: "sr_PubRoute (advertised_route now s p adv) =
      \<lparr>pr_Source = \<lparr>src_NodeId = rs_Id s, src_Prefix = p\<rparr>, pr_FD = \<lparr>fd_Seqno = GetSeqno s p, fd_Metric = 0\<rparr>\<rparr>"
    using a(3,4) by (auto simp: advertised_route_def Let_def)
  have "\<forall>n \<in> set (rs_Neighbours s). \<forall>c. cand_at now s p n = Some c \<longrightarrow> neigh_Id n \<noteq> adv_NodeId adv"
    using a(2,5) by (metis image_eqI)
  from own_route_wins [OF a(1) _ this] r show ?thesis
    using that by simp
qed


definition own_9 :: SelRoute where
  "own_9 = \<lparr>sr_PubRoute = pub ''a'' (host 9) 0 0, sr_Nh = ''a'', sr_ExpireAt = 1000, sr_RetractedBy = []\<rparr>"

definition router_3 :: RouterState where
  "router_3 = router_1\<lparr>rs_Routes := (host 9, own_9) # rs_Routes router_1\<rparr>"

lemma wf_router_3: "wf_router router_3"
  using wf_router_1 by (auto simp: wf_router_def router_3_def router_1_def own_9_def pub_def split: if_splits)


text \<open>C31: A request for a newer sequence number of another node's prefix is passed on when the hop
count allows it: to exactly one neighbour that is not the requester, has a live link and a finite
route for the prefix, preferring feasible routes, with the hop count one lower; it is dropped only
when there is no such neighbour.\<close>

theorem seqno_request_forwarded:
  assumes "wf_router s" and "mget (rs_Routes s) (src_Prefix src) = Some sel"
    and "src_NodeId (sr_Source sel) = src_NodeId src" and "SeqnoGt q (sr_Seqno sel)" and "src_NodeId src \<noteq> rs_Id s"
  shows "\<exists>s' nh. HandleSeqnoRequest now from src q h s =
      Some (s', snd (answered from sel src q s) @
                (if 2 \<le> h then case nh of None \<Rightarrow> [] | Some x \<Rightarrow> [RequestSeqno x src q (h - 1)] else [])) \<and>
    wf_router s' \<and> forwarded_to now (fst (answered from sel src q s)) from (src_Prefix src) nh"
proof -
  obtain s1 cs1 where a: "answered from sel src q s = (s1, cs1)"
    by (cases "answered from sel src q s")
  note fr = answered_wf [OF assms(1) a]
  obtain s' nh where f: "forward_request now from src q h s1 =
      Some (s', case nh of None \<Rightarrow> [] | Some x \<Rightarrow> [RequestSeqno x src q (h - 1)])"
    "same_router s1 s'" "forwarded_to now s1 from (src_Prefix src) nh"
    using forward_request_spec [OF fr(1)] by blast
  have "HandleSeqnoRequest now from src q h s =
      (if 2 \<le> h then map_option (apsnd ((@) cs1)) (forward_request now from src q h s1) else Some (s1, cs1))"
    using a assms(2-5) by (simp add: HandleSeqnoRequest_eq too_old_def fr)
  then show ?thesis
    using f fr(1) same_router_wf [OF fr(1) f(2)] a
    by (cases "2 \<le> h") (auto intro!: exI [of _ nh])
qed

lemma seqno_request_forwarded_witness:
  "\<exists>s'. HandleSeqnoRequest 0 ''b'' (pr_Source (pub ''d'' (host 7) 0 0)) 3 64 router_1 =
      Some (s', [RequestSeqno ''c'' (pr_Source (pub ''d'' (host 7) 0 0)) 3 63])"
proof -
  let ?src = "pr_Source (pub ''d'' (host 7) 0 0)"
  let ?sel = "\<lparr>sr_PubRoute = pub ''d'' (host 7) 0 45, sr_Nh = ''b'', sr_ExpireAt = 100, sr_RetractedBy = []\<rparr>"
  have sel: "mget (rs_Routes router_1) (src_Prefix ?src) = Some ?sel" "src_NodeId (sr_Source ?sel) = src_NodeId ?src"
    "SeqnoGt 3 (sr_Seqno ?sel)" "src_NodeId ?src \<noteq> rs_Id router_1"
    by (simp_all add: router_1_def pub_def SeqnoGt_def SeqnoLe_def SeqnoLt_def)
  have ans: "answered ''b'' ?sel ?src 3 router_1 = (router_1, [])"
    by (simp add: answered_def answers_def pub_def SeqnoGe_def SeqnoLt_def)
  have d1: "detour 0 router_1 ''b'' (host 7) ''c'' (nroute (pub ''d'' (host 7) 0 5))"
    by (auto simp: detour_def in_neigh_routes router_1_def nbr_def linked_def link_up_def NewMockEndpoint_def
        pub_def nroute_def M_INF_eval)
  have d2: "x = ''c''" if "detour 0 router_1 ''b'' (host 7) x r" for x r
    using that by (auto simp: detour_def in_neigh_routes router_1_def nbr_def linked_def link_up_def NewMockEndpoint_def
        pub_def nroute_def)
  obtain s' nh where h: "HandleSeqnoRequest 0 ''b'' ?src 3 64 router_1 =
      Some (s', case nh of None \<Rightarrow> [] | Some x \<Rightarrow> [RequestSeqno x ?src 3 (64 - 1)])" "forwarded_to 0 router_1 ''b'' (src_Prefix ?src) nh"
    using seqno_request_forwarded [OF wf_router_1 sel, of 0 "''b''" 64] unfolding ans by auto
  have p: "src_Prefix ?src = host 7"
    by (simp add: pub_def)
  show ?thesis
  proof (cases nh)
    case None
    then show ?thesis
      using h(2) d1 by (auto simp: forwarded_to_def p)
  next
    case (Some x)
    then obtain r where "detour 0 router_1 ''b'' (host 7) x r"
      using h(2) unfolding forwarded_to_def p by auto
    then show ?thesis
      using h(1) Some d2 by simp
  qed
qed

subsection \<open>Starvation\<close>

text \<open>C32: A source is starving when live neighbours offer routes to it but none that is finite and
feasible. The starvation task broadcasts a request for exactly the starving sources of other nodes,
asking for one more than the recorded sequence number, and any route of that source with the
requested number is feasible, so an answer ends the starvation.\<close>

theorem starvation_resolved:
  assumes "wf_router s"
  shows "\<exists>s' cs. SolveStarvation now s = Some (s', cs) \<and> same_router s s' \<and>
    (\<forall>src q h. BroadcastRequestSeqno src q h \<in> set cs \<longleftrightarrow>
       offered now (rs_Neighbours s) src \<and> \<not> fed now s (rs_Neighbours s) src \<and> src_NodeId src \<noteq> rs_Id s \<and>
       q = fd_Seqno (source_FD s src) + 1 \<and> h = SeqnoRequestHopCount (rs_Tunables s)) \<and>
    (\<forall>src q h r. BroadcastRequestSeqno src q h \<in> set cs \<and> pr_Source r = src \<and> pr_Seqno r = q \<longrightarrow>
       checkFeasibility s r)"
proof -
  obtain s' cs where r: "SolveStarvation now s = Some (s', cs)" "same_router s s'"
    "\<And>src q h. BroadcastRequestSeqno src q h \<in> set cs \<longleftrightarrow>
       (offered now (rs_Neighbours s) src \<and> \<not> fed now s (rs_Neighbours s) src) \<and> src_NodeId src \<noteq> rs_Id s \<and>
       q = fd_Seqno (source_FD s src) + 1 \<and> h = SeqnoRequestHopCount (rs_Tunables s)"
    using SolveStarvation_spec [OF assms] by blast
  have "checkFeasibility s r" if "pr_Seqno r = fd_Seqno (source_FD s (pr_Source r)) + 1" for r
    using that SeqnoLt_Suc by (auto simp: checkFeasibility_def source_FD_def split: option.splits)
  then show ?thesis
    using r by auto
qed

text \<open>Neighbour \<open>b\<close>'s route to \<open>d\<close> is the only one and not feasible.\<close>

definition router_4 :: RouterState where
  "router_4 = router_1\<lparr>rs_Neighbours := [nbr ''b'' 10 True [(host 7, nroute (pub ''d'' (host 7) 0 60))]]\<rparr>"

lemma wf_router_4: "wf_router router_4"
  using wf_router_1 by (auto simp: wf_router_def router_4_def wf_neigh_def nbr_def nroute_def pub_def split: if_splits)

lemma starvation_resolved_witness:
  "\<exists>s' cs. SolveStarvation 0 router_4 = Some (s', cs) \<and>
    BroadcastRequestSeqno (pr_Source (pub ''d'' (host 7) 0 60)) 1 64 \<in> set cs"
proof -
  have "offered 0 (rs_Neighbours router_4) (pr_Source (pub ''d'' (host 7) 0 60))"
    by (auto simp: offered_def router_4_def nbr_def link_up_def NewMockEndpoint_def nroute_def)
  moreover have "\<not> fed 0 router_4 (rs_Neighbours router_4) (pr_Source (pub ''d'' (host 7) 0 60))"
    by (auto simp: fed_def usable_def router_4_def router_1_def nbr_def nroute_def pub_def checkFeasibility_def SeqnoLt_def)
  ultimately show ?thesis
    using starvation_resolved [OF wf_router_4, of 0]
    by (auto simp: router_4_def router_1_def pub_def source_FD_def tun_1_def)
qed

subsection \<open>Garbage collection\<close>

lemma RunGC_cases:
  assumes "wf_router s" and "RunGC now s = Some (s', cs)"
  obtains s2 cs2 where "ComputeRoutes now (gc_swept now s) = Some (s2, cs2)" "s' = gc_sources s2"
    "computed now (gc_swept now s) s2 cs2" "gomap_ok (rs_Sources s2)"
proof -
  obtain s2 cs2 where c: "ComputeRoutes now (gc_swept now s) = Some (s2, cs2)" "s' = gc_sources s2"
    using assms(2) by (auto simp: RunGC_eq)
  then show ?thesis
    using that computedI [OF gc_swept_wf [OF assms(1)] c(1)] by (simp add: computed_def)
qed

lemma gc_routes_aged:
  assumes "wf_router s" and "RunGC now s = Some (s', cs)" and "i < length (rs_Neighbours s)"
  shows "map_option nr_core (mget (neigh_Routes (rs_Neighbours s' ! i)) p) =
      map_option nr_core (Option.bind (mget (neigh_Routes (rs_Neighbours s ! i)) p) (aged now (rs_Tunables s)))"
    and "i < length (rs_Neighbours s')"
proof -
  obtain s2 cs2 where c: "s' = gc_sources s2" "computed now (gc_swept now s) s2 cs2"
    by (rule RunGC_cases [OF assms(1,2)])
  have "collected now (rs_Tunables s) (rs_Neighbours s ! i) (rs_Neighbours (gc_swept now s) ! i)"
    "i < length (rs_Neighbours (gc_swept now s))"
    using gc_neighbours_spec [OF wf_routerD(5) [OF assms(1)], of now "rs_Tunables s"] assms(3)
    by (auto simp: list_all2_conv_all_nth gc_swept_def)
  moreover from this(2) have "kept_neigh (rs_Neighbours (gc_swept now s) ! i) (rs_Neighbours s' ! i)"
    using c(2) by (simp add: computed_def c(1) list_all2_conv_all_nth)
  ultimately show "map_option nr_core (mget (neigh_Routes (rs_Neighbours s' ! i)) p) =
      map_option nr_core (Option.bind (mget (neigh_Routes (rs_Neighbours s ! i)) p) (aged now (rs_Tunables s)))"
    by (simp add: kept_neigh_def collected_def)
  show "i < length (rs_Neighbours s')"
    using c(2) \<open>i < length (rs_Neighbours (gc_swept now s))\<close> by (auto simp: computed_def c(1) dest: list_all2_lengthD)
qed





end
