(* ===== verification/Config.thy ===== *)
theory Config
  imports Routing_State "HOL-Library.List_Lexorder" "HOL-Library.Char_ord"
begin

text \<open>
  The configuration of a network and of a node (\<^verbatim>\<open>state/config.go\<close>) with the health checks of
  advertised prefixes (\<^verbatim>\<open>state/prefix_health.go\<close>). Strings are lists of bytes with Go's
  lexicographic order.
\<close>

type_synonym NyPublicKey = bytes
type_synonym NyPrivateKey = bytes
type_synonym NodeIdNumeric = u32

subsection \<open>Prefix health\<close>

record PingHealth =
  pp_Prefix :: Prefix
  pp_Addr :: Addr
  pp_MaxFailures :: "int option"
  pp_Delay :: "duration option"
  pp_BindIf :: string
  pp_Metric :: "u32 option"
  pp_lastMetric :: u32
  pp_running :: bool

record HTTPHealth =
  hp_Prefix :: Prefix
  hp_URL :: string
  hp_Delay :: "duration option"
  hp_Metric :: "u32 option"
  hp_lastMetric :: u32
  hp_running :: bool

datatype PrefixHealth =
    StaticPrefixHealth Prefix u32
  | PingPrefixHealth PingHealth
  | HTTPPrefixHealth HTTPHealth

fun PrefixHealth_GetMetric :: "PrefixHealth \<Rightarrow> u32" where
  "PrefixHealth_GetMetric (StaticPrefixHealth p m) = m"
| "PrefixHealth_GetMetric (PingPrefixHealth h) = (case pp_Metric h of Some m \<Rightarrow> m | None \<Rightarrow> pp_lastMetric h)"
| "PrefixHealth_GetMetric (HTTPPrefixHealth h) = (case hp_Metric h of Some m \<Rightarrow> m | None \<Rightarrow> hp_lastMetric h)"

fun PrefixHealth_GetPrefix :: "PrefixHealth \<Rightarrow> Prefix" where
  "PrefixHealth_GetPrefix (StaticPrefixHealth p m) = p"
| "PrefixHealth_GetPrefix (PingPrefixHealth h) = pp_Prefix h"
| "PrefixHealth_GetPrefix (HTTPPrefixHealth h) = hp_Prefix h"

fun PrefixHealth_Stop :: "PrefixHealth \<Rightarrow> PrefixHealth" where
  "PrefixHealth_Stop (StaticPrefixHealth p m) = StaticPrefixHealth p m"
| "PrefixHealth_Stop (PingPrefixHealth h) = PingPrefixHealth (h\<lparr>pp_running := False\<rparr>)"
| "PrefixHealth_Stop (HTTPPrefixHealth h) = HTTPPrefixHealth (h\<lparr>hp_running := False\<rparr>)"

text \<open>\<^verbatim>\<open>Start\<close> up to the monitoring goroutine it spawns.\<close>

definition PingHealth_Start :: "RouterTunables \<Rightarrow> PingHealth \<Rightarrow> PingHealth" where
  "PingHealth_Start t p =
     (if pp_running p then p
      else p\<lparr>pp_running := True,
             pp_Delay := Some (case pp_Delay p of Some d \<Rightarrow> d | None \<Rightarrow> HealthCheckDelay t),
             pp_MaxFailures := Some (case pp_MaxFailures p of Some m \<Rightarrow> m | None \<Rightarrow> HealthCheckMaxFailures t),
             pp_lastMetric := M_INF\<rparr>)"

definition HTTPHealth_Start :: "RouterTunables \<Rightarrow> HTTPHealth \<Rightarrow> HTTPHealth" where
  "HTTPHealth_Start t h =
     (if hp_running h then h
      else h\<lparr>hp_running := True, hp_lastMetric := M_INF,
             hp_Delay := Some (case hp_Delay h of Some d \<Rightarrow> d | None \<Rightarrow> HealthCheckDelay t)\<rparr>)"

fun PrefixHealth_Start :: "RouterTunables \<Rightarrow> PrefixHealth \<Rightarrow> PrefixHealth" where
  "PrefixHealth_Start t (StaticPrefixHealth p m) = StaticPrefixHealth p m"
| "PrefixHealth_Start t (PingPrefixHealth h) = PingPrefixHealth (PingHealth_Start t h)"
| "PrefixHealth_Start t (HTTPPrefixHealth h) = HTTPPrefixHealth (HTTPHealth_Start t h)"

text \<open>One probe of the goroutine: a round-trip time, or a failure.\<close>

definition PingHealth_probe :: "duration option \<Rightarrow> PingHealth \<Rightarrow> PingHealth" where
  "PingHealth_probe rtt p = p\<lparr>pp_lastMetric := (case rtt of None \<Rightarrow> M_INF | Some d \<Rightarrow> DurationToMetric d)\<rparr>"

definition HTTPHealth_probe :: "duration option \<Rightarrow> HTTPHealth \<Rightarrow> HTTPHealth" where
  "HTTPHealth_probe rtt h = h\<lparr>hp_lastMetric := (case rtt of None \<Rightarrow> M_INF | Some d \<Rightarrow> DurationToMetric d)\<rparr>"

definition sameOptionalUint32 :: "u32 option \<Rightarrow> u32 option \<Rightarrow> bool" where
  "sameOptionalUint32 a b =
     (case (a, b) of (Some x, Some y) \<Rightarrow> x = y | (None, None) \<Rightarrow> True | _ \<Rightarrow> False)"

definition prefixHealthDelay :: "duration option \<Rightarrow> RouterTunables \<Rightarrow> duration" where
  "prefixHealthDelay v t = (case v of Some d \<Rightarrow> d | None \<Rightarrow> HealthCheckDelay t)"

definition prefixHealthMaxFailures :: "int option \<Rightarrow> RouterTunables \<Rightarrow> int" where
  "prefixHealthMaxFailures v t = (case v of Some m \<Rightarrow> m | None \<Rightarrow> HealthCheckMaxFailures t)"

fun sameConfig :: "RouterTunables \<Rightarrow> PrefixHealth \<Rightarrow> PrefixHealth \<Rightarrow> bool" where
  "sameConfig t (StaticPrefixHealth p m) (StaticPrefixHealth p' m') \<longleftrightarrow> p = p' \<and> m = m'"
| "sameConfig t (PingPrefixHealth p) (PingPrefixHealth q) \<longleftrightarrow>
     pp_Prefix p = pp_Prefix q \<and> pp_Addr p = pp_Addr q \<and> pp_BindIf p = pp_BindIf q \<and>
     sameOptionalUint32 (pp_Metric p) (pp_Metric q) \<and>
     prefixHealthDelay (pp_Delay p) t = prefixHealthDelay (pp_Delay q) t \<and>
     prefixHealthMaxFailures (pp_MaxFailures p) t = prefixHealthMaxFailures (pp_MaxFailures q) t"
| "sameConfig t (HTTPPrefixHealth p) (HTTPPrefixHealth q) \<longleftrightarrow>
     hp_Prefix p = hp_Prefix q \<and> hp_URL p = hp_URL q \<and>
     sameOptionalUint32 (hp_Metric p) (hp_Metric q) \<and>
     prefixHealthDelay (hp_Delay p) t = prefixHealthDelay (hp_Delay q) t"
| "sameConfig t _ _ \<longleftrightarrow> False"

definition SameConfig :: "PrefixHealth option \<Rightarrow> PrefixHealth option \<Rightarrow> RouterTunables \<Rightarrow> bool" where
  "SameConfig p q t =
     (case (p, q) of
        (Some x, Some y) \<Rightarrow> sameConfig t x y
      | (None, None) \<Rightarrow> True
      | _ \<Rightarrow> False)"

subsection \<open>Nodes and networks\<close>

record NodeCfg =
  nc_Id :: NodeId
  nc_PubKey :: NyPublicKey
  nc_Addresses :: "Addr list"
  nc_Prefixes :: "PrefixHealth list"
  nc_NumericId :: NodeIdNumeric

record RouterCfg =
  rc_NodeCfg :: NodeCfg
  rc_Endpoints :: "DynamicEndpoint list"
  rc_TCPObfuscation :: bool

record ClientCfg =
  cl_NodeCfg :: NodeCfg

record DistributionCfg =
  dist_Key :: NyPublicKey
  dist_Repos :: "string list"

record LocalDistributionCfg =
  ldist_Key :: NyPublicKey
  ldist_Url :: string

record CentralCfg =
  cc_Dist :: "DistributionCfg option"
  cc_Routers :: "RouterCfg list"
  cc_Clients :: "ClientCfg list"
  cc_Graph :: "string list"
  cc_Timestamp :: int
  cc_ExcludeIPs :: "Prefix list"

record LocalCfg =
  lc_Key :: NyPrivateKey
  lc_Id :: NodeId
  lc_Port :: u16
  lc_Dist :: "LocalDistributionCfg option"
  lc_UseSystemRouting :: bool
  lc_NoNetConfigure :: bool
  lc_DnsResolvers :: "string list"
  lc_InterfaceName :: string
  lc_Mtu :: int
  lc_LogPath :: string
  lc_UnexcludeIPs :: "Prefix list"
  lc_ExcludeIPs :: "Prefix list"
  lc_PreUp :: "string list"
  lc_PreDown :: "string list"
  lc_PostUp :: "string list"
  lc_PostDown :: "string list"
  lc_Binds :: "LocalBind list"
  lc_LANDiscovery :: "string list"
  lc_TransitCost :: duration
  lc_TCPCost :: duration
  lc_UDPCost :: duration
  lc_AdvertiseExitNode :: bool
  lc_ExitNode :: NodeId
  lc_ExitNodeDefaultRoute :: bool

abbreviation rc_Id :: "RouterCfg \<Rightarrow> NodeId" where "rc_Id r \<equiv> nc_Id (rc_NodeCfg r)"
abbreviation cl_Id :: "ClientCfg \<Rightarrow> NodeId" where "cl_Id c \<equiv> nc_Id (cl_NodeCfg c)"

definition GetNodes :: "CentralCfg \<Rightarrow> NodeCfg list" where
  "GetNodes c = map rc_NodeCfg (cc_Routers c) @ map cl_NodeCfg (cc_Clients c)"

text \<open>\<^verbatim>\<open>GetPrefixes\<close> ranges over a map it builds: here in the order of insertion.\<close>

definition GetPrefixes :: "CentralCfg \<Rightarrow> Prefix list" where
  "GetPrefixes c =
     map fst (fold (\<lambda>node m. fold (\<lambda>prefix m. mput (PrefixHealth_GetPrefix prefix) True m) (nc_Prefixes node) m)
       (map cl_NodeCfg (cc_Clients c))
       (fold (\<lambda>node m. fold (\<lambda>prefix m. mput (PrefixHealth_GetPrefix prefix) True m) (nc_Prefixes node) m)
         (map rc_NodeCfg (cc_Routers c)) []))"

definition IsRouter :: "CentralCfg \<Rightarrow> NodeId \<Rightarrow> bool" where
  "IsRouter e node \<longleftrightarrow> index_of (\<lambda>cfg. rc_Id cfg = node) (cc_Routers e) \<noteq> None"

definition IsClient :: "CentralCfg \<Rightarrow> NodeId \<Rightarrow> bool" where
  "IsClient e node \<longleftrightarrow> index_of (\<lambda>cfg. cl_Id cfg = node) (cc_Clients e) \<noteq> None"

definition IsNode :: "CentralCfg \<Rightarrow> NodeId \<Rightarrow> bool" where
  "IsNode e node \<longleftrightarrow> IsRouter e node \<or> IsClient e node"

definition TryGetNode :: "CentralCfg \<Rightarrow> NodeId \<Rightarrow> NodeCfg option" where
  "TryGetNode e node =
     (case index_of (\<lambda>cfg. rc_Id cfg = node) (cc_Routers e) of
        None \<Rightarrow> (case index_of (\<lambda>cfg. cl_Id cfg = node) (cc_Clients e) of
                   None \<Rightarrow> None
                 | Some idx \<Rightarrow> Some (cl_NodeCfg (cc_Clients e ! idx)))
      | Some idx \<Rightarrow> Some (rc_NodeCfg (cc_Routers e ! idx)))"

text \<open>The panics of \<^verbatim>\<open>GetNode\<close>, \<^verbatim>\<open>GetRouter\<close> and \<^verbatim>\<open>GetClient\<close> are \<open>None\<close>.\<close>

definition GetNode :: "CentralCfg \<Rightarrow> NodeId \<Rightarrow> NodeCfg option" where
  "GetNode e node = TryGetNode e node"

definition GetRouter :: "CentralCfg \<Rightarrow> NodeId \<Rightarrow> RouterCfg option" where
  "GetRouter e node = map_option ((!) (cc_Routers e)) (index_of (\<lambda>cfg. rc_Id cfg = node) (cc_Routers e))"

definition GetClient :: "CentralCfg \<Rightarrow> NodeId \<Rightarrow> ClientCfg option" where
  "GetClient e node = map_option ((!) (cc_Clients e)) (index_of (\<lambda>cfg. cl_Id cfg = node) (cc_Clients e))"

definition FindNodeBy :: "CentralCfg \<Rightarrow> NyPublicKey \<Rightarrow> NodeId option" where
  "FindNodeBy e pkey =
     (case find (\<lambda>n. nc_PubKey (rc_NodeCfg n) = pkey) (cc_Routers e) of
        Some n \<Rightarrow> Some (rc_Id n)
      | None \<Rightarrow> map_option cl_Id (find (\<lambda>n. nc_PubKey (cl_NodeCfg n) = pkey) (cc_Clients e)))"

text \<open>\<^verbatim>\<open>addr.Prefix(addr.BitLen())\<close>; it panics for the zero address, and a zone is dropped.\<close>

definition AddrToPrefix :: "Addr \<Rightarrow> Prefix option" where
  "AddrToPrefix addr =
     (if Addr_IsValid addr then Some (PrefixFrom (Addr_WithoutZone addr) (int (Addr_BitLen addr))) else None)"

definition expand_node :: "NodeCfg \<Rightarrow> NodeCfg option" where
  "expand_node node =
     fold_opt (\<lambda>addr n. do {
         p \<leftarrow> AddrToPrefix addr;
         Some (n\<lparr>nc_Prefixes := StaticPrefixHealth p 0 # nc_Prefixes n\<rparr>)
       }) (nc_Addresses node) node"

definition ExpandCentralConfig :: "CentralCfg \<Rightarrow> CentralCfg option" where
  "ExpandCentralConfig cfg = do {
     rs \<leftarrow> map_opt (\<lambda>r. map_option (\<lambda>n. r\<lparr>rc_NodeCfg := n\<rparr>) (expand_node (rc_NodeCfg r))) (cc_Routers cfg);
     cs \<leftarrow> map_opt (\<lambda>c. map_option (\<lambda>n. c\<lparr>cl_NodeCfg := n\<rparr>) (expand_node (cl_NodeCfg c))) (cc_Clients cfg);
     Some (cfg\<lparr>cc_Routers := rs, cc_Clients := cs\<rparr>)
   }"

subsection \<open>Lookups\<close>

lemma index_of_find: "find P xs = map_option ((!) xs) (index_of P xs)"
  by (induction xs) (auto simp: option.map_comp comp_def)

lemma TryGetNode_Some:
  assumes "TryGetNode e node = Some n"
  shows "n \<in> set (GetNodes e)" "nc_Id n = node"
  using assms by (auto simp: TryGetNode_def GetNodes_def split: option.splits dest: index_of_Some)

lemma TryGetNode_None: "TryGetNode e node = None \<longleftrightarrow> node \<notin> nc_Id ` set (GetNodes e)"
  by (auto simp: TryGetNode_def GetNodes_def index_of_None split: option.splits dest: index_of_Some)

lemma IsNode_iff: "IsNode e node \<longleftrightarrow> node \<in> nc_Id ` set (GetNodes e)"
  unfolding IsNode_def IsRouter_def IsClient_def index_of_None by (auto simp: GetNodes_def)

lemma fold_put_keys:
  "set (map fst (fold (\<lambda>prefix m. mput (f prefix) True m) ps m)) = f ` set ps \<union> set (map fst m)"
proof (induction ps arbitrary: m)
  case (Cons p ps)
  have "set (map fst (mput (f p) True m)) = insert (f p) (set (map fst m))"
    by (induction m) auto
  then show ?case
    using Cons [of "mput (f p) True m"] by auto
qed simp

lemma fold_nodes_keys:
  "set (map fst (fold (\<lambda>node m. fold (\<lambda>prefix m. mput (PrefixHealth_GetPrefix prefix) True m) (nc_Prefixes node) m) ns m)) =
     (\<Union>n \<in> set ns. PrefixHealth_GetPrefix ` set (nc_Prefixes n)) \<union> set (map fst m)"
proof (induction ns arbitrary: m)
  case (Cons n ns)
  show ?case
    unfolding fold.simps comp_def Cons fold_put_keys by auto
qed simp

lemma set_GetPrefixes:
  "set (GetPrefixes c) = (\<Union>n \<in> set (GetNodes c). PrefixHealth_GetPrefix ` set (nc_Prefixes n))"
  unfolding GetPrefixes_def fold_nodes_keys by (auto simp: GetNodes_def)

text \<open>What decides whether two health checks have the same configuration.\<close>

fun health_key ::
  "RouterTunables \<Rightarrow> PrefixHealth \<Rightarrow> (Prefix \<times> u32) + ((Prefix \<times> Addr \<times> string \<times> u32 option \<times> duration \<times> int) +
     (Prefix \<times> string \<times> u32 option \<times> duration))" where
  "health_key t (StaticPrefixHealth p m) = Inl (p, m)"
| "health_key t (PingPrefixHealth h) =
     Inr (Inl (pp_Prefix h, pp_Addr h, pp_BindIf h, pp_Metric h, prefixHealthDelay (pp_Delay h) t,
       prefixHealthMaxFailures (pp_MaxFailures h) t))"
| "health_key t (HTTPPrefixHealth h) =
     Inr (Inr (hp_Prefix h, hp_URL h, hp_Metric h, prefixHealthDelay (hp_Delay h) t))"

lemma sameOptionalUint32_eq: "sameOptionalUint32 a b \<longleftrightarrow> a = b"
  by (auto simp: sameOptionalUint32_def split: option.splits)

lemma sameConfig_key: "sameConfig t a b \<longleftrightarrow> health_key t a = health_key t b"
  by (cases a; cases b) (auto simp: sameOptionalUint32_eq)

lemma SameConfig_key: "SameConfig p q t \<longleftrightarrow> map_option (health_key t) p = map_option (health_key t) q"
  by (auto simp: SameConfig_def sameConfig_key split: option.splits)

lemma health_key_Start: "health_key t (PrefixHealth_Start t h) = health_key t h"
  by (cases h) (auto simp: PingHealth_Start_def HTTPHealth_Start_def prefixHealthDelay_def prefixHealthMaxFailures_def
      split: option.splits)

lemma health_key_Stop: "health_key t (PrefixHealth_Stop h) = health_key t h"
  by (cases h) auto

lemma health_key_probe:
  "health_key t (PingPrefixHealth (PingHealth_probe d h)) = health_key t (PingPrefixHealth h)"
  "health_key t (HTTPPrefixHealth (HTTPHealth_probe d h')) = health_key t (HTTPPrefixHealth h')"
  by (simp_all add: PingHealth_probe_def HTTPHealth_probe_def)

text \<open>C37: Comparing health-check configurations is an equivalence relation, and running a check
never changes its configuration: starting it, which fills in defaults, stopping it and recording
probe results all leave it equal to what was configured.\<close>

theorem health_config_stable:
  "equivp (\<lambda>p q. SameConfig p q t) \<and>
   SameConfig (Some (PrefixHealth_Start t h)) (Some h) t \<and> SameConfig (Some (PrefixHealth_Stop h)) (Some h) t \<and>
   SameConfig (Some (PingPrefixHealth (PingHealth_probe d pp))) (Some (PingPrefixHealth pp)) t \<and>
   SameConfig (Some (HTTPPrefixHealth (HTTPHealth_probe d hp))) (Some (HTTPPrefixHealth hp)) t"
proof -
  have "equivp (\<lambda>p q. SameConfig p q t)"
    unfolding SameConfig_key by (auto simp: equivp_def fun_eq_iff)
  then show ?thesis
    by (simp add: SameConfig_key health_key_Start health_key_Stop health_key_probe del: health_key.simps)
qed

end
