(* ===== verification/Node_Ids.thy ===== *)
theory Node_Ids
  imports Config
begin

text \<open>
  Numeric node ids (\<^verbatim>\<open>state/node_id_numeric.go\<close>): the labels that address a node in the data
  plane. Pinned ids are honoured, the other nodes fill the gaps in alphabetical order, and the
  errors are exactly the documented ones.
\<close>

subsection \<open>Definitions\<close>

definition InvalidNodeIdNumeric :: NodeIdNumeric where "InvalidNodeIdNumeric = 0"
definition FirstNodeIdNumeric :: NodeIdNumeric where "FirstNodeIdNumeric = 16"
definition MaxNodeIdNumeric :: NodeIdNumeric where "MaxNodeIdNumeric = 0xFFFFF"

record NodeIdMap =
  byNumeric :: "(NodeIdNumeric, NodeId) gomap"
  byString :: "(NodeId, NodeIdNumeric) gomap"

datatype NodeIdError =
    TooManyNodes nat
  | PinBelowMin NodeId NodeIdNumeric
  | PinAboveMax NodeId NodeIdNumeric
  | DuplicatePin NodeId NodeId NodeIdNumeric
  | OutOfIdSpace NodeId

record collected_ids =
  ci_ids :: "NodeId list"
  ci_explicit :: "(NodeId, NodeIdNumeric) gomap"
  ci_seen :: "(NodeId, unit) gomap"

definition collect :: "NodeCfg \<Rightarrow> collected_ids \<Rightarrow> collected_ids" where
  "collect n c =
     (if mget (ci_seen c) (nc_Id n) \<noteq> None then c
      else \<lparr>ci_ids = ci_ids c @ [nc_Id n],
            ci_explicit = (if nc_NumericId n \<noteq> InvalidNodeIdNumeric
                           then mput (nc_Id n) (nc_NumericId n) (ci_explicit c) else ci_explicit c),
            ci_seen = mput (nc_Id n) () (ci_seen c)\<rparr>)"

definition assign :: "NodeId \<Rightarrow> NodeIdNumeric \<Rightarrow> NodeIdMap \<Rightarrow> NodeIdMap" where
  "assign nid numeric m =
     m\<lparr>byNumeric := mput numeric nid (byNumeric m), byString := mput nid numeric (byString m)\<rparr>"

fun pin_ids :: "(NodeId, NodeIdNumeric) gomap \<Rightarrow> NodeId list \<Rightarrow> NodeIdMap \<Rightarrow> NodeIdError + NodeIdMap" where
  "pin_ids explicit [] m = Inr m"
| "pin_ids explicit (nid # ids) m =
     (case mget explicit nid of
        None \<Rightarrow> pin_ids explicit ids m
      | Some numeric \<Rightarrow>
          if numeric < FirstNodeIdNumeric then Inl (PinBelowMin nid numeric)
          else if numeric > MaxNodeIdNumeric then Inl (PinAboveMax nid numeric)
          else case mget (byNumeric m) numeric of
                 Some other \<Rightarrow> Inl (DuplicatePin other nid numeric)
               | None \<Rightarrow> pin_ids explicit ids (assign nid numeric m))"

text \<open>The inner loop: the first free nid at or after \<open>next\<close>.\<close>

function next_free :: "(NodeIdNumeric, NodeId) gomap \<Rightarrow> NodeIdNumeric \<Rightarrow> NodeIdNumeric option" where
  "next_free taken next =
     (if next > MaxNodeIdNumeric then None
      else if mget taken next = None then Some next
      else next_free taken (next + 1))"
  by auto
termination
proof (relation "measure (\<lambda>(taken, next). 0x100000 - unat next)")
  fix taken and "next" :: NodeIdNumeric
  assume "\<not> next > MaxNodeIdNumeric"
  then have "unat next \<le> 0xFFFFF"
    by (simp add: MaxNodeIdNumeric_def word_le_nat_alt not_less)
  moreover from this have "unat (next + 1) = unat next + 1"
    by (simp add: unat_word_ariths)
  ultimately show "((taken, next + 1), (taken, next)) \<in> measure (\<lambda>(taken, next). 0x100000 - unat next)"
    by simp
qed simp

declare next_free.simps [simp del]

fun pack_ids ::
  "(NodeId, NodeIdNumeric) gomap \<Rightarrow> NodeId list \<Rightarrow> NodeIdNumeric \<Rightarrow> NodeIdMap \<Rightarrow> NodeIdError + NodeIdMap" where
  "pack_ids explicit [] next m = Inr m"
| "pack_ids explicit (nid # ids) next m =
     (if mget explicit nid \<noteq> None then pack_ids explicit ids next m
      else case next_free (byNumeric m) next of
             None \<Rightarrow> Inl (OutOfIdSpace nid)
           | Some next \<Rightarrow> pack_ids explicit ids (next + 1) (assign nid next m))"

definition BuildNodeIdMap :: "CentralCfg \<Rightarrow> NodeIdError + NodeIdMap" where
  "BuildNodeIdMap c =
     (let col = fold collect (map rc_NodeCfg (cc_Routers c) @ map cl_NodeCfg (cc_Clients c))
                  \<lparr>ci_ids = [], ci_explicit = [], ci_seen = []\<rparr>;
          ids = sort (ci_ids col)
      in if length ids > unat (MaxNodeIdNumeric - FirstNodeIdNumeric + 1) then Inl (TooManyNodes (length ids))
         else case pin_ids (ci_explicit col) ids \<lparr>byNumeric = [], byString = []\<rparr> of
                Inl e \<Rightarrow> Inl e
              | Inr m \<Rightarrow> pack_ids (ci_explicit col) ids FirstNodeIdNumeric m)"

definition ToNumeric :: "NodeIdMap option \<Rightarrow> NodeId \<Rightarrow> NodeIdNumeric option" where
  "ToNumeric m nid = (case m of None \<Rightarrow> None | Some m \<Rightarrow> mget (byString m) nid)"

definition ToString :: "NodeIdMap option \<Rightarrow> NodeIdNumeric \<Rightarrow> NodeId option" where
  "ToString m b =
     (case m of None \<Rightarrow> None | Some m \<Rightarrow> if b = InvalidNodeIdNumeric then None else mget (byNumeric m) b)"

definition NodeIdMap_Len :: "NodeIdMap option \<Rightarrow> nat" where
  "NodeIdMap_Len m = (case m of None \<Rightarrow> 0 | Some m \<Rightarrow> length (byString m))"

subsection \<open>Collecting the nodes\<close>

text \<open>The id a node pins: that of the first entry with its name.\<close>

definition pin_of :: "NodeCfg list \<Rightarrow> NodeId \<Rightarrow> NodeIdNumeric option" where
  "pin_of ns nid =
     (case find (\<lambda>n. nc_Id n = nid) ns of
        None \<Rightarrow> None
      | Some n \<Rightarrow> if nc_NumericId n = InvalidNodeIdNumeric then None else Some (nc_NumericId n))"

lemma find_append: "find Q (ms @ ns) = (case find Q ms of None \<Rightarrow> find Q ns | Some x \<Rightarrow> Some x)"
  by (induction ms) auto

lemma find_Id: "find (\<lambda>n. nc_Id n = nid) ms = None \<longleftrightarrow> nid \<notin> nc_Id ` set ms"
  by (auto simp: find_None_iff)

lemma pin_of_snoc:
  "pin_of (ms @ [n]) nid =
     (if nid \<in> nc_Id ` set ms then pin_of ms nid
      else if nc_Id n = nid \<and> nc_NumericId n \<noteq> InvalidNodeIdNumeric then Some (nc_NumericId n) else None)"
proof (cases "find (\<lambda>n. nc_Id n = nid) ms")
  case None
  then have "nid \<notin> nc_Id ` set ms" using find_Id by blast
  with None show ?thesis by (simp add: pin_of_def find_append)
next
  case (Some x)
  then have "nid \<in> nc_Id ` set ms" using find_Id by (metis option.distinct(1))
  with Some show ?thesis by (simp add: pin_of_def find_append)
qed

lemma pin_of_none: "nid \<notin> nc_Id ` set ms \<Longrightarrow> pin_of ms nid = None"
  using find_Id [of nid ms] by (simp add: pin_of_def)

definition collected_inv :: "collected_ids \<Rightarrow> NodeCfg list \<Rightarrow> bool" where
  "collected_inv c ms \<longleftrightarrow>
     distinct (ci_ids c) \<and> set (ci_ids c) = nc_Id ` set ms \<and> mget (ci_explicit c) = pin_of ms \<and>
     (\<forall>nid. (mget (ci_seen c) nid = None) = (nid \<notin> nc_Id ` set ms))"

lemma collect_step: "collected_inv c ms \<Longrightarrow> collected_inv (collect n c) (ms @ [n])"
proof (cases "nc_Id n \<in> nc_Id ` set ms")
  case True
  moreover assume "collected_inv c ms"
  ultimately show ?thesis
    by (auto simp: collected_inv_def collect_def pin_of_snoc pin_of_none fun_eq_iff)
next
  case False
  moreover assume "collected_inv c ms"
  ultimately show ?thesis
    using pin_of_none [OF False]
    by (auto simp: collected_inv_def collect_def pin_of_snoc pin_of_none fun_eq_iff)
qed

lemma collect_fold: "collected_inv c ms \<Longrightarrow> collected_inv (fold collect ns c) (ms @ ns)"
proof (induction ns arbitrary: c ms)
  case (Cons n ns)
  then show ?case
    using collect_step [of c ms n] Cons.IH [of "collect n c" "ms @ [n]"] by simp
qed simp

lemma collect_all:
  "collected_inv (fold collect ns \<lparr>ci_ids = [], ci_explicit = [], ci_seen = []\<rparr>) ns"
  using collect_fold [of "\<lparr>ci_ids = [], ci_explicit = [], ci_seen = []\<rparr>" "[]" ns]
  by (simp add: collected_inv_def pin_of_def fun_eq_iff)

subsection \<open>Assignments\<close>

definition in_range :: "NodeIdNumeric \<Rightarrow> bool" where
  "in_range k \<longleftrightarrow> FirstNodeIdNumeric \<le> k \<and> k \<le> MaxNodeIdNumeric"

text \<open>The two maps of an assignment are inverse, for the nodes of \<open>D\<close>, within the id range.\<close>

definition id_inv :: "NodeIdMap \<Rightarrow> NodeId set \<Rightarrow> bool" where
  "id_inv m D \<longleftrightarrow>
     gomap_ok (byString m) \<and> (\<forall>nid k. mget (byString m) nid = Some k \<longleftrightarrow> mget (byNumeric m) k = Some nid) \<and>
     dom (mget (byString m)) = D \<and> (\<forall>nid k. mget (byNumeric m) k = Some nid \<longrightarrow> in_range k)"

lemma id_inv_empty: "id_inv \<lparr>byNumeric = [], byString = []\<rparr> {}"
  by (simp add: id_inv_def)

lemma byString_assign [simp]: "mget (byString (assign nid k m)) x = (if x = nid then Some k else mget (byString m) x)"
  and byNumeric_assign [simp]: "mget (byNumeric (assign nid k m)) j = (if j = k then Some nid else mget (byNumeric m) j)"
  by (simp_all add: assign_def)

lemma id_inv_assign:
  assumes "id_inv m D" and "nid \<notin> D" and "mget (byNumeric m) k = None" and "in_range k"
  shows "id_inv (assign nid k m) (insert nid D)"
proof -
  have inv: "gomap_ok (byString m)" "\<And>x j. mget (byString m) x = Some j \<longleftrightarrow> mget (byNumeric m) j = Some x"
    "dom (mget (byString m)) = D" "\<And>x j. mget (byNumeric m) j = Some x \<Longrightarrow> in_range j"
    using assms(1) by (auto simp: id_inv_def)
  have fresh: "mget (byString m) nid = None"
    using inv(3) assms(2) by blast
  have "mget (byString (assign nid k m)) x = Some j \<longleftrightarrow> mget (byNumeric (assign nid k m)) j = Some x" for x j
    using fresh assms(3) inv(2) [of nid j] inv(2) [of x k] inv(2) [of x j] by auto
  moreover have "dom (mget (byString (assign nid k m))) = insert nid D"
    using inv(3) by (auto simp: dom_def)
  moreover have "in_range j" if "mget (byNumeric (assign nid k m)) j = Some x" for x j
    using that inv(4) assms(4) by (auto split: if_splits)
  moreover have "gomap_ok (byString (assign nid k m))"
    using inv(1) by (simp add: assign_def)
  ultimately show ?thesis
    unfolding id_inv_def by blast
qed

text \<open>The pins of a list of nodes can all be honoured.\<close>

definition pinned :: "(NodeId \<Rightarrow> NodeIdNumeric option) \<Rightarrow> NodeId list \<Rightarrow> NodeId set" where
  "pinned ex ids = {nid \<in> set ids. ex nid \<noteq> None}"

definition unpinned :: "(NodeId \<Rightarrow> NodeIdNumeric option) \<Rightarrow> NodeId list \<Rightarrow> NodeId set" where
  "unpinned ex ids = {nid \<in> set ids. ex nid = None}"

lemma pinned_simps [simp]:
  "pinned ex [] = {}" "pinned ex (nid # ids) = (if ex nid = None then pinned ex ids else insert nid (pinned ex ids))"
  "unpinned ex [] = {}" "unpinned ex (nid # ids) = (if ex nid = None then insert nid (unpinned ex ids) else unpinned ex ids)"
  by (auto simp: pinned_def unpinned_def)

fun pins_ok :: "(NodeId \<Rightarrow> NodeIdNumeric option) \<Rightarrow> NodeId list \<Rightarrow> NodeIdNumeric set \<Rightarrow> bool" where
  "pins_ok ex [] K = True"
| "pins_ok ex (nid # ids) K =
     (case ex nid of None \<Rightarrow> pins_ok ex ids K | Some k \<Rightarrow> in_range k \<and> k \<notin> K \<and> pins_ok ex ids (insert k K))"

lemma pins_ok_iff:
  "distinct ids \<Longrightarrow> pins_ok ex ids K \<longleftrightarrow>
     (\<forall>nid \<in> set ids. \<forall>k. ex nid = Some k \<longrightarrow> in_range k \<and> k \<notin> K) \<and> inj_on ex (pinned ex ids)"
proof (induction ids arbitrary: K)
  case (Cons nid ids)
  show ?case
  proof (cases "ex nid")
    case (Some k)
    have inj: "inj_on ex (insert nid (pinned ex ids)) \<longleftrightarrow>
        inj_on ex (pinned ex ids) \<and> (\<forall>x \<in> set ids. ex x \<noteq> Some k)"
      using Cons.prems Some by (auto simp: pinned_def inj_on_insert image_iff)
    have "pins_ok ex (nid # ids) K \<longleftrightarrow> in_range k \<and> k \<notin> K \<and>
        (\<forall>x \<in> set ids. \<forall>j. ex x = Some j \<longrightarrow> in_range j \<and> j \<notin> insert k K) \<and> inj_on ex (pinned ex ids)"
      using Some Cons by simp
    also have "\<dots> \<longleftrightarrow> (\<forall>x \<in> set (nid # ids). \<forall>j. ex x = Some j \<longrightarrow> in_range j \<and> j \<notin> K) \<and>
        inj_on ex (insert nid (pinned ex ids))"
      unfolding inj using Some by auto
    finally show ?thesis
      using Some by simp
  qed (use Cons in auto)
qed simp

definition taken :: "NodeIdMap \<Rightarrow> NodeIdNumeric set" where
  "taken m = dom (mget (byNumeric m))"

lemma in_taken: "k \<in> taken m \<longleftrightarrow> mget (byNumeric m) k \<noteq> None"
  by (auto simp: taken_def)

lemma taken_assign [simp]: "taken (assign nid k m) = insert k (taken m)"
  by (auto simp: taken_def dom_def)

lemma pin_ids_Inr:
  assumes "pins_ok (mget ex) ids (taken m)" and "id_inv m D" and "distinct ids" and "set ids \<inter> D = {}"
  shows "\<exists>m'. pin_ids ex ids m = Inr m' \<and> id_inv m' (D \<union> pinned (mget ex) ids) \<and>
    (\<forall>nid \<in> D. mget (byString m') nid = mget (byString m) nid) \<and>
    (\<forall>nid \<in> set ids. \<forall>k. mget ex nid = Some k \<longrightarrow> mget (byString m') nid = Some k)"
  using assms
proof (induction ids arbitrary: m D)
  case (Cons nid ids)
  show ?case
  proof (cases "mget ex nid")
    case None
    then show ?thesis
      using Cons.IH [of m D] Cons.prems by simp
  next
    case (Some k)
    have new: "nid \<notin> set ids" "nid \<notin> D" and k: "in_range k" "mget (byNumeric m) k = None"
      using Cons.prems Some by (auto simp: in_taken)
    have "pin_ids ex (nid # ids) m = pin_ids ex ids (assign nid k m)"
      using Some k by (auto simp: in_range_def dest: leD)
    moreover obtain m' where "pin_ids ex ids (assign nid k m) = Inr m'" "id_inv m' (insert nid D \<union> pinned (mget ex) ids)"
      "\<forall>x \<in> insert nid D. mget (byString m') x = mget (byString (assign nid k m)) x"
      "\<forall>x \<in> set ids. \<forall>k. mget ex x = Some k \<longrightarrow> mget (byString m') x = Some k"
      using Cons.IH [OF _ id_inv_assign [OF Cons.prems(2) new(2) k(2,1)]] Cons.prems new Some by auto
    ultimately show ?thesis
      using Some new by auto
  qed
qed simp

lemma pin_ids_Inl: "\<not> pins_ok (mget ex) ids (taken m) \<Longrightarrow> \<exists>e. pin_ids ex ids m = Inl e"
proof (induction ids arbitrary: m)
  case (Cons nid ids)
  show ?case
  proof (cases "mget ex nid")
    case (Some k)
    show ?thesis
    proof (cases "in_range k \<and> mget (byNumeric m) k = None")
      case True
      then show ?thesis
        using Cons.IH [of "assign nid k m"] Cons.prems Some by (auto simp: in_range_def in_taken dest: leD)
    next
      case False
      then show ?thesis
        using Some by (auto simp: in_range_def not_le not_less split: option.splits)
    qed
  qed (use Cons in simp)
qed simp

subsection \<open>Packing\<close>

lemma range_unat:
  "in_range k \<longleftrightarrow> 16 \<le> unat k \<and> unat k \<le> 0xFFFFF"
  by (simp add: in_range_def FirstNodeIdNumeric_def MaxNodeIdNumeric_def word_le_nat_alt)

lemma le_Max_Suc: "k \<le> MaxNodeIdNumeric \<Longrightarrow> unat (k + 1) = unat k + 1"
  by (simp add: MaxNodeIdNumeric_def word_le_nat_alt unat_word_ariths)

text \<open>Every id of the range below \<open>k\<close> is taken.\<close>

definition full :: "(NodeIdNumeric, NodeId) gomap \<Rightarrow> NodeIdNumeric \<Rightarrow> bool" where
  "full t k \<longleftrightarrow> (\<forall>j. in_range j \<and> j < k \<longrightarrow> mget t j \<noteq> None)"

lemma next_free_spec:
  assumes "FirstNodeIdNumeric \<le> k" and "full t k"
  shows "case next_free t k of
      None \<Rightarrow> \<forall>j. in_range j \<longrightarrow> mget t j \<noteq> None
    | Some j \<Rightarrow> in_range j \<and> mget t j = None \<and> full t j"
  using assms
proof (induction t k rule: next_free.induct)
  case (1 t k)
  consider "k > MaxNodeIdNumeric" | "k \<le> MaxNodeIdNumeric" "mget t k = None" | "k \<le> MaxNodeIdNumeric" "mget t k \<noteq> None"
    by (cases "k > MaxNodeIdNumeric"; cases "mget t k") auto
  then show ?case
  proof cases
    case 1
    then show ?thesis
      using "1.prems" by (auto simp: next_free.simps [of t k] full_def in_range_def)
  next
    case 2
    then show ?thesis
      using "1.prems" by (auto simp: next_free.simps [of t k] in_range_def dest: leD)
  next
    case 3
    have "j \<le> k" if "j < k + 1" for j
      using that le_Max_Suc [OF 3(1)] by (simp add: word_less_nat_alt word_le_nat_alt)
    then have "full t (k + 1)"
      using "1.prems"(2) 3(2) unfolding full_def by (metis order_le_less)
    moreover have "FirstNodeIdNumeric \<le> k + 1"
      using "1.prems"(1) le_Max_Suc [OF 3(1)] by (simp add: word_le_nat_alt)
    ultimately show ?thesis
      using "1.IH" 3 by (auto simp: next_free.simps [of t k] dest: leD)
  qed
qed

text \<open>More nodes than ids would be needed to run out of ids.\<close>

lemma id_space:
  assumes "id_inv m D" and "finite D" and "\<forall>j. in_range j \<longrightarrow> mget (byNumeric m) j \<noteq> None"
  shows "0xFFFF0 \<le> card D"
proof -
  define S :: "nat set" where "S = {16..0xFFFFF}"
  define f where "f n = the (mget (byNumeric m) (word_of_nat n))" for n
  have S: "16 \<le> n \<and> n \<le> 0xFFFFF" if "n \<in> S" for n
    using that by (simp add: S_def)
  have small: "unat (word_of_nat n :: NodeIdNumeric) = n" if "n \<in> S" for n
    using S [OF that] by (simp add: unsigned_of_nat take_bit_nat_eq_self_iff)
  have inv: "mget (byString m) (f n) = Some (word_of_nat n)" if n: "n \<in> S" for n
  proof -
    obtain x where "mget (byNumeric m) (word_of_nat n) = Some x"
      using spec [OF assms(3), of "word_of_nat n"] small [OF n] S [OF n] by (auto simp: range_unat)
    then show ?thesis
      using assms(1) by (simp add: id_inv_def f_def)
  qed
  have "inj_on f S"
  proof (rule inj_onI)
    fix a b
    assume ab: "a \<in> S" "b \<in> S" "f a = f b"
    then have "(word_of_nat a :: NodeIdNumeric) = word_of_nat b"
      using inv [OF ab(1)] inv [OF ab(2)] by simp
    then show "a = b"
      using small [OF ab(1)] small [OF ab(2)] by metis
  qed
  moreover have "f ` S \<subseteq> D"
  proof
    fix x assume "x \<in> f ` S"
    then obtain n where "mget (byString m) x = Some (word_of_nat n)"
      using inv by blast
    then show "x \<in> D"
      using assms(1) by (auto simp: id_inv_def)
  qed
  ultimately have "card S \<le> card D"
    using assms(2) by (rule card_inj_on_le)
  then show ?thesis by (simp add: S_def)
qed

lemma pack_ids_Inr:
  assumes "id_inv m D" and "finite D" and "distinct ids" and "unpinned (mget ex) ids \<inter> D = {}"
    and "FirstNodeIdNumeric \<le> k" and "full (byNumeric m) k" and "card D + card (unpinned (mget ex) ids) \<le> 0xFFFF0"
  shows "\<exists>m'. pack_ids ex ids k m = Inr m' \<and> id_inv m' (D \<union> unpinned (mget ex) ids) \<and>
    (\<forall>nid \<in> D. mget (byString m') nid = mget (byString m) nid)"
  using assms
proof (induction ids arbitrary: m D k)
  case (Cons nid ids)
  show ?case
  proof (cases "mget ex nid")
    case (Some p)
    then show ?thesis
      using Cons.IH [of m D k] Cons.prems by simp
  next
    case None
    have fin: "finite (unpinned (mget ex) ids)" "nid \<notin> unpinned (mget ex) ids"
      using Cons.prems(3) by (auto simp: unpinned_def)
    have cap: "card D + (card (unpinned (mget ex) ids) + 1) \<le> 0xFFFF0"
      using Cons.prems(7) None fin by simp
    then obtain j where j: "next_free (byNumeric m) k = Some j" "in_range j" "mget (byNumeric m) j = None"
      "full (byNumeric m) j"
      using next_free_spec [OF Cons.prems(5,6)] id_space [OF Cons.prems(1,2)] by (fastforce split: option.splits)
    have nid: "nid \<notin> D"
      using Cons.prems(4) None by simp
    have inv: "id_inv (assign nid j m) (insert nid D)"
      by (rule id_inv_assign [OF Cons.prems(1) nid j(3,2)])
    have jm: "j \<le> MaxNodeIdNumeric"
      using j(2) by (simp add: in_range_def)
    have "x \<le> j" if "x < j + 1" for x
      using that le_Max_Suc [OF jm] by (simp add: word_less_nat_alt word_le_nat_alt)
    then have "full (byNumeric (assign nid j m)) (j + 1)"
      using j(4) unfolding full_def byNumeric_assign by (metis option.distinct(1) order_le_less)
    moreover have "FirstNodeIdNumeric \<le> j + 1"
      using j(2) le_Max_Suc [OF jm] by (simp add: in_range_def word_le_nat_alt)
    ultimately obtain m' where "pack_ids ex ids (j + 1) (assign nid j m) = Inr m'"
      "id_inv m' (insert nid D \<union> unpinned (mget ex) ids)"
      "\<forall>x \<in> insert nid D. mget (byString m') x = mget (byString (assign nid j m)) x"
      using Cons.IH [of "assign nid j m" "insert nid D" "j + 1"] inv Cons.prems(2,3,4) None nid fin cap by auto
    then show ?thesis
      using None j(1) nid by auto
  qed
qed simp

subsection \<open>The id map of a network\<close>

definition node_ids :: "CentralCfg \<Rightarrow> NodeId set" where
  "node_ids c = nc_Id ` set (GetNodes c)"

lemma BuildNodeIdMap_spec:
  obtains ids ex where "distinct ids" "set ids = node_ids c" "mget ex = pin_of (GetNodes c)"
    "sorted ids"
    "BuildNodeIdMap c =
       (if 0xFFFF0 < length ids then Inl (TooManyNodes (length ids))
        else case pin_ids ex ids \<lparr>byNumeric = [], byString = []\<rparr> of
               Inl e \<Rightarrow> Inl e
             | Inr m \<Rightarrow> pack_ids ex ids FirstNodeIdNumeric m)"
proof -
  let ?col = "fold collect (GetNodes c) \<lparr>ci_ids = [], ci_explicit = [], ci_seen = []\<rparr>"
  have inv: "collected_inv ?col (GetNodes c)"
    by (rule collect_all)
  have cap: "unat (MaxNodeIdNumeric - FirstNodeIdNumeric + 1) = 0xFFFF0"
    by (simp add: MaxNodeIdNumeric_def FirstNodeIdNumeric_def)
  show ?thesis
    by (rule that [of "sort (ci_ids ?col)" "ci_explicit ?col"])
      (use inv in \<open>simp_all add: collected_inv_def node_ids_def BuildNodeIdMap_def GetNodes_def [symmetric] Let_def cap\<close>)
qed

lemma pinned_unpinned: "pinned ex ids \<union> unpinned ex ids = set ids" "pinned ex ids \<inter> unpinned ex ids = {}"
  "finite (pinned ex ids)" "finite (unpinned ex ids)"
  by (auto simp: pinned_def unpinned_def)

text \<open>The pinned ids are in range and no two nodes pin the same one.\<close>

definition pins_fit :: "CentralCfg \<Rightarrow> bool" where
  "pins_fit c \<longleftrightarrow> (\<forall>nid k. pin_of (GetNodes c) nid = Some k \<longrightarrow> in_range k) \<and>
     inj_on (pin_of (GetNodes c)) (dom (pin_of (GetNodes c)))"

lemma BuildNodeIdMap_result:
  "case BuildNodeIdMap c of
      Inl e \<Rightarrow> \<not> (card (node_ids c) \<le> 0xFFFF0 \<and> pins_fit c)
    | Inr m \<Rightarrow> card (node_ids c) \<le> 0xFFFF0 \<and> pins_fit c \<and> id_inv m (node_ids c) \<and> (\<forall>nid k. pin_of (GetNodes c) nid = Some k \<longrightarrow> mget (byString m) nid = Some k)"
proof -
  obtain ids ex where ids: "distinct ids" "set ids = node_ids c" and ex: "mget ex = pin_of (GetNodes c)"
    and b: "BuildNodeIdMap c =
       (if 0xFFFF0 < length ids then Inl (TooManyNodes (length ids))
        else case pin_ids ex ids \<lparr>byNumeric = [], byString = []\<rparr> of
               Inl e \<Rightarrow> Inl e
             | Inr m \<Rightarrow> pack_ids ex ids FirstNodeIdNumeric m)"
    by (rule BuildNodeIdMap_spec)
  let ?m = "\<lparr>byNumeric = [], byString = []\<rparr>" and ?ex = "pin_of (GetNodes c)"
  have len: "length ids = card (node_ids c)"
    using ids distinct_card by metis
  have sub: "dom ?ex \<subseteq> node_ids c"
    using pin_of_none [of _ "GetNodes c"] unfolding node_ids_def by (metis domIff subsetI)
  then have pn: "pinned ?ex ids = dom ?ex"
    using ids(2) by (auto simp: pinned_def)
  have pins: "pins_ok ?ex ids (taken ?m) \<longleftrightarrow> pins_fit c"
    unfolding pins_ok_iff [OF ids(1)] pn pins_fit_def using sub ids(2) by (auto simp: taken_def)
  show ?thesis
  proof (cases "0xFFFF0 < length ids \<or> \<not> pins_ok ?ex ids (taken ?m)")
    case True
    then obtain e where "BuildNodeIdMap c = Inl e"
      using b pin_ids_Inl [of ex ids ?m] by (fastforce simp: ex)
    then show ?thesis
      using True by (auto simp: pins len)
  next
    case False
    then obtain m where m: "pin_ids ex ids ?m = Inr m" "id_inv m (pinned ?ex ids)"
      "\<forall>nid \<in> set ids. \<forall>k. ?ex nid = Some k \<longrightarrow> mget (byString m) nid = Some k"
      using pin_ids_Inr [of ex ids ?m "{}"] id_inv_empty ids(1) by (auto simp: ex)
    have "card (pinned ?ex ids) + card (unpinned ?ex ids) = length ids"
      using card_Un_disjoint [of "pinned ?ex ids" "unpinned ?ex ids"] pinned_unpinned [of ?ex ids]
        distinct_card [OF ids(1)] by simp
    moreover have "full (byNumeric m) FirstNodeIdNumeric"
      by (auto simp: full_def in_range_def dest: leD)
    ultimately obtain m' where m': "pack_ids ex ids FirstNodeIdNumeric m = Inr m'"
      "id_inv m' (pinned ?ex ids \<union> unpinned ?ex ids)"
      "\<forall>nid \<in> pinned ?ex ids. mget (byString m') nid = mget (byString m) nid"
      using pack_ids_Inr [OF m(2), of ids ex FirstNodeIdNumeric] False ids(1) pinned_unpinned [of ?ex ids]
      by (auto simp: ex)
    have "mget (byString m') nid = Some k" if "?ex nid = Some k" for nid k
    proof -
      have "nid \<in> dom ?ex"
        using that by blast
      then show ?thesis
        using m(3) m'(3) that sub unfolding pn ids(2) by (metis subsetD)
    qed
    then show ?thesis
      using b m(1) m'(1,2) False ids(2) pinned_unpinned(1) [of ?ex ids] by (simp add: ex pins len)
  qed
qed

text \<open>C35: Every node of the network gets exactly one numeric id and every assigned id belongs to
exactly one node, so translating a node to its label and back is the identity both ways; all ids
lie between 16 and the largest 20-bit label, and a pinned id is honoured.\<close>

theorem node_ids_bijective:
  assumes "BuildNodeIdMap c = Inr m"
  shows "(\<forall>nid k. ToNumeric (Some m) nid = Some k \<longleftrightarrow> ToString (Some m) k = Some nid) \<and>
    (\<forall>nid. (\<exists>k. ToNumeric (Some m) nid = Some k) \<longleftrightarrow> IsNode c nid) \<and>
    (\<forall>nid k. ToNumeric (Some m) nid = Some k \<longrightarrow> 16 \<le> k \<and> k \<le> 0xFFFFF) \<and>
    (\<forall>nid k. pin_of (GetNodes c) nid = Some k \<longrightarrow> ToNumeric (Some m) nid = Some k)"
proof -
  have inv: "id_inv m (node_ids c)" and pin: "\<forall>nid k. pin_of (GetNodes c) nid = Some k \<longrightarrow> mget (byString m) nid = Some k"
    using BuildNodeIdMap_result [of c] assms by simp_all
  have both: "mget (byString m) nid = Some k \<longleftrightarrow> mget (byNumeric m) k = Some nid" for nid k
    using inv by (simp add: id_inv_def)
  have range: "in_range k" if "mget (byNumeric m) k = Some nid" for nid k
    using inv that unfolding id_inv_def by blast
  have "k \<noteq> InvalidNodeIdNumeric" if k: "mget (byNumeric m) k = Some nid" for nid k
    using range [OF k] by (auto simp: range_unat InvalidNodeIdNumeric_def)
  then have 1: "ToNumeric (Some m) nid = Some k \<longleftrightarrow> ToString (Some m) k = Some nid" for nid k
    by (auto simp: ToNumeric_def ToString_def both)
  have 2: "(\<exists>k. ToNumeric (Some m) nid = Some k) \<longleftrightarrow> IsNode c nid" for nid
  proof -
    have "nid \<in> dom (mget (byString m)) \<longleftrightarrow> IsNode c nid"
      using inv by (simp add: id_inv_def IsNode_iff node_ids_def)
    then show ?thesis
      by (simp add: ToNumeric_def dom_def)
  qed
  have 3: "16 \<le> k \<and> k \<le> 0xFFFFF" if "ToNumeric (Some m) nid = Some k" for nid k
    using range that by (simp add: ToNumeric_def both in_range_def FirstNodeIdNumeric_def MaxNodeIdNumeric_def)
  show ?thesis
    using 1 2 3 pin by (auto simp: ToNumeric_def)
qed

definition node_x :: "NodeId \<Rightarrow> NodeIdNumeric \<Rightarrow> RouterCfg" where
  "node_x nid k =
     \<lparr>rc_NodeCfg = \<lparr>nc_Id = nid, nc_PubKey = [], nc_Addresses = [], nc_Prefixes = [], nc_NumericId = k\<rparr>,
      rc_Endpoints = [], rc_TCPObfuscation = False\<rparr>"

definition network_1 :: CentralCfg where
  "network_1 = \<lparr>cc_Dist = None, cc_Routers = [node_x ''b'' 0, node_x ''a'' 0, node_x ''c'' 16], cc_Clients = [],
     cc_Graph = [], cc_Timestamp = 0, cc_ExcludeIPs = []\<rparr>"

lemma network_1_ids:
  "BuildNodeIdMap network_1 =
     Inr \<lparr>byNumeric = [(16, ''c''), (17, ''a''), (18, ''b'')], byString = [(''c'', 16), (''a'', 17), (''b'', 18)]\<rparr>"
proof -
  have "sort [''b'', ''a'', ''c''] = [''a'', ''b'', ''c'']"
    by code_simp
  then show ?thesis
    by (simp add: BuildNodeIdMap_def network_1_def node_x_def collect_def InvalidNodeIdNumeric_def
        FirstNodeIdNumeric_def MaxNodeIdNumeric_def assign_def next_free.simps)
qed

lemma node_ids_bijective_witness:
  "\<exists>m. BuildNodeIdMap network_1 = Inr m \<and> ToString (Some m) 16 = Some ''c'' \<and> IsNode network_1 ''c''"
proof -
  obtain m where m: "BuildNodeIdMap network_1 = Inr m" "ToNumeric (Some m) ''c'' = Some 16"
    using network_1_ids by (simp add: ToNumeric_def)
  then show ?thesis
    using node_ids_bijective [OF m(1)] by blast
qed

text \<open>C36: Numeric ids are assigned exactly when they can be: the map is built if and only if there
are no more nodes than ids, every pinned id is in range and no two nodes pin the same id; packing
the remaining nodes never runs out of ids.\<close>

theorem node_ids_assigned:
  "(\<exists>m. BuildNodeIdMap c = Inr m) \<longleftrightarrow> card (node_ids c) \<le> 0xFFFF0 \<and> pins_fit c"
  using BuildNodeIdMap_result [of c] by (cases "BuildNodeIdMap c") auto

end
