(* ===== verification/Graph_Config.thy ===== *)
theory Graph_Config
  imports Node_Ids "HOL-Library.Product_Lexorder"
begin

text \<open>
  The graph of a network's configuration (\<^verbatim>\<open>ParseGraph\<close> and \<^verbatim>\<open>GetPeers\<close> of \<^verbatim>\<open>state/config.go\<close>): groups are
  named lists of nodes and groups, every other line connects the members of different entries of a
  list. Lines are ASCII, for which \<^verbatim>\<open>strings.TrimSpace\<close> and \<^verbatim>\<open>strings.ToLower\<close> work byte by byte.
  \<open>rng\<close> gives the order in which Go ranges over a map, which is not fixed; the loop that resolves
  groups is a partial function, so not returning is \<open>None\<close>.
\<close>

subsection \<open>Strings\<close>

definition is_space :: "char \<Rightarrow> bool" where
  "is_space c \<longleftrightarrow> of_char c \<in> {9, 10, 11, 12, 13, 32 :: nat}"

definition TrimSpace :: "string \<Rightarrow> string" where
  "TrimSpace s = rev (dropWhile is_space (rev (dropWhile is_space s)))"

definition lower_char :: "char \<Rightarrow> char" where
  "lower_char c = (let n = of_char c :: nat in if 65 \<le> n \<and> n \<le> 90 then char_of (n + 32) else c)"

definition ToLower :: "string \<Rightarrow> string" where
  "ToLower = map lower_char"

text \<open>\<^verbatim>\<open>strings.Split\<close> for a separator of one character.\<close>

fun Split :: "char \<Rightarrow> string \<Rightarrow> string list" where
  "Split sep [] = [[]]"
| "Split sep (c # s) =
     (if c = sep then [] # Split sep s
      else case Split sep s of [] \<Rightarrow> [[c]] | w # ws \<Rightarrow> (c # w) # ws)"

subsection \<open>The parser\<close>

datatype GraphError =
    GroupEquals string
  | GroupIsNode string
  | DuplicateGroup string
  | InvalidSymbol string
  | EmptyList
  | InvalidPairing "string list"
  | CycleDetected "string list"

fun parse_symbols :: "string list \<Rightarrow> string list \<Rightarrow> string list \<Rightarrow> GraphError + string list" where
  "parse_symbols validSymbols [] line = Inr line"
| "parse_symbols validSymbols (s # spl) line =
     (let x = TrimSpace s
      in if x = [] then parse_symbols validSymbols spl line
         else if x \<notin> set validSymbols then Inl (InvalidSymbol x)
         else parse_symbols validSymbols spl (line @ [x]))"

definition parseSymbolList :: "string \<Rightarrow> string list \<Rightarrow> GraphError + string list" where
  "parseSymbolList s validSymbols =
     (case parse_symbols validSymbols (Split CHR '','' (TrimSpace s)) [] of
        Inl err \<Rightarrow> Inl err
      | Inr line \<Rightarrow> if line = [] then Inl EmptyList else Inr (sort line))"

definition MakeSortedPair :: "'a::linorder \<Rightarrow> 'a \<Rightarrow> 'a \<times> 'a" where
  "MakeSortedPair a b = (if a < b then (a, b) else (b, a))"

text \<open>Pairs that compare equal are equal, so any sorting algorithm gives this result.\<close>

definition SortPairs :: "('a::linorder \<times> 'a) list \<Rightarrow> ('a \<times> 'a) list" where
  "SortPairs pairs = sort pairs"

definition graph_line :: "string \<Rightarrow> string" where
  "graph_line line = ToLower (TrimSpace line)"

text \<open>Pass 0: the names of the groups.\<close>

fun collect_symbols :: "string list \<Rightarrow> string list \<Rightarrow> string list \<Rightarrow> GraphError + string list" where
  "collect_symbols nodes [] symbols = Inr symbols"
| "collect_symbols nodes (line # graph) symbols =
     (let line = graph_line line
      in if CHR ''='' \<in> set line
         then let spl = Split CHR ''='' line
              in if length spl \<noteq> 2 then Inl (GroupEquals line)
                 else let grp = TrimSpace (spl ! 0)
                      in if grp \<in> set nodes then Inl (GroupIsNode grp)
                         else collect_symbols nodes graph (symbols @ [grp])
         else collect_symbols nodes graph symbols)"

text \<open>Pass 1: the groups, what they depend on, the nodes they list and the pairs of names.\<close>

record GraphState =
  gr_groups :: "(string, string list) gomap"
  gr_topo :: "(string, string list) gomap"
  gr_expansion :: "(string, string list) gomap"
  gr_pairings :: "(string \<times> string) list"

definition entries :: "(string, string list) gomap \<Rightarrow> string \<Rightarrow> string list" where
  "entries m k = (case mget m k of None \<Rightarrow> [] | Some v \<Rightarrow> v)"

definition track :: "string list \<Rightarrow> string \<Rightarrow> string \<Rightarrow> string list \<times> (string, string list) gomap \<Rightarrow>
    string list \<times> (string, string list) gomap" where
  "track nodes grp l = (\<lambda>(deps, expansion).
     if l \<notin> set nodes then (deps @ [l], expansion)
     else (deps, mput grp (entries expansion grp @ [l]) expansion))"

definition parse_group :: "string list \<Rightarrow> string list \<Rightarrow> string \<Rightarrow> GraphState \<Rightarrow> GraphError + GraphState" where
  "parse_group nodes symbols line st =
     (let spl = Split CHR ''='' line;
          grp = TrimSpace (spl ! 0)
      in if mget (gr_groups st) grp \<noteq> None then Inl (DuplicateGroup grp)
         else case parseSymbolList (spl ! 1) symbols of
                Inl err \<Rightarrow> Inl err
              | Inr lst \<Rightarrow>
                  let (deps, expansion) = fold (track nodes grp) lst ([], gr_expansion st);
                      deps = remdups_adj (sort deps)
                  in Inr (st\<lparr>gr_topo := mput grp deps (gr_topo st), gr_groups := mput grp lst (gr_groups st),
                             gr_expansion := expansion\<rparr>))"

definition interconnect :: "string \<Rightarrow> string list \<times> (string \<times> string) list \<Rightarrow> string list \<times> (string \<times> string) list" where
  "interconnect name = (\<lambda>(interconnectNodes, pairs).
     (interconnectNodes @ [name], pairs @ map (\<lambda>node. MakeSortedPair node name) interconnectNodes))"

definition parse_pairing :: "string list \<Rightarrow> string \<Rightarrow> GraphState \<Rightarrow> GraphError + GraphState" where
  "parse_pairing symbols line st =
     (case parseSymbolList line symbols of
        Inl err \<Rightarrow> Inl err
      | Inr names \<Rightarrow>
          if length names < 2 then Inl (InvalidPairing names)
          else let (_, pairs) = fold interconnect names ([], gr_pairings st)
               in Inr (st\<lparr>gr_pairings := remdups_adj (SortPairs pairs)\<rparr>))"

fun parse_lines :: "string list \<Rightarrow> string list \<Rightarrow> string list \<Rightarrow> GraphState \<Rightarrow> GraphError + GraphState" where
  "parse_lines nodes symbols [] st = Inr st"
| "parse_lines nodes symbols (line # graph) st =
     (let line = graph_line line
      in case (if CHR ''='' \<in> set line then parse_group nodes symbols line st else parse_pairing symbols line st) of
           Inl err \<Rightarrow> Inl err
         | Inr st \<Rightarrow> parse_lines nodes symbols graph st)"

text \<open>Pass 2: a group without dependencies is resolved and put into the groups that depend on it. A free
group with the empty name is not told from the absence of one.\<close>

definition resolve_group :: "string \<Rightarrow> string \<times> string list \<Rightarrow>
    (string, string list) gomap \<times> (string, string list) gomap \<Rightarrow>
    (string, string list) gomap \<times> (string, string list) gomap" where
  "resolve_group grp = (\<lambda>(k, deps) (topo, expansion).
     if grp \<in> set deps
     then (mput k (filter (\<lambda>dep. dep \<noteq> grp) deps) topo,
           mput k (remdups_adj (sort (entries expansion k @ entries expansion grp))) expansion)
     else (topo, expansion))"

type_synonym map_range = "(string, string list) gomap \<Rightarrow> (string, string list) gomap"

partial_function (option) expand_groups ::
  "map_range \<Rightarrow> (string, string list) gomap \<Rightarrow> (string, string list) gomap \<Rightarrow>
   (GraphError + (string, string list) gomap) option" where
  "expand_groups rng topo expansion =
     (if topo = [] then Some (Inr expansion)
      else let grp = (case find (\<lambda>(k, v). v = []) (rng topo) of None \<Rightarrow> [] | Some (k, v) \<Rightarrow> k)
           in if grp = [] then Some (Inl (CycleDetected (sort (map fst topo))))
              else let topo = mdel grp topo;
                       (topo, expansion) = fold (resolve_group grp) (rng topo) (topo, expansion)
                   in expand_groups rng topo expansion)"

declare expand_groups.simps [code]

text \<open>Pass 3: the pairs of nodes.\<close>

definition members :: "string list \<Rightarrow> (string, string list) gomap \<Rightarrow> string \<Rightarrow> NodeId list" where
  "members nodes expansion x = (if x \<in> set nodes then [x] else entries expansion x)"

definition rewrite_pair :: "string list \<Rightarrow> (string, string list) gomap \<Rightarrow> string \<times> string \<Rightarrow>
    (NodeId \<times> NodeId) list \<Rightarrow> (NodeId \<times> NodeId) list" where
  "rewrite_pair nodes expansion = (\<lambda>(v1, v2) pairings.
     remdups_adj (SortPairs (pairings @
       concat (map (\<lambda>x1. map (MakeSortedPair x1) (filter (\<lambda>y1. x1 \<noteq> y1) (members nodes expansion v2)))
         (members nodes expansion v1)))))"

definition ParseGraph ::
  "map_range \<Rightarrow> string list \<Rightarrow> string list \<Rightarrow> (GraphError + (NodeId \<times> NodeId) list) option" where
  "ParseGraph rng graph nodes =
     (case collect_symbols nodes graph nodes of
        Inl err \<Rightarrow> Some (Inl err)
      | Inr symbols \<Rightarrow>
          case parse_lines nodes (remdups_adj (sort symbols)) graph
                 \<lparr>gr_groups = [], gr_topo = [], gr_expansion = [], gr_pairings = []\<rparr> of
            Inl err \<Rightarrow> Some (Inl err)
          | Inr st \<Rightarrow> do {
              res \<leftarrow> expand_groups rng (gr_topo st) (gr_expansion st);
              Some (case res of
                      Inl err \<Rightarrow> Inl err
                    | Inr expansion \<Rightarrow> Inr (fold (rewrite_pair nodes expansion) (gr_pairings st) []))
            })"

definition peer_of :: "NodeId \<Rightarrow> NodeId \<times> NodeId \<Rightarrow> NodeId option" where
  "peer_of curId edge =
     (let neighNode = [];
          neighNode = (if fst edge = curId then snd edge else neighNode);
          neighNode = (if snd edge = curId then fst edge else neighNode)
      in if neighNode \<noteq> curId \<and> neighNode \<noteq> [] then Some neighNode else None)"

text \<open>A graph that does not parse is a panic.\<close>

definition GetPeers :: "map_range \<Rightarrow> CentralCfg \<Rightarrow> NodeId \<Rightarrow> NodeId list option" where
  "GetPeers rng e curId =
     (let allNodes = map (\<lambda>node. nc_Id (rc_NodeCfg node)) (cc_Routers e) @ map (\<lambda>node. cl_Id node) (cc_Clients e)
      in case ParseGraph rng (cc_Graph e) allNodes of
           Some (Inr graph) \<Rightarrow> Some (List.map_filter (peer_of curId) graph)
         | _ \<Rightarrow> None)"

end
