(* ===== verification/Graph_Resolve.thy ===== *)
theory Graph_Resolve
  imports Graph_Config "HOL-Library.Multiset"
begin

text \<open>
  The loop of \<^verbatim>\<open>ParseGraph\<close> that resolves groups: it ends for every order of map iteration, it fails exactly
  for a group with the empty name and for groups that depend on each other, and otherwise gives every
  group the nodes it stands for.
\<close>

subsection \<open>Iteration orders\<close>

definition orders :: "map_range \<Rightarrow> bool" where
  "orders rng \<longleftrightarrow> (\<forall>m. mset (rng m) = mset m)"

lemma orders_map:
  assumes "orders rng" "gomap_ok m"
  shows "gomap_ok (rng m)" "mget (rng m) = mget m" "set (rng m) = set m"
proof -
  have eq: "mset (rng m) = mset m" using assms(1) by (simp add: orders_def)
  then show s: "set (rng m) = set m" by (rule mset_eq_setD)
  have "mset (map fst (rng m)) = mset (map fst m)" using eq by simp
  then show ok: "gomap_ok (rng m)" using assms(2) mset_eq_imp_distinct_iff by blast
  show "mget (rng m) = mget m" using map_of_inject_set [OF ok assms(2)] s by simp
qed

subsection \<open>Resolving groups\<close>

lemma entries_simps [simp]:
  "entries (mput k v m) k' = (if k' = k then v else entries m k')" "entries [] k = []"
  by (simp_all add: entries_def)

definition resolved :: "string \<Rightarrow> map_range \<Rightarrow> (string, string list) gomap \<Rightarrow> (string, string list) gomap \<Rightarrow>
    (string, string list) gomap \<times> (string, string list) gomap" where
  "resolved grp rng topo expansion =
     fold (resolve_group grp) (rng (mdel grp topo)) (mdel grp topo, expansion)"

lemma resolved_look:
  assumes "orders rng" "gomap_ok topo"
  shows "(mget (fst (resolved grp rng topo ex)) k, entries (snd (resolved grp rng topo ex)) k) =
    (case mget (mdel grp topo) k of
       None \<Rightarrow> (None, entries ex k)
     | Some deps \<Rightarrow>
         if grp \<in> set deps
         then (Some (filter (\<lambda>dep. dep \<noteq> grp) deps), remdups_adj (sort (entries ex k @ entries ex grp)))
         else (Some deps, entries ex k))"
proof -
  let ?T = "mdel grp topo"
  let ?look = "\<lambda>a k. (mget (fst a) k, entries (snd a) k)"
  let ?g = "\<lambda>k deps (t, es). if grp \<in> set deps
    then (Some (filter (\<lambda>dep. dep \<noteq> grp) deps), remdups_adj (sort (es @ entries ex grp))) else (t, es)"
  have ok: "gomap_ok ?T" using assms(2) by simp
  note r = orders_map [OF assms(1) ok]
  have ne: "k \<noteq> grp" if "(k, v) \<in> set (rng ?T)" for k v
  proof
    assume "k = grp"
    moreover have "mget ?T k = Some v" using map_of_is_SomeI [OF ok that [unfolded r(3)]] .
    ultimately show False by simp
  qed
  have "?look (fold (resolve_group grp) (rng ?T) (?T, ex)) k =
    (case mget (rng ?T) k of None \<Rightarrow> ?look (?T, ex) k | Some v \<Rightarrow> ?g k v (?look (?T, ex) k))"
    by (rule fold_keys_inv [where I = "\<lambda>a. entries (snd a) grp = entries ex grp"], rule r(1))
      (use ne in \<open>auto simp: resolve_group_def split: prod.splits\<close>)
  then show ?thesis by (simp add: resolved_def r(2) split: option.splits)
qed

lemma resolved_ok: "gomap_ok topo \<Longrightarrow> gomap_ok (fst (resolved grp rng topo ex))"
  unfolding resolved_def by (rule fold_inv) (auto simp: resolve_group_def)

lemma resolved_topo:
  assumes "orders rng" "gomap_ok topo"
  shows "mget (fst (resolved grp rng topo ex)) k =
    (if k = grp then None else map_option (filter (\<lambda>dep. dep \<noteq> grp)) (mget topo k))"
  using arg_cong [OF resolved_look [OF assms, of grp ex k], of fst]
  by (auto split: option.splits if_splits intro: filter_True [symmetric])

lemma resolved_entries:
  assumes "orders rng" "gomap_ok topo"
  shows "set (entries (snd (resolved grp rng topo ex)) k) =
    set (entries ex k) \<union>
    (if k \<noteq> grp \<and> (\<exists>deps. mget topo k = Some deps \<and> grp \<in> set deps) then set (entries ex grp) else {})"
  using arg_cong [OF resolved_look [OF assms, of grp ex k], of snd]
  by (auto split: option.splits if_splits)

lemma resolved_smaller:
  assumes "orders rng" "gomap_ok topo" "mget topo grp \<noteq> None"
  shows "card (dom (mget (fst (resolved grp rng topo ex)))) < card (dom (mget topo))"
proof (rule psubset_card_mono)
  show "dom (mget (fst (resolved grp rng topo ex))) \<subset> dom (mget topo)"
    using assms(3) by (auto simp: resolved_topo [OF assms(1,2)] dom_def split: if_splits)
qed (rule finite_dom_map_of)

text \<open>A group that can be resolved, if there is one.\<close>

definition free_group :: "map_range \<Rightarrow> (string, string list) gomap \<Rightarrow> string" where
  "free_group rng topo = (case find (\<lambda>(k, v). v = []) (rng topo) of None \<Rightarrow> [] | Some (k, v) \<Rightarrow> k)"

lemma expand_groups_step:
  "expand_groups rng topo ex =
     (if topo = [] then Some (Inr ex)
      else if free_group rng topo = [] then Some (Inl (CycleDetected (sort (map fst topo))))
      else expand_groups rng (fst (resolved (free_group rng topo) rng topo ex))
             (snd (resolved (free_group rng topo) rng topo ex)))"
  by (subst expand_groups.simps) (simp add: free_group_def resolved_def Let_def case_prod_beta)

lemma free_group:
  assumes "orders rng" "gomap_ok topo"
  shows "free_group rng topo \<noteq> [] \<Longrightarrow> mget topo (free_group rng topo) = Some []"
    "free_group rng topo = [] \<Longrightarrow> mget topo [] = Some [] \<or> (\<forall>k. mget topo k \<noteq> Some [])"
proof -
  note r = orders_map [OF assms]
  have *: "case find (\<lambda>(k, v). v = []) (rng topo) of
      None \<Rightarrow> \<forall>k. mget topo k \<noteq> Some [] | Some (k, v) \<Rightarrow> mget topo k = Some []"
  proof (cases "find (\<lambda>(k, v). v = []) (rng topo)")
    case None
    then have "\<forall>k. (k, []) \<notin> set topo" using r(3) by (auto simp: find_None_iff)
    then show ?thesis using None by (auto dest: map_of_SomeD)
  next
    case (Some kv)
    then have "kv \<in> set (rng topo)" "snd kv = []" by (auto simp: find_Some_iff in_set_conv_nth)
    then show ?thesis using Some r(3) assms(2) by (cases kv) auto
  qed
  show "free_group rng topo \<noteq> [] \<Longrightarrow> mget topo (free_group rng topo) = Some []"
    using * by (auto simp: free_group_def split: option.splits)
  show "free_group rng topo = [] \<Longrightarrow> mget topo [] = Some [] \<or> (\<forall>k. mget topo k \<noteq> Some [])"
    using * by (auto simp: free_group_def split: option.splits)
qed

text \<open>Every set of unresolved groups has one that depends on none of the others.\<close>

definition resolvable :: "(string, string list) gomap \<Rightarrow> bool" where
  "resolvable topo \<longleftrightarrow>
     (\<forall>K. K \<subseteq> dom (mget topo) \<and> K \<noteq> {} \<longrightarrow> (\<exists>k\<in>K. set (entries topo k) \<inter> K = {}))"

lemma resolvableD:
  assumes "resolvable topo" "K \<subseteq> dom (mget topo)" "K \<noteq> {}"
  obtains k where "k \<in> K" "set (entries topo k) \<inter> K = {}"
  using assms unfolding resolvable_def by metis

lemma resolvable_step:
  assumes "orders rng" "gomap_ok topo" "mget topo grp = Some []"
  shows "resolvable (fst (resolved grp rng topo ex)) \<longleftrightarrow> resolvable topo"
proof -
  let ?T = "fst (resolved grp rng topo ex)"
  note t = resolved_topo [OF assms(1,2), of grp ex]
  have d: "dom (mget ?T) = dom (mget topo) - {grp}" by (auto simp: t dom_def split: if_splits)
  have e: "set (entries ?T k) \<inter> K = set (entries topo k) \<inter> K" if "k \<in> K" "grp \<notin> K" for k K
    using that by (cases "mget topo k") (auto simp: entries_def t)
  have g: "set (entries topo grp) = {}" using assms(3) by (simp add: entries_def)
  show ?thesis
  proof
    assume T: "resolvable ?T"
    show "resolvable topo"
      unfolding resolvable_def
    proof (intro allI impI)
      fix K assume K: "K \<subseteq> dom (mget topo) \<and> K \<noteq> {}"
      show "\<exists>k\<in>K. set (entries topo k) \<inter> K = {}"
      proof (cases "grp \<in> K")
        case True
        then show ?thesis using g by (intro bexI [of _ grp]) simp_all
      next
        case False
        then have "K \<subseteq> dom (mget ?T)" "K \<noteq> {}" using K d by auto
        from resolvableD [OF T this] obtain k where "k \<in> K" "set (entries ?T k) \<inter> K = {}" .
        then show ?thesis using e [of k K] False by (intro bexI [of _ k]) simp_all
      qed
    qed
  next
    assume T: "resolvable topo"
    show "resolvable ?T"
      unfolding resolvable_def
    proof (intro allI impI)
      fix K assume K: "K \<subseteq> dom (mget ?T) \<and> K \<noteq> {}"
      then have K: "K \<subseteq> dom (mget topo)" "K \<noteq> {}" "grp \<notin> K" using d by auto
      from resolvableD [OF T K(1,2)] obtain k where "k \<in> K" "set (entries topo k) \<inter> K = {}" .
      then show "\<exists>k\<in>K. set (entries ?T k) \<inter> K = {}" using e [of k K] K(3) by (intro bexI [of _ k]) simp_all
    qed
  qed
qed

text \<open>What the loop is to find: for every group the nodes \<open>X\<close> it stands for.\<close>

definition unfolds :: "(string \<Rightarrow> string set) \<Rightarrow> string set \<Rightarrow> (string, string list) gomap \<Rightarrow>
    (string, string list) gomap \<Rightarrow> bool" where
  "unfolds X G topo ex \<longleftrightarrow>
     (\<forall>k deps. mget topo k = Some deps \<longrightarrow>
        set deps \<subseteq> dom (mget topo) \<and> X k = set (entries ex k) \<union> \<Union> (X ` set deps)) \<and>
     (\<forall>k\<in>G - dom (mget topo). X k = set (entries ex k))"

lemma unfolds_step:
  assumes "orders rng" "gomap_ok topo" "mget topo grp = Some []" "unfolds X G topo ex"
  shows "unfolds X G (fst (resolved grp rng topo ex)) (snd (resolved grp rng topo ex))"
proof -
  let ?T = "fst (resolved grp rng topo ex)" and ?E = "snd (resolved grp rng topo ex)"
  note t = resolved_topo [OF assms(1,2), of grp ex] and e = resolved_entries [OF assms(1,2), of grp ex]
  have dom: "dom (mget ?T) = dom (mget topo) - {grp}" by (auto simp: t dom_def split: if_splits)
  have u: "set deps \<subseteq> dom (mget topo)" "X k = set (entries ex k) \<union> \<Union> (X ` set deps)" if "mget topo k = Some deps" for k deps
    using assms(4) that by (simp_all add: unfolds_def)
  have grp: "X grp = set (entries ex grp)" using u(2) [OF assms(3)] by simp
  have "set deps \<subseteq> dom (mget ?T) \<and> X k = set (entries ?E k) \<union> \<Union> (X ` set deps)" if k: "mget ?T k = Some deps" for k deps
  proof -
    obtain ds where ds: "k \<noteq> grp" "mget topo k = Some ds" "deps = filter (\<lambda>dep. dep \<noteq> grp) ds"
      using k by (auto simp: t split: if_splits)
    have "set deps \<subseteq> dom (mget ?T)" using u(1) [OF ds(2)] ds(3) dom by auto
    moreover have "\<Union> (X ` set ds) = \<Union> (X ` set deps) \<union> (if grp \<in> set ds then X grp else {})" using ds(3) by auto
    ultimately show ?thesis using u(2) [OF ds(2)] ds(1,2) e [of k] grp by auto
  qed
  moreover have "X k = set (entries ?E k)" if "k \<in> G - dom (mget ?T)" for k
  proof (cases "k = grp")
    case True
    then show ?thesis using grp e [of k] by simp
  next
    case False
    then have "k \<in> G - dom (mget topo)" using that dom by simp
    moreover then have "mget topo k = None" by auto
    ultimately show ?thesis using assms(4) e [of k] by (simp add: unfolds_def)
  qed
  ultimately show ?thesis by (simp add: unfolds_def)
qed

lemma stuck:
  assumes "\<forall>k. mget topo k \<noteq> Some []" "topo \<noteq> []" "unfolds X G topo ex"
  shows "\<not> resolvable topo"
proof
  assume r: "resolvable topo"
  have "fst (hd topo) \<in> dom (mget topo)" using assms(2) by (cases topo) auto
  then have "dom (mget topo) \<noteq> {}" by blast
  from resolvableD [OF r subset_refl this]
  obtain k where k: "k \<in> dom (mget topo)" "set (entries topo k) \<inter> dom (mget topo) = {}" .
  then obtain deps where d: "mget topo k = Some deps" by blast
  then have "deps \<noteq> []" "set deps \<subseteq> dom (mget topo)" using assms(1,3) by (auto simp: unfolds_def)
  then show False using k(2) d by (cases deps) (simp_all add: entries_def)
qed

lemma expand_groups_returns:
  assumes "orders rng" "gomap_ok topo"
  shows "\<exists>r. expand_groups rng topo ex = Some r"
  using assms(2)
proof (induction "card (dom (mget topo))" arbitrary: topo ex rule: less_induct)
  case less
  let ?g = "free_group rng topo"
  show ?case
  proof (cases "topo = [] \<or> ?g = []")
    case True
    then show ?thesis by (subst expand_groups_step) auto
  next
    case False
    then have "mget topo ?g \<noteq> None" using free_group(1) [OF assms(1) less.prems] by simp
    from less.hyps [OF resolved_smaller [OF assms(1) less.prems this] resolved_ok [OF less.prems]]
    show ?thesis using False by (subst expand_groups_step) auto
  qed
qed

lemma expand_groups_result:
  assumes "orders rng" "gomap_ok topo" "unfolds X G topo ex" "expand_groups rng topo ex = Some r"
  shows "if resolvable topo \<and> mget topo [] = None then \<exists>ex'. r = Inr ex' \<and> (\<forall>k\<in>G. X k = set (entries ex' k))
    else \<exists>ks. r = Inl (CycleDetected ks)"
  using assms(2-4)
proof (induction "card (dom (mget topo))" arbitrary: topo ex rule: less_induct)
  case less
  let ?g = "free_group rng topo"
  consider "topo = []" | "topo \<noteq> []" "?g = []" | "topo \<noteq> []" "?g \<noteq> []" by blast
  then show ?case
  proof cases
    case 1
    then have "r = Inr ex" using less.prems(3) by (simp add: expand_groups_step [of rng "[]"])
    then show ?thesis using less.prems(2) 1 by (simp add: resolvable_def unfolds_def)
  next
    case 2
    have "\<not> (resolvable topo \<and> mget topo [] = None)"
      using free_group(2) [OF assms(1) less.prems(1) 2(2)] stuck [OF _ 2(1) less.prems(2)] by auto
    then show ?thesis using 2 less.prems(3) by (auto simp: expand_groups_step [of rng topo])
  next
    case 3
    have g: "mget topo ?g = Some []" using free_group(1) [OF assms(1) less.prems(1) 3(2)] .
    let ?T = "fst (resolved ?g rng topo ex)" and ?E = "snd (resolved ?g rng topo ex)"
    have e: "expand_groups rng ?T ?E = Some r" using less.prems(3) 3 by (simp add: expand_groups_step [of rng topo ex])
    have "mget ?T [] = None \<longleftrightarrow> mget topo [] = None"
      using 3(2) by (simp add: resolved_topo [OF assms(1) less.prems(1)])
    moreover have "card (dom (mget ?T)) < card (dom (mget topo))"
      using g by (intro resolved_smaller [OF assms(1) less.prems(1)]) simp
    from less.hyps [OF this resolved_ok [OF less.prems(1)] unfolds_step [OF assms(1) less.prems(1) g less.prems(2)] e]
    have "if resolvable ?T \<and> mget ?T [] = None then \<exists>ex'. r = Inr ex' \<and> (\<forall>k\<in>G. X k = set (entries ex' k))
      else \<exists>ks. r = Inl (CycleDetected ks)" .
    ultimately show ?thesis by (simp only: resolvable_step [OF assms(1) less.prems(1) g, of ex])
  qed
qed

end
