(* ===== verification/Graph_Properties.thy ===== *)
theory Graph_Properties
  imports Graph_Resolve
begin

text \<open>
  The graph parser against a declarative reading of its lines: which graphs are accepted, which edges
  result, and that the peers of a network are symmetric.
\<close>

subsection \<open>A declarative reading of the lines\<close>

definition group_lines :: "string list \<Rightarrow> string list" where
  "group_lines graph = filter (\<lambda>l. CHR ''='' \<in> set l) (map graph_line graph)"

definition pair_lines :: "string list \<Rightarrow> string list" where
  "pair_lines graph = filter (\<lambda>l. CHR ''='' \<notin> set l) (map graph_line graph)"

definition group_name :: "string \<Rightarrow> string" where
  "group_name l = TrimSpace (Split CHR ''='' l ! 0)"

definition valid_symbols :: "string list \<Rightarrow> string list \<Rightarrow> string list" where
  "valid_symbols nodes graph = remdups_adj (sort (nodes @ map group_name (group_lines graph)))"

definition listed :: "string list \<Rightarrow> string \<Rightarrow> string list" where
  "listed symbols s = (case parseSymbolList s symbols of Inl _ \<Rightarrow> [] | Inr l \<Rightarrow> l)"

definition group_entry :: "string list \<Rightarrow> string \<Rightarrow> string \<times> string list" where
  "group_entry symbols l = (group_name l, listed symbols (Split CHR ''='' l ! 1))"

text \<open>The groups with their lists, and the lists of the other lines.\<close>

definition group_table :: "string list \<Rightarrow> string list \<Rightarrow> (string, string list) gomap" where
  "group_table nodes graph = map (group_entry (valid_symbols nodes graph)) (group_lines graph)"

definition name_lists :: "string list \<Rightarrow> string list \<Rightarrow> string list list" where
  "name_lists nodes graph = map (listed (valid_symbols nodes graph)) (pair_lines graph)"

definition names_ok :: "string list \<Rightarrow> string list \<Rightarrow> bool" where
  "names_ok nodes graph \<longleftrightarrow> (\<forall>l\<in>set (group_lines graph). length (Split CHR ''='' l) = 2 \<and> group_name l \<notin> set nodes)"

definition lists_ok :: "string list \<Rightarrow> string list \<Rightarrow> bool" where
  "lists_ok symbols graph \<longleftrightarrow>
     distinct (map group_name (group_lines graph)) \<and>
     (\<forall>l\<in>set (group_lines graph). listed symbols (Split CHR ''='' l ! 1) \<noteq> []) \<and>
     (\<forall>l\<in>set (pair_lines graph). 2 \<le> length (listed symbols l))"

definition lines_ok :: "string list \<Rightarrow> string list \<Rightarrow> bool" where
  "lines_ok nodes graph \<longleftrightarrow> names_ok nodes graph \<and> lists_ok (valid_symbols nodes graph) graph"

text \<open>A name stands for a node: itself, or a node that an entry of its list stands for.\<close>

inductive expands :: "string list \<Rightarrow> (string, string list) gomap \<Rightarrow> string \<Rightarrow> NodeId \<Rightarrow> bool"
  for nodes G where
  node: "x \<in> set nodes \<Longrightarrow> expands nodes G x x"
| member: "x \<notin> set nodes \<Longrightarrow> mget G x = Some lst \<Longrightarrow> y \<in> set lst \<Longrightarrow> expands nodes G y a \<Longrightarrow> expands nodes G x a"

definition depends :: "(string, string list) gomap \<Rightarrow> (string \<times> string) set" where
  "depends G = {(d, g). d \<in> set (entries G g) \<and> mget G d \<noteq> None}"

subsection \<open>Parsing\<close>

lemma listed_eq: "listed symbols s \<noteq> [] \<Longrightarrow> parseSymbolList s symbols = Inr (listed symbols s)"
  by (auto simp: listed_def split: sum.splits)

lemma listed_Nil: "listed symbols s = [] \<Longrightarrow> \<exists>err. parseSymbolList s symbols = Inl err"
  by (auto simp: listed_def parseSymbolList_def split: sum.splits if_splits dest: arg_cong [where f = set])

lemma parse_symbols_valid: "parse_symbols V spl line = Inr r \<Longrightarrow> set r \<subseteq> set line \<union> set V"
  by (induction V spl line rule: parse_symbols.induct) (auto simp: Let_def split: if_splits)

lemma listed_valid: "set (listed symbols s) \<subseteq> set symbols"
  using parse_symbols_valid [of symbols _ "[]"]
  by (auto simp: listed_def parseSymbolList_def split: sum.splits if_splits)

lemma lines_Cons:
  "group_lines (line # graph) = (if CHR ''='' \<in> set (graph_line line) then [graph_line line] else []) @ group_lines graph"
  "pair_lines (line # graph) = (if CHR ''='' \<in> set (graph_line line) then [] else [graph_line line]) @ pair_lines graph"
  "group_lines [] = []" "pair_lines [] = []"
  by (simp_all add: group_lines_def pair_lines_def)

lemma collect_symbols_result:
  "if names_ok nodes graph then collect_symbols nodes graph symbols = Inr (symbols @ map group_name (group_lines graph))
   else \<exists>err. collect_symbols nodes graph symbols = Inl err"
  by (induction nodes graph symbols rule: collect_symbols.induct)
    (auto simp: Let_def names_ok_def lines_Cons group_name_def)

lemma fold_track:
  "fold (track nodes grp) lst (deps, ex) =
     (deps @ filter (\<lambda>l. l \<notin> set nodes) lst,
      if \<exists>l\<in>set lst. l \<in> set nodes then mput grp (entries ex grp @ filter (\<lambda>l. l \<in> set nodes) lst) ex else ex)"
  by (induction lst arbitrary: deps ex) (auto simp: track_def update_Some_unfold split: if_splits)

definition pairs_of :: "string list \<Rightarrow> (string \<times> string) set" where
  "pairs_of names = {MakeSortedPair (names ! i) (names ! j) | i j. i < j \<and> j < length names}"

lemma pairs_of_Nil [simp]: "pairs_of [] = {}"
  by (simp add: pairs_of_def)

lemma pairs_of_iff: "p \<in> pairs_of names \<longleftrightarrow> (\<exists>i j. p = MakeSortedPair (names ! i) (names ! j) \<and> i < j \<and> j < length names)"
  by (simp add: pairs_of_def)

lemma pairs_of_snoc: "pairs_of (names @ [x]) = pairs_of names \<union> (\<lambda>y. MakeSortedPair y x) ` set names"
proof (intro equalityI subsetI)
  fix p assume "p \<in> pairs_of (names @ [x])"
  then obtain i j where p: "p = MakeSortedPair ((names @ [x]) ! i) ((names @ [x]) ! j)" "i < j" "j < Suc (length names)"
    unfolding pairs_of_iff by auto
  then have i: "(names @ [x]) ! i = names ! i" "i < length names" by (simp_all add: nth_append)
  show "p \<in> pairs_of names \<union> (\<lambda>y. MakeSortedPair y x) ` set names"
  proof (cases "j = length names")
    case True
    then have "p = MakeSortedPair (names ! i) x" using p(1) i by (simp add: nth_append)
    then show ?thesis using i(2) by simp
  next
    case False
    then have "p = MakeSortedPair (names ! i) (names ! j)" "j < length names" using p i(1) by (simp_all add: nth_append)
    then show ?thesis using p(2) pairs_of_iff by blast
  qed
next
  fix p assume "p \<in> pairs_of names \<union> (\<lambda>y. MakeSortedPair y x) ` set names"
  then consider i j where "p = MakeSortedPair (names ! i) (names ! j)" "i < j" "j < length names"
    | i where "p = MakeSortedPair (names ! i) x" "i < length names"
    by (auto simp: pairs_of_iff in_set_conv_nth)
  then show "p \<in> pairs_of (names @ [x])"
  proof cases
    case 1
    then show ?thesis unfolding pairs_of_iff by (intro exI [of _ i] exI [of _ j]) (simp add: nth_append)
  next
    case 2
    then show ?thesis unfolding pairs_of_iff by (intro exI [of _ i] exI [of _ "length names"]) (simp add: nth_append)
  qed
qed

lemma fold_interconnect:
  "fst (fold interconnect names ([], ps)) = names \<and>
   set (snd (fold interconnect names ([], ps))) = set ps \<union> pairs_of names"
  by (induction names rule: rev_induct) (auto simp: interconnect_def pairs_of_snoc split: prod.splits)

text \<open>What the state says after the groups \<open>G\<close> and the lists \<open>P\<close>.\<close>

definition parsed :: "string list \<Rightarrow> (string, string list) gomap \<Rightarrow> string list list \<Rightarrow> GraphState \<Rightarrow> bool" where
  "parsed nodes G P st \<longleftrightarrow>
     gomap_ok (gr_topo st) \<and> mget (gr_groups st) = mget G \<and>
     (\<forall>k. mget (gr_topo st) k = map_option (\<lambda>l. remdups_adj (sort (filter (\<lambda>x. x \<notin> set nodes) l))) (mget G k)) \<and>
     (\<forall>k. entries (gr_expansion st) k = filter (\<lambda>x. x \<in> set nodes) (entries G k)) \<and>
     set (gr_pairings st) = \<Union> (pairs_of ` set P)"

lemma mget_snoc: "mget G g = None \<Longrightarrow> [g \<mapsto> l] ++ mget G = (mget G)(g \<mapsto> l)"
  by (simp add: map_add_def fun_eq_iff split: option.splits)

lemma entries_snoc: "mget G g = None \<Longrightarrow> entries (G @ [(g, l)]) k = (if k = g then l else entries G k)"
  by (simp add: entries_def mget_snoc)

lemma parse_group_parsed:
  assumes "parsed nodes G P st"
  shows "if mget G (group_name l) = None \<and> listed V (Split CHR ''='' l ! 1) \<noteq> []
    then \<exists>st'. parse_group nodes V l st = Inr st' \<and> parsed nodes (G @ [group_entry V l]) P st'
    else \<exists>err. parse_group nodes V l st = Inl err"
proof (cases "mget G (group_name l) = None \<and> listed V (Split CHR ''='' l ! 1) \<noteq> []")
  case True
  let ?g = "group_name l" and ?lst = "listed V (Split CHR ''='' l ! 1)"
  have "entries (gr_expansion st) ?g = []" using assms True by (simp add: parsed_def entries_def)
  moreover have "mget (gr_groups st) ?g = None" using assms True by (simp add: parsed_def)
  moreover have "filter (\<lambda>x. x \<in> set nodes) ?lst = []" if "\<forall>l\<in>set ?lst. l \<notin> set nodes"
    using that by (simp add: filter_empty_conv)
  ultimately show ?thesis
    using True assms listed_eq [of V "Split CHR ''='' l ! 1"]
    by (auto simp: parse_group_def Let_def fold_track parsed_def group_entry_def group_name_def [symmetric] mget_snoc entries_snoc fun_eq_iff)
next
  case False
  then show ?thesis
    using assms listed_Nil [of V "Split CHR ''='' l ! 1"]
    by (auto simp: parse_group_def Let_def parsed_def group_name_def [symmetric])
qed

lemma parse_pairing_parsed:
  assumes "parsed nodes G P st"
  shows "if 2 \<le> length (listed V l)
    then \<exists>st'. parse_pairing V l st = Inr st' \<and> parsed nodes G (P @ [listed V l]) st'
    else \<exists>err. parse_pairing V l st = Inl err"
proof (cases "listed V l = []")
  case True
  then show ?thesis using listed_Nil [OF True] by (auto simp: parse_pairing_def)
next
  case False
  obtain names ps where f: "fold interconnect (listed V l) ([], gr_pairings st) = (names, ps)" by fastforce
  then have "set ps = set (gr_pairings st) \<union> pairs_of (listed V l)"
    using fold_interconnect [of "listed V l" "gr_pairings st"] by simp
  then show ?thesis
    using assms listed_eq [OF False] f by (auto simp: parse_pairing_def parsed_def SortPairs_def)
qed

lemma parse_lines_parsed:
  assumes "parsed nodes G P st"
  shows "if lists_ok V graph \<and> (\<forall>l\<in>set (group_lines graph). mget G (group_name l) = None)
    then \<exists>st'. parse_lines nodes V graph st = Inr st' \<and>
           parsed nodes (G @ map (group_entry V) (group_lines graph)) (P @ map (listed V) (pair_lines graph)) st'
    else \<exists>err. parse_lines nodes V graph st = Inl err"
  using assms
proof (induction graph arbitrary: G P st)
  case Nil
  then show ?case by (simp add: lists_ok_def lines_Cons)
next
  case (Cons line graph)
  let ?l = "graph_line line"
  show ?case
  proof (cases "CHR ''='' \<in> set ?l")
    case True
    show ?thesis
    proof (cases "mget G (group_name ?l) = None \<and> listed V (Split CHR ''='' ?l ! 1) \<noteq> []")
      case ok: True
      then obtain st1 where st1: "parse_group nodes V ?l st = Inr st1" "parsed nodes (G @ [group_entry V ?l]) P st1"
        using parse_group_parsed [OF Cons.prems, of ?l V] by auto
      have iff: "lists_ok V (line # graph) \<and> (\<forall>l\<in>set (group_lines (line # graph)). mget G (group_name l) = None) \<longleftrightarrow>
          lists_ok V graph \<and> (\<forall>l\<in>set (group_lines graph). mget (G @ [group_entry V ?l]) (group_name l) = None)"
        using True ok by (auto simp: lists_ok_def lines_Cons group_entry_def mget_snoc split: if_splits) (metis image_eqI)
      have eqs: "parse_lines nodes V (line # graph) st = parse_lines nodes V graph st1"
        "G @ map (group_entry V) (group_lines (line # graph)) = (G @ [group_entry V ?l]) @ map (group_entry V) (group_lines graph)"
        "pair_lines (line # graph) = pair_lines graph"
        using st1(1) True by (simp_all add: Let_def lines_Cons)
      show ?thesis using Cons.IH [OF st1(2)] by (simp only: iff eqs)
    next
      case False
      then show ?thesis using parse_group_parsed [OF Cons.prems, of ?l V] True by (auto simp: Let_def lists_ok_def lines_Cons)
    qed
  next
    case False
    show ?thesis
    proof (cases "2 \<le> length (listed V ?l)")
      case ok: True
      then obtain st1 where st1: "parse_pairing V ?l st = Inr st1" "parsed nodes G (P @ [listed V ?l]) st1"
        using parse_pairing_parsed [OF Cons.prems, of V ?l] by auto
      have iff: "lists_ok V (line # graph) \<longleftrightarrow> lists_ok V graph" using False ok by (auto simp: lists_ok_def lines_Cons)
      have eqs: "parse_lines nodes V (line # graph) st = parse_lines nodes V graph st1"
        "P @ map (listed V) (pair_lines (line # graph)) = (P @ [listed V ?l]) @ map (listed V) (pair_lines graph)"
        "group_lines (line # graph) = group_lines graph"
        using st1(1) False by (simp_all add: Let_def lines_Cons)
      show ?thesis using Cons.IH [OF st1(2)] by (simp only: iff eqs)
    next
      case bad: False
      then show ?thesis using parse_pairing_parsed [OF Cons.prems, of V ?l] False by (auto simp: Let_def lists_ok_def lines_Cons)
    qed
  qed
qed

subsection \<open>Groups\<close>

text \<open>A graph whose lines are accepted, with what the parser knows of it after its first two passes.\<close>

lemma lines_parsed:
  assumes "lines_ok nodes graph"
  obtains st where "parsed nodes (group_table nodes graph) (name_lists nodes graph) st"
    "\<And>rng. ParseGraph rng graph nodes =
       expand_groups rng (gr_topo st) (gr_expansion st) \<bind>
       (\<lambda>res. Some (case res of Inl err \<Rightarrow> Inl err
                    | Inr ex \<Rightarrow> Inr (fold (rewrite_pair nodes ex) (gr_pairings st) [])))"
proof -
  let ?V = "valid_symbols nodes graph"
  let ?st = "\<lparr>gr_groups = [], gr_topo = [], gr_expansion = [], gr_pairings = []\<rparr> :: GraphState"
  have "parsed nodes [] [] ?st" by (simp add: parsed_def)
  from parse_lines_parsed [OF this, of ?V graph] assms obtain st where st:
    "parse_lines nodes ?V graph ?st = Inr st" "parsed nodes (group_table nodes graph) (name_lists nodes graph) st"
    by (auto simp: lines_ok_def group_table_def name_lists_def)
  have "collect_symbols nodes graph nodes = Inr (nodes @ map group_name (group_lines graph))"
    using collect_symbols_result [of nodes graph nodes] assms by (simp add: lines_ok_def)
  then show ?thesis using st by (intro that [of st]) (simp_all add: ParseGraph_def valid_symbols_def)
qed

lemma lines_rejected: "\<not> lines_ok nodes graph \<Longrightarrow> \<exists>err. ParseGraph rng graph nodes = Some (Inl err)"
proof -
  let ?V = "valid_symbols nodes graph"
  assume bad: "\<not> lines_ok nodes graph"
  show ?thesis
  proof (cases "names_ok nodes graph")
    case True
    then have "collect_symbols nodes graph nodes = Inr (nodes @ map group_name (group_lines graph))"
      using collect_symbols_result [of nodes graph nodes] by simp
    moreover have "\<exists>err. parse_lines nodes ?V graph \<lparr>gr_groups = [], gr_topo = [], gr_expansion = [], gr_pairings = []\<rparr> = Inl err"
      using parse_lines_parsed [of nodes "[]" "[]" _ ?V graph] bad True by (auto simp: parsed_def lines_ok_def)
    ultimately show ?thesis by (auto simp: ParseGraph_def valid_symbols_def)
  next
    case False
    then show ?thesis using collect_symbols_result [of nodes graph nodes] by (auto simp: ParseGraph_def)
  qed
qed

lemma group_table_names:
  "dom (mget (group_table nodes graph)) = group_name ` set (group_lines graph)"
  by (simp add: group_table_def dom_map_of_conv_image_fst group_entry_def image_image)

lemma symbols_set: "set (valid_symbols nodes graph) = set nodes \<union> dom (mget (group_table nodes graph))"
  by (simp add: valid_symbols_def group_table_names)

lemma group_not_node:
  assumes "lines_ok nodes graph" "x \<in> set nodes"
  shows "mget (group_table nodes graph) x = None"
proof (rule ccontr)
  assume "mget (group_table nodes graph) x \<noteq> None"
  then have "x \<in> group_name ` set (group_lines graph)" using group_table_names [of nodes graph] by blast
  then show False using assms by (auto simp: lines_ok_def names_ok_def)
qed

lemma group_lists_valid:
  assumes "mget (group_table nodes graph) g = Some lst"
  shows "set lst \<subseteq> set nodes \<union> dom (mget (group_table nodes graph))"
proof -
  have "(g, lst) \<in> set (group_table nodes graph)" using assms by (rule map_of_SomeD)
  then obtain l where "lst = listed (valid_symbols nodes graph) l" by (auto simp: group_table_def group_entry_def)
  then show ?thesis using listed_valid [of "valid_symbols nodes graph" l] by (simp add: symbols_set)
qed

lemma expands_node: "x \<in> set nodes \<Longrightarrow> expands nodes G x a \<longleftrightarrow> a = x"
  by (subst expands.simps) auto

lemma expands_group:
  "x \<notin> set nodes \<Longrightarrow> mget G x = Some lst \<Longrightarrow> expands nodes G x a \<longleftrightarrow> (\<exists>y\<in>set lst. expands nodes G y a)"
  by (subst expands.simps) auto

lemma parsed_unfolds:
  assumes ok: "lines_ok nodes graph" and p: "parsed nodes (group_table nodes graph) P st"
  shows "unfolds (\<lambda>x. {a. expands nodes (group_table nodes graph) x a}) (dom (mget (group_table nodes graph)))
    (gr_topo st) (gr_expansion st)"
proof -
  let ?G = "group_table nodes graph"
  let ?X = "\<lambda>x. {a. expands nodes ?G x a}"
  have t: "mget (gr_topo st) k = map_option (\<lambda>l. remdups_adj (sort (filter (\<lambda>x. x \<notin> set nodes) l))) (mget ?G k)"
    and e: "entries (gr_expansion st) k = filter (\<lambda>x. x \<in> set nodes) (entries ?G k)" for k
    using p by (simp_all add: parsed_def)
  have dom: "dom (mget (gr_topo st)) = dom (mget ?G)" by (simp add: t dom_def)
  have "set deps \<subseteq> dom (mget (gr_topo st)) \<and> ?X k = set (entries (gr_expansion st) k) \<union> \<Union> (?X ` set deps)"
    if k: "mget (gr_topo st) k = Some deps" for k deps
  proof -
    obtain lst where lst: "mget ?G k = Some lst" "set deps = {x \<in> set lst. x \<notin> set nodes}" using k by (auto simp: t)
    have "k \<notin> set nodes" using group_not_node [OF ok] lst(1) by force
    then have "?X k = \<Union> (?X ` set lst)" using expands_group [OF _ lst(1)] by auto
    also have "\<dots> = {x \<in> set lst. x \<in> set nodes} \<union> \<Union> (?X ` set deps)"
      using lst(2) expands_node [of _ nodes ?G] by auto
    finally show ?thesis using group_lists_valid [OF lst(1)] lst dom e [of k] by (auto simp: entries_def)
  qed
  then show ?thesis by (simp add: unfolds_def dom)
qed

lemma finite_depends: "finite (depends G)"
proof (rule finite_subset)
  have "mget G g \<noteq> None" if "(d, g) \<in> depends G" for d g
    using that by (cases "mget G g") (simp_all add: depends_def entries_def)
  then show "depends G \<subseteq> dom (mget G) \<times> dom (mget G)" by (auto simp: depends_def)
qed (simp add: finite_dom_map_of)

lemma parsed_resolvable:
  assumes ok: "lines_ok nodes graph" and p: "parsed nodes (group_table nodes graph) P st"
  shows "resolvable (gr_topo st) \<longleftrightarrow> acyclic (depends (group_table nodes graph))"
proof -
  let ?G = "group_table nodes graph"
  have t: "mget (gr_topo st) k = map_option (\<lambda>l. remdups_adj (sort (filter (\<lambda>x. x \<notin> set nodes) l))) (mget ?G k)" for k
    using p by (simp add: parsed_def)
  have dom: "dom (mget (gr_topo st)) = dom (mget ?G)" by (simp add: t dom_def)
  have e: "set (entries (gr_topo st) k) = {x \<in> set (entries ?G k). x \<notin> set nodes}" for k
    by (cases "mget ?G k") (simp_all add: entries_def t)
  have dep: "(y, k) \<in> depends ?G \<longleftrightarrow> y \<in> set (entries (gr_topo st) k) \<and> y \<in> dom (mget ?G)" for y k
    using group_not_node [OF ok, of y] by (auto simp: depends_def e)
  have "acyclic (depends ?G) \<longleftrightarrow> wf (depends ?G)" using wf_iff_acyclic_if_finite [OF finite_depends] by simp
  also have "\<dots> \<longleftrightarrow> resolvable (gr_topo st)"
  proof
    assume wf: "wf (depends ?G)"
    show "resolvable (gr_topo st)"
      unfolding resolvable_def dom
    proof (intro allI impI, elim conjE)
      fix K assume K: "K \<subseteq> dom (mget ?G)" "K \<noteq> {}"
      from wfE_min' [OF wf K(2)] obtain k where k: "k \<in> K" "\<And>y. (y, k) \<in> depends ?G \<Longrightarrow> y \<notin> K" by blast
      then have "set (entries (gr_topo st) k) \<inter> K = {}" using dep K(1) by blast
      with k(1) show "\<exists>k\<in>K. set (entries (gr_topo st) k) \<inter> K = {}" by blast
    qed
  next
    assume r: "resolvable (gr_topo st)"
    show "wf (depends ?G)"
    proof (rule wfI_min)
      fix x Q assume x: "x \<in> (Q :: string set)"
      show "\<exists>z\<in>Q. \<forall>y. (y, z) \<in> depends ?G \<longrightarrow> y \<notin> Q"
      proof (cases "Q \<inter> dom (mget ?G) = {}")
        case True
        then show ?thesis using x dep by blast
      next
        case False
        from resolvableD [OF r _ False] obtain k where "k \<in> Q" "set (entries (gr_topo st) k) \<inter> (Q \<inter> dom (mget ?G)) = {}"
          unfolding dom by auto
        then show ?thesis using dep by blast
      qed
    qed
  qed
  finally show ?thesis by simp
qed

subsection \<open>Edges\<close>

lemma sorted_pair: "x \<noteq> y \<and> MakeSortedPair x y = (a, b) \<longleftrightarrow> a < b \<and> (x = a \<and> y = b \<or> x = b \<and> y = a)"
  by (auto simp: MakeSortedPair_def)

lemma strict_remdups_adj: "sorted xs \<Longrightarrow> sorted_wrt (<) (remdups_adj xs)" for xs :: "'a::linorder list"
  by (induction xs rule: remdups_adj.induct) (auto simp: less_le)

definition edges :: "string list \<Rightarrow> (string, string list) gomap \<Rightarrow> string \<times> string \<Rightarrow> (NodeId \<times> NodeId) set" where
  "edges nodes ex v =
     {MakeSortedPair x y | x y. x \<in> set (members nodes ex (fst v)) \<and> y \<in> set (members nodes ex (snd v)) \<and> x \<noteq> y}"

lemma rewrite_pair_set: "set (rewrite_pair nodes ex v ps) = set ps \<union> edges nodes ex v"
  by (auto simp: rewrite_pair_def SortPairs_def edges_def split: prod.splits)

lemma rewrite_pairs:
  "set (fold (rewrite_pair nodes ex) vs ps) = set ps \<union> \<Union> (edges nodes ex ` set vs)"
  "sorted_wrt (<) ps \<Longrightarrow> sorted_wrt (<) (fold (rewrite_pair nodes ex) vs ps)"
proof -
  show "set (fold (rewrite_pair nodes ex) vs ps) = set ps \<union> \<Union> (edges nodes ex ` set vs)"
    by (induction vs arbitrary: ps) (auto simp: rewrite_pair_set)
  have "sorted_wrt (<) (rewrite_pair nodes ex v ps)" for v ps
    by (simp add: rewrite_pair_def SortPairs_def strict_remdups_adj split: prod.splits)
  then show "sorted_wrt (<) ps \<Longrightarrow> sorted_wrt (<) (fold (rewrite_pair nodes ex) vs ps)"
    by (induction vs arbitrary: ps) simp_all
qed

lemma edges_iff:
  "(a, b) \<in> edges nodes ex v \<longleftrightarrow> a < b \<and>
     (a \<in> set (members nodes ex (fst v)) \<and> b \<in> set (members nodes ex (snd v)) \<or>
      b \<in> set (members nodes ex (fst v)) \<and> a \<in> set (members nodes ex (snd v)))"
proof -
  have "(a, b) \<in> edges nodes ex v \<longleftrightarrow>
    (\<exists>x y. x \<in> set (members nodes ex (fst v)) \<and> y \<in> set (members nodes ex (snd v)) \<and> (x \<noteq> y \<and> MakeSortedPair x y = (a, b)))"
    unfolding edges_def mem_Collect_eq by metis
  then show ?thesis unfolding sorted_pair by auto
qed

text \<open>Two nodes are linked when different entries of one list stand for them.\<close>

definition linked :: "string list \<Rightarrow> string list \<Rightarrow> NodeId \<Rightarrow> NodeId \<Rightarrow> bool" where
  "linked nodes graph a b \<longleftrightarrow>
     (\<exists>names\<in>set (name_lists nodes graph). \<exists>i j. i < length names \<and> j < length names \<and> i \<noteq> j \<and>
        expands nodes (group_table nodes graph) (names ! i) a \<and> expands nodes (group_table nodes graph) (names ! j) b)"

lemma linked_sym: "linked nodes graph a b \<Longrightarrow> linked nodes graph b a"
  unfolding linked_def by blast

lemma pairs_linked:
  assumes m: "\<And>x a. x \<in> set names \<Longrightarrow> a \<in> set (members nodes ex x) \<longleftrightarrow> E x a"
  shows "(\<exists>v\<in>pairs_of names. (a, b) \<in> edges nodes ex v) \<longleftrightarrow>
    a < b \<and> (\<exists>i j. i < length names \<and> j < length names \<and> i \<noteq> j \<and> E (names ! i) a \<and> E (names ! j) b)"
proof -
  have e: "(a, b) \<in> edges nodes ex (MakeSortedPair (names ! i) (names ! j)) \<longleftrightarrow>
      a < b \<and> (E (names ! i) a \<and> E (names ! j) b \<or> E (names ! i) b \<and> E (names ! j) a)"
    if "i < length names" "j < length names" for i j
    using m [of "names ! i"] m [of "names ! j"] that by (auto simp: edges_iff MakeSortedPair_def)
  have "(\<exists>v\<in>pairs_of names. (a, b) \<in> edges nodes ex v) \<longleftrightarrow>
      (\<exists>i j. i < j \<and> j < length names \<and> (a, b) \<in> edges nodes ex (MakeSortedPair (names ! i) (names ! j)))"
    unfolding Bex_def pairs_of_iff by blast
  also have "\<dots> \<longleftrightarrow> a < b \<and> (\<exists>i j. i < length names \<and> j < length names \<and> i \<noteq> j \<and> E (names ! i) a \<and> E (names ! j) b)"
  proof (intro iffI; elim exE conjE)
    fix i j assume h: "i < j" "j < length names" "(a, b) \<in> edges nodes ex (MakeSortedPair (names ! i) (names ! j))"
    then have "a < b \<and> (E (names ! i) a \<and> E (names ! j) b \<or> E (names ! i) b \<and> E (names ! j) a)" using e [of i j] by simp
    moreover have "i < length names" "i \<noteq> j" using h(1,2) by simp_all
    ultimately show "a < b \<and> (\<exists>i j. i < length names \<and> j < length names \<and> i \<noteq> j \<and> E (names ! i) a \<and> E (names ! j) b)"
      using h(2) by blast
  next
    fix i j assume h: "a < b" "i < length names" "j < length names" "i \<noteq> j" "E (names ! i) a" "E (names ! j) b"
    then have "(a, b) \<in> edges nodes ex (MakeSortedPair (names ! i) (names ! j))"
      "(a, b) \<in> edges nodes ex (MakeSortedPair (names ! j) (names ! i))" using e [of i j] e [of j i] by simp_all
    then show "\<exists>i j. i < j \<and> j < length names \<and> (a, b) \<in> edges nodes ex (MakeSortedPair (names ! i) (names ! j))"
      using h(2-4) by (cases "i < j") (auto dest: linorder_neqE_nat)
  qed
  finally show ?thesis .
qed

lemma expands_in: "expands nodes G x a \<Longrightarrow> a \<in> set nodes"
  by (induction rule: expands.induct)

lemma members_expand:
  assumes ok: "lines_ok nodes graph" and x: "x \<in> set (valid_symbols nodes graph)"
    and ex: "\<And>k. k \<in> dom (mget (group_table nodes graph)) \<Longrightarrow>
      {a. expands nodes (group_table nodes graph) k a} = set (entries ex k)"
  shows "a \<in> set (members nodes ex x) \<longleftrightarrow> expands nodes (group_table nodes graph) x a"
proof (cases "x \<in> set nodes")
  case True
  then show ?thesis using expands_node [OF True] by (simp add: members_def)
next
  case False
  then have "x \<in> dom (mget (group_table nodes graph))" using x by (simp add: symbols_set)
  from ex [OF this] show ?thesis using False by (auto simp: members_def)
qed

lemma result_edges:
  assumes ok: "lines_ok nodes graph" and p: "parsed nodes (group_table nodes graph) (name_lists nodes graph) st"
    and ex: "\<And>k. k \<in> dom (mget (group_table nodes graph)) \<Longrightarrow>
      {a. expands nodes (group_table nodes graph) k a} = set (entries ex k)"
  shows "(a, b) \<in> set (fold (rewrite_pair nodes ex) (gr_pairings st) []) \<longleftrightarrow> a < b \<and> linked nodes graph a b"
proof -
  let ?E = "expands nodes (group_table nodes graph)"
  have m: "a \<in> set (members nodes ex x) \<longleftrightarrow> ?E x a" if h: "names \<in> set (name_lists nodes graph)" "x \<in> set names" for x a names
  proof (rule members_expand [OF ok _ ex])
    obtain l where "names = listed (valid_symbols nodes graph) l" using h(1) by (auto simp: name_lists_def)
    then show "x \<in> set (valid_symbols nodes graph)" using h(2) listed_valid by blast
  qed
  have "(a, b) \<in> set (fold (rewrite_pair nodes ex) (gr_pairings st) []) \<longleftrightarrow>
      (\<exists>names\<in>set (name_lists nodes graph). \<exists>v\<in>pairs_of names. (a, b) \<in> edges nodes ex v)"
    using p by (simp add: rewrite_pairs(1) parsed_def)
  also have "\<dots> \<longleftrightarrow> (\<exists>names\<in>set (name_lists nodes graph). a < b \<and>
      (\<exists>i j. i < length names \<and> j < length names \<and> i \<noteq> j \<and> ?E (names ! i) a \<and> ?E (names ! j) b))"
    by (intro bex_cong refl pairs_linked m)
  also have "\<dots> \<longleftrightarrow> a < b \<and> linked nodes graph a b" unfolding linked_def by blast
  finally show ?thesis .
qed

text \<open>What is accepted: the lines are well formed, no group has the empty name, and no group depends on
itself.\<close>

definition graph_ok :: "string list \<Rightarrow> string list \<Rightarrow> bool" where
  "graph_ok nodes graph \<longleftrightarrow>
     lines_ok nodes graph \<and> [] \<notin> group_name ` set (group_lines graph) \<and> acyclic (depends (group_table nodes graph))"

lemma parse_graph_result:
  assumes "orders rng"
  shows "if graph_ok nodes graph
    then \<exists>pairs. ParseGraph rng graph nodes = Some (Inr pairs) \<and> sorted_wrt (<) pairs \<and>
           (\<forall>a b. (a, b) \<in> set pairs \<longleftrightarrow> a < b \<and> linked nodes graph a b)
    else \<exists>err. ParseGraph rng graph nodes = Some (Inl err)"
proof (cases "lines_ok nodes graph")
  case False
  then show ?thesis using lines_rejected [OF False, of rng] by (simp add: graph_ok_def)
next
  case ok: True
  let ?G = "group_table nodes graph"
  from lines_parsed [OF ok] obtain st where p: "parsed nodes ?G (name_lists nodes graph) st"
    and eq: "ParseGraph rng graph nodes = expand_groups rng (gr_topo st) (gr_expansion st) \<bind>
      (\<lambda>res. Some (case res of Inl err \<Rightarrow> Inl err
                   | Inr ex \<Rightarrow> Inr (fold (rewrite_pair nodes ex) (gr_pairings st) [])))" by metis
  have t: "gomap_ok (gr_topo st)" using p by (simp add: parsed_def)
  obtain r where r: "expand_groups rng (gr_topo st) (gr_expansion st) = Some r"
    using expand_groups_returns [OF assms t] by blast
  have "mget (gr_topo st) [] = None \<longleftrightarrow> [] \<notin> group_name ` set (group_lines graph)"
    using p group_table_names [of nodes graph] by (auto simp: parsed_def)
  then have good: "resolvable (gr_topo st) \<and> mget (gr_topo st) [] = None \<longleftrightarrow> graph_ok nodes graph"
    using parsed_resolvable [OF ok p] ok by (auto simp: graph_ok_def)
  note res = expand_groups_result [OF assms t parsed_unfolds [OF ok p] r, unfolded good]
  show ?thesis
  proof (cases "graph_ok nodes graph")
    case True
    then obtain ex where ex: "r = Inr ex" "\<And>k. k \<in> dom (mget ?G) \<Longrightarrow> {a. expands nodes ?G k a} = set (entries ex k)"
      using res by auto
    let ?pairs = "fold (rewrite_pair nodes ex) (gr_pairings st) []"
    have "ParseGraph rng graph nodes = Some (Inr ?pairs)" using eq r ex(1) by simp
    moreover have "sorted_wrt (<) ?pairs" by (rule rewrite_pairs(2)) simp
    ultimately show ?thesis using result_edges [OF ok p ex(2)] True by auto
  next
    case False
    then show ?thesis using res eq r by auto
  qed
qed

subsection \<open>Properties\<close>

text \<open>C11: The loop that resolves groups ends, whatever depends on what and in whatever order Go visits the
maps.\<close>

theorem group_resolution_ends:
  assumes "orders rng" "gomap_ok topo"
  shows "\<exists>r. expand_groups rng topo expansion = Some r"
  using assms by (rule expand_groups_returns)

theorem group_resolution_ends_witness:
  "\<exists>r. expand_groups rev [(''g'', [''h'']), (''h'', [''g''])] [] = Some r"
  by (rule group_resolution_ends) (simp_all add: orders_def)

text \<open>C10: A graph is accepted exactly when its lines are well formed, no group has the empty name and no
group depends on itself through its lists. The edges are then exactly the pairs of different nodes
that two different entries of one line stand for, directly or through groups; every other graph
is rejected with an error.\<close>

theorem graph_meaning:
  assumes "orders rng"
  shows "if graph_ok nodes graph
    then \<exists>pairs. ParseGraph rng graph nodes = Some (Inr pairs) \<and>
           (\<forall>a b. (a, b) \<in> set pairs \<longleftrightarrow> a < b \<and> linked nodes graph a b)
    else \<exists>err. ParseGraph rng graph nodes = Some (Inl err)"
  using parse_graph_result [OF assms, of nodes graph] by (auto split: if_splits)

definition graph_1 :: "string list" where
  "graph_1 = [''G = a, b'', ''g, c'']"

definition abc :: "string list" where
  "abc = [''a'', ''b'', ''c'']"

lemma graph_1_reading:
  "lines_ok abc graph_1" "group_name ` set (group_lines graph_1) = {''g''}"
  "group_table abc graph_1 = [(''g'', [''a'', ''b''])]" "name_lists abc graph_1 = [[''c'', ''g'']]"
  by code_simp+

lemma graph_1_ok: "graph_ok abc graph_1"
proof -
  have "depends (group_table abc graph_1) = {}" by (auto simp: graph_1_reading depends_def entries_def split: if_splits)
  then show ?thesis by (simp add: graph_ok_def graph_1_reading acyclic_def)
qed

lemma graph_1_linked: "linked abc graph_1 ''a'' ''c''"
proof -
  have "''g'' \<notin> set abc" "''a'' \<in> set abc" "''c'' \<in> set abc" by (simp_all add: abc_def)
  then have "expands abc (group_table abc graph_1) ''g'' ''a''" "expands abc (group_table abc graph_1) ''c'' ''c''"
    by (simp_all add: graph_1_reading expands_node expands_group)
  then show ?thesis
    unfolding linked_def graph_1_reading(4) by (intro bexI [of _ "[''c'', ''g'']"] exI [of _ 1] exI [of _ 0]) simp_all
qed

theorem graph_meaning_witness:
  "\<exists>pairs. ParseGraph rev graph_1 abc = Some (Inr pairs) \<and> (''a'', ''c'') \<in> set pairs"
proof -
  have "''a'' < ''c''" by code_simp
  then show ?thesis
    using graph_meaning [of rev abc graph_1] graph_1_ok graph_1_linked by (auto simp: orders_def)
qed

text \<open>C12: The edges of an accepted graph are in strictly ascending order, so no edge occurs twice; each is a
pair of different nodes of the network, the smaller one first.\<close>

theorem graph_edges_canonical:
  assumes "orders rng" "ParseGraph rng graph nodes = Some (Inr pairs)"
  shows "sorted_wrt (<) pairs \<and> (\<forall>(a, b)\<in>set pairs. a < b \<and> a \<in> set nodes \<and> b \<in> set nodes)"
proof -
  have "a \<in> set nodes \<and> b \<in> set nodes" if "linked nodes graph a b" for a b
    using that expands_in unfolding linked_def by blast
  then show ?thesis using parse_graph_result [OF assms(1), of nodes graph] assms(2) by (auto split: if_splits)
qed

theorem graph_edges_canonical_witness:
  "\<exists>pairs. ParseGraph (\<lambda>m. m) graph_1 abc = Some (Inr pairs) \<and> sorted_wrt (<) pairs \<and>
     (''b'', ''c'') \<in> set pairs \<and> ''b'' < ''c'' \<and> ''b'' \<in> set abc"
proof -
  have "orders (\<lambda>m. m)" by (simp add: orders_def)
  moreover have p: "ParseGraph (\<lambda>m. m) graph_1 abc = Some (Inr [(''a'', ''c''), (''b'', ''c'')])" by code_simp
  ultimately have "sorted_wrt (<) [(''a'', ''c''), (''b'', ''c'')] \<and>
      (\<forall>(a, b)\<in>set [(''a'', ''c''), (''b'', ''c'')]. a < b \<and> a \<in> set abc \<and> b \<in> set abc)"
    by (rule graph_edges_canonical)
  then show ?thesis using p by (intro exI [of _ "[(''a'', ''c''), (''b'', ''c'')]"]) simp
qed

definition network_nodes :: "CentralCfg \<Rightarrow> NodeId list" where
  "network_nodes e = map (\<lambda>node. nc_Id (rc_NodeCfg node)) (cc_Routers e) @ map (\<lambda>node. cl_Id node) (cc_Clients e)"

lemma in_map_filter: "y \<in> set (List.map_filter f xs) \<longleftrightarrow> (\<exists>x\<in>set xs. f x = Some y)"
  by (induction xs) (auto simp: List.map_filter_simps split: option.splits)

lemma peers_linked:
  assumes "orders rng" "graph_ok (network_nodes e) (cc_Graph e)"
  shows "\<exists>ps. GetPeers rng e a = Some ps \<and>
    (\<forall>b. b \<in> set ps \<longleftrightarrow> b \<noteq> a \<and> b \<noteq> [] \<and> linked (network_nodes e) (cc_Graph e) a b)"
proof -
  from parse_graph_result [OF assms(1), of "network_nodes e" "cc_Graph e"] assms(2) obtain pairs where
    p: "ParseGraph rng (cc_Graph e) (network_nodes e) = Some (Inr pairs)"
      "\<And>a b. (a, b) \<in> set pairs \<longleftrightarrow> a < b \<and> linked (network_nodes e) (cc_Graph e) a b" by auto
  have peer: "peer_of a (x, y) = Some b \<longleftrightarrow> b \<noteq> [] \<and> (x = a \<and> y = b \<or> y = a \<and> x = b)"
    if "(x, y) \<in> set pairs" for x y b
    using p(2) [of x y] that by (auto simp: peer_of_def)
  have "b \<in> set (List.map_filter (peer_of a) pairs) \<longleftrightarrow>
      b \<noteq> a \<and> b \<noteq> [] \<and> linked (network_nodes e) (cc_Graph e) a b" for b
  proof -
    have "b \<in> set (List.map_filter (peer_of a) pairs) \<longleftrightarrow> (\<exists>x y. (x, y) \<in> set pairs \<and> peer_of a (x, y) = Some b)"
      by (simp add: in_map_filter Bex_def)
    also have "\<dots> \<longleftrightarrow> b \<noteq> [] \<and> ((a, b) \<in> set pairs \<or> (b, a) \<in> set pairs)"
    proof
      assume "\<exists>x y. (x, y) \<in> set pairs \<and> peer_of a (x, y) = Some b"
      then obtain x y where "(x, y) \<in> set pairs" "peer_of a (x, y) = Some b" by (elim exE conjE)
      then show "b \<noteq> [] \<and> ((a, b) \<in> set pairs \<or> (b, a) \<in> set pairs)" using peer [of x y b] by auto
    next
      assume r: "b \<noteq> [] \<and> ((a, b) \<in> set pairs \<or> (b, a) \<in> set pairs)"
      show "\<exists>x y. (x, y) \<in> set pairs \<and> peer_of a (x, y) = Some b"
      proof (cases "(a, b) \<in> set pairs")
        case True
        then show ?thesis using r peer [OF True, of b] by (intro exI [of _ a] exI [of _ b]) simp
      next
        case False
        then show ?thesis using r peer [of b a b] by (intro exI [of _ b] exI [of _ a]) simp
      qed
    qed
    also have "\<dots> \<longleftrightarrow> b \<noteq> a \<and> b \<noteq> [] \<and> linked (network_nodes e) (cc_Graph e) a b"
      using p(2) [of a b] p(2) [of b a] linked_sym by (cases a b rule: linorder_cases) auto
    finally show ?thesis .
  qed
  then show ?thesis using p(1) by (simp add: GetPeers_def network_nodes_def)
qed

text \<open>C13: Two nodes that read the same configuration agree on being peers, although each ranges over its
maps in its own order: if \<open>b\<close> is a peer of \<open>a\<close>, then \<open>b\<close>'s own list is computed without a panic and
contains \<open>a\<close>.\<close>

theorem peers_symmetric:
  assumes "orders rng" "orders rng'" "GetPeers rng e a = Some ps" "b \<in> set ps" "a \<noteq> []"
  shows "\<exists>qs. GetPeers rng' e b = Some qs \<and> a \<in> set qs"
proof -
  have ok: "graph_ok (network_nodes e) (cc_Graph e)"
    using parse_graph_result [OF assms(1), of "network_nodes e" "cc_Graph e"] assms(3)
    by (auto simp: GetPeers_def network_nodes_def split: if_splits)
  from peers_linked [OF assms(1) ok, of a] assms(3,4) have "b \<noteq> a" "linked (network_nodes e) (cc_Graph e) a b" by auto
  then show ?thesis using peers_linked [OF assms(2) ok, of b] linked_sym assms(5) by auto
qed

definition network_2 :: CentralCfg where
  "network_2 = network_1\<lparr>cc_Graph := graph_1\<rparr>"

theorem peers_symmetric_witness: "\<exists>qs. GetPeers rev network_2 ''c'' = Some qs \<and> ''a'' \<in> set qs"
proof (rule peers_symmetric)
  show "orders (\<lambda>m. m)" "orders rev" by (simp_all add: orders_def)
  show "GetPeers (\<lambda>m. m) network_2 ''a'' = Some [''c'']" by code_simp
qed simp_all

end
