(* ===== verification/Packet.thy ===== *)
theory Packet
  imports Node_Ids
begin

text \<open>
  Packets of the traffic-control layer (\<^verbatim>\<open>polyamide/device/traffic_manip.go\<close> and the element of
  \<^verbatim>\<open>traffic_control.go\<close>). A packet is a window of its buffer, given by an offset and a length, so
  writes through the packet are writes to the buffer; Go's bounds checks are against the length for an
  index and against the capacity for a slice, and a failed check is the result \<open>None\<close>. A pointer to a
  peer is its public key.
\<close>

unbundle bit_operations_syntax

type_synonym Peer = NyPublicKey

subsection \<open>Slices\<close>

definition MessageTransportHeaderSize :: nat where "MessageTransportHeaderSize = 16"
definition MessageTransportOffsetContent :: nat where "MessageTransportOffsetContent = 16"
definition PolyHeaderSize :: nat where "PolyHeaderSize = 3"
definition PolyOffsetPayloadLength :: nat where "PolyOffsetPayloadLength = 1"
definition MplsLseLen :: nat where "MplsLseLen = 4"
definition IPv4offsetTotalLength :: nat where "IPv4offsetTotalLength = 2"
definition IPv4offsetSrc :: nat where "IPv4offsetSrc = 12"
definition IPv4offsetDst :: nat where "IPv4offsetDst = 16"
definition IPv6offsetPayloadLength :: nat where "IPv6offsetPayloadLength = 4"
definition IPv6offsetSrc :: nat where "IPv6offsetSrc = 8"
definition IPv6offsetDst :: nat where "IPv6offsetDst = 24"

lemmas packet_consts = MessageTransportHeaderSize_def MessageTransportOffsetContent_def PolyHeaderSize_def
  PolyOffsetPayloadLength_def MplsLseLen_def IPv4offsetTotalLength_def IPv4offsetSrc_def IPv4offsetDst_def
  IPv6offsetPayloadLength_def IPv6offsetSrc_def IPv6offsetDst_def

record TCElement =
  tc_Buffer :: "bytes option"
  tc_Off :: nat
  tc_Len :: nat
  tc_FromEp :: "AddrPort option"
  tc_ToEp :: "AddrPort option"
  tc_FromPeer :: "Peer option"
  tc_ToPeer :: "Peer option"
  tc_Priority :: nat
  tc_L3Proto :: u16

text \<open>The bytes of a window of a buffer, and overwriting them; \<^verbatim>\<open>copy\<close> moves as if through a
temporary.\<close>

definition window :: "nat \<Rightarrow> nat \<Rightarrow> bytes \<Rightarrow> bytes" where
  "window off n buf = take n (drop off buf)"

definition overwrite :: "nat \<Rightarrow> bytes \<Rightarrow> bytes \<Rightarrow> bytes" where
  "overwrite off bs buf = take off buf @ bs @ drop (off + length bs) buf"

definition tc_buf :: "TCElement \<Rightarrow> bytes" where
  "tc_buf e = (case tc_Buffer e of None \<Rightarrow> [] | Some b \<Rightarrow> b)"

definition tc_Packet :: "TCElement \<Rightarrow> bytes" where
  "tc_Packet e = window (tc_Off e) (tc_Len e) (tc_buf e)"

text \<open>\<^verbatim>\<open>elem.Packet[i]\<close> and \<^verbatim>\<open>elem.Packet[i] = v\<close>.\<close>

definition pkt_get :: "TCElement \<Rightarrow> nat \<Rightarrow> u8 option" where
  "pkt_get e i = (if i < tc_Len e then Some (tc_buf e ! (tc_Off e + i)) else None)"

definition pkt_set :: "nat \<Rightarrow> u8 \<Rightarrow> TCElement \<Rightarrow> TCElement option" where
  "pkt_set i v e =
     (if i < tc_Len e then Some (e\<lparr>tc_Buffer := map_option (\<lambda>b. b[tc_Off e + i := v]) (tc_Buffer e)\<rparr>) else None)"

text \<open>\<^verbatim>\<open>elem.Packet[a:a+n]\<close>, read and overwritten; the bound is the capacity of the slice.\<close>

definition pkt_slice :: "TCElement \<Rightarrow> nat \<Rightarrow> nat \<Rightarrow> bytes option" where
  "pkt_slice e a n =
     (if tc_Off e + a + n \<le> length (tc_buf e) then Some (window (tc_Off e + a) n (tc_buf e)) else None)"

definition pkt_write :: "nat \<Rightarrow> bytes \<Rightarrow> TCElement \<Rightarrow> TCElement option" where
  "pkt_write a bs e =
     (if tc_Off e + a + length bs \<le> length (tc_buf e)
      then Some (e\<lparr>tc_Buffer := map_option (overwrite (tc_Off e + a) bs) (tc_Buffer e)\<rparr>) else None)"

definition be16 :: "bytes \<Rightarrow> u16" where
  "be16 bs = word_of_nat (be_dec bs)"

definition put16 :: "u16 \<Rightarrow> bytes" where
  "put16 v = be_enc 2 (unat v)"

subsection \<open>Header fields\<close>

definition Incoming :: "TCElement \<Rightarrow> bool" where
  "Incoming e \<longleftrightarrow> tc_FromPeer e \<noteq> None"

definition GetIPVersion :: "TCElement \<Rightarrow> nat option" where
  "GetIPVersion e = map_option (\<lambda>b. unat (drop_bit 4 b)) (pkt_get e 0)"

text \<open>The outer option is a failed bounds check, the inner one Go's nil slice.\<close>

definition GetSrcBytes :: "TCElement \<Rightarrow> bytes option option" where
  "GetSrcBytes e = do {
     ver \<leftarrow> GetIPVersion e;
     (if ver = 4 then map_option Some (pkt_slice e IPv4offsetSrc 4)
      else if ver = 6 then map_option Some (pkt_slice e IPv6offsetSrc 16)
      else Some None)
   }"

definition GetDstBytes :: "TCElement \<Rightarrow> bytes option option" where
  "GetDstBytes e = do {
     ver \<leftarrow> GetIPVersion e;
     (if ver = 4 then map_option Some (pkt_slice e IPv4offsetDst 4)
      else if ver = 6 then map_option Some (pkt_slice e IPv6offsetDst 16)
      else Some None)
   }"

definition AddrFrom4 :: "bytes \<Rightarrow> Addr" where
  "AddrFrom4 b = Addr4 (word_of_nat (be_dec b))"

definition AddrFrom16 :: "bytes \<Rightarrow> Addr" where
  "AddrFrom16 b = Addr6 (word_of_nat (be_dec b)) []"

definition IPv4Unspecified :: Addr where
  "IPv4Unspecified = Addr4 0"

definition addr_of_bytes :: "nat \<Rightarrow> bytes option \<Rightarrow> Addr" where
  "addr_of_bytes ver b =
     (case b of None \<Rightarrow> IPv4Unspecified | Some b \<Rightarrow> if ver = 4 then AddrFrom4 b else AddrFrom16 b)"

definition GetSrc :: "TCElement \<Rightarrow> Addr option" where
  "GetSrc e = do { ver \<leftarrow> GetIPVersion e; b \<leftarrow> GetSrcBytes e; Some (addr_of_bytes ver b) }"

definition GetDst :: "TCElement \<Rightarrow> Addr option" where
  "GetDst e = do { ver \<leftarrow> GetIPVersion e; b \<leftarrow> GetDstBytes e; Some (addr_of_bytes ver b) }"

text \<open>\<^verbatim>\<open>copy(dst, bin)\<close> stops at the shorter slice; a nil destination takes nothing.\<close>

definition SetSrc :: "Addr \<Rightarrow> TCElement \<Rightarrow> TCElement option" where
  "SetSrc addr e = do {
     ver \<leftarrow> GetIPVersion e;
     b \<leftarrow> GetSrcBytes e;
     (case b of
        None \<Rightarrow> Some e
      | Some dst \<Rightarrow> pkt_write (if ver = 4 then IPv4offsetSrc else IPv6offsetSrc)
                      (take (length dst) (Addr_MarshalBinary addr)) e)
   }"

definition SetDst :: "Addr \<Rightarrow> TCElement \<Rightarrow> TCElement option" where
  "SetDst addr e = do {
     ver \<leftarrow> GetIPVersion e;
     b \<leftarrow> GetDstBytes e;
     (case b of
        None \<Rightarrow> Some e
      | Some dst \<Rightarrow> pkt_write (if ver = 4 then IPv4offsetDst else IPv6offsetDst)
                      (take (length dst) (Addr_MarshalBinary addr)) e)
   }"

definition SetIPVersion :: "nat \<Rightarrow> TCElement \<Rightarrow> TCElement option" where
  "SetIPVersion ver e = pkt_set 0 (push_bit 4 (word_of_nat ver)) e"

text \<open>The length with the header; the sums are those of \<^verbatim>\<open>uint16\<close>.\<close>

definition GetLength :: "TCElement \<Rightarrow> u16 option" where
  "GetLength e = do {
     ver \<leftarrow> GetIPVersion e;
     (if ver = 4 then map_option be16 (pkt_slice e IPv4offsetTotalLength 2)
      else if ver = 6 then map_option (\<lambda>f. be16 f + 40) (pkt_slice e IPv6offsetPayloadLength 2)
      else map_option (\<lambda>f. be16 f + 3) (pkt_slice e PolyOffsetPayloadLength 2))
   }"

definition SetLength :: "u16 \<Rightarrow> TCElement \<Rightarrow> TCElement option" where
  "SetLength len e = do {
     ver \<leftarrow> GetIPVersion e;
     (if ver = 4 then pkt_write IPv4offsetTotalLength (put16 len) e
      else if ver = 6 then pkt_write IPv6offsetPayloadLength (put16 (len - 40)) e
      else pkt_write PolyOffsetPayloadLength (put16 (len - 3)) e)
   }"

definition header_len :: "nat \<Rightarrow> nat" where
  "header_len ver = (if ver = 4 then 20 else if ver = 6 then 40 else PolyHeaderSize)"

text \<open>\<^verbatim>\<open>elem.Packet[headerLen:]\<close>, as the start of the window of the payload.\<close>

definition Payload :: "TCElement \<Rightarrow> bytes option" where
  "Payload e = do {
     ver \<leftarrow> GetIPVersion e;
     (if header_len ver \<le> tc_Len e then Some (drop (header_len ver) (tc_Packet e)) else None)
   }"

definition hasPacketHeader :: "TCElement \<Rightarrow> bool" where
  "hasPacketHeader e \<longleftrightarrow>
     PolyHeaderSize \<le> tc_Len e \<and>
     (case GetIPVersion e of None \<Rightarrow> False | Some ver \<Rightarrow> header_len ver \<le> tc_Len e)"

definition Validate :: "TCElement \<Rightarrow> bool option" where
  "Validate e =
     (if tc_Len e = 0 \<or> \<not> hasPacketHeader e then Some False
      else do {
        ver \<leftarrow> GetIPVersion e;
        l \<leftarrow> GetLength e;
        Some (header_len ver \<le> unat l)
      })"

definition ParsePacket :: "TCElement \<Rightarrow> (bool \<times> TCElement) option" where
  "ParsePacket e =
     (if tc_Len e = 0 \<and> tc_Buffer e = None then Some (False, e)
      else
        let e = (if tc_Len e = 0
                 then e\<lparr>tc_Off := MessageTransportHeaderSize, tc_Len := length (tc_buf e) - MessageTransportHeaderSize\<rparr>
                 else e)
        in if \<not> hasPacketHeader e then Some (False, e)
           else do {
             l \<leftarrow> GetLength e;
             (if unat l > tc_Len e then Some (False, e) else Some (True, e\<lparr>tc_Len := unat l\<rparr>))
           })"

definition InitPacket :: "nat \<Rightarrow> u16 \<Rightarrow> TCElement \<Rightarrow> TCElement option" where
  "InitPacket ver len e =
     (let hi = unat (16 + len)
      in if MessageTransportHeaderSize \<le> hi \<and> hi \<le> length (tc_buf e)
         then do {
           e \<leftarrow> SetIPVersion ver (e\<lparr>tc_Off := MessageTransportHeaderSize, tc_Len := hi - MessageTransportHeaderSize\<rparr>);
           SetLength len e
         }
         else None)"

text \<open>The byte of the hop limit; the panic for other protocols is \<open>None\<close>.\<close>

definition ttl_offset :: "TCElement \<Rightarrow> nat option" where
  "ttl_offset e = do {
     ver \<leftarrow> GetIPVersion e;
     (if ver = 4 then Some 8 else if ver = 6 then Some 7 else None)
   }"

definition GetTTL :: "TCElement \<Rightarrow> u8 option" where
  "GetTTL e = do { i \<leftarrow> ttl_offset e; b \<leftarrow> pkt_slice e i 1; Some (hd b) }"

definition DecrementTTL :: "TCElement \<Rightarrow> TCElement option" where
  "DecrementTTL e = do {
     i \<leftarrow> ttl_offset e;
     b \<leftarrow> pkt_slice e i 1;
     e \<leftarrow> pkt_write i [hd b - 1] e;
     ver \<leftarrow> GetIPVersion e;
     (if ver = 4
      then do {
        f \<leftarrow> pkt_slice e 10 2;
        let csum = (ucast (be16 f) :: u32) + 0x100;
        let csum = csum + drop_bit 16 csum;
        pkt_write 10 (put16 (ucast csum)) e
      }
      else Some e)
   }"

definition FrameMplsUnicast :: "nat \<Rightarrow> nat \<Rightarrow> nat \<Rightarrow> nat \<Rightarrow> TCElement \<Rightarrow> nat \<times> TCElement" where
  "FrameMplsUnicast off sz protoId subtype e =
     (let prefix = PolyHeaderSize + 1
      in if sz < MplsLseLen \<or> off + sz + prefix > length (tc_buf e) then (sz, e)
         else
           let b = overwrite (off + prefix) (window off sz (tc_buf e)) (tc_buf e);
               b = b[off := word_of_nat (protoId * 16)];
               b = overwrite (off + PolyOffsetPayloadLength) (put16 (word_of_nat (sz + 1))) b;
               b = b[off + PolyHeaderSize := word_of_nat subtype]
           in (sz + prefix, e\<lparr>tc_Buffer := map_option (\<lambda>_. b) (tc_Buffer e)\<rparr>))"

end
