(* ===== verification/Unicast.thy ===== *)
theory Unicast
  imports Packet
begin

text \<open>
  Node-to-node unicast packets (\<^verbatim>\<open>core/nylon_unicast.go\<close>): the MPLS label-stack entry, wrapping an
  IP packet for an exit node, and what transit and exit nodes do with it. The handler reads an
  immutable snapshot of the node's identity and its next hops.
\<close>

unbundle bit_operations_syntax

definition NyUnicastProtoId :: nat where "NyUnicastProtoId = 9"
definition NyUnicastHeaderSize :: nat where "NyUnicastHeaderSize = 1 + MplsLseLen"
definition NyUnicastDefaultTTL :: u8 where "NyUnicastDefaultTTL = 64"
definition NyUnicastOffsetSubtype :: nat where "NyUnicastOffsetSubtype = 0"
definition NyUnicastOffsetLse :: nat where "NyUnicastOffsetLse = 1"
definition NyUnicastSubtypeMpls :: u8 where "NyUnicastSubtypeMpls = 1"
definition EthPMplsUnicast :: u16 where "EthPMplsUnicast = 0x8847"

lemmas unicast_consts = NyUnicastProtoId_def NyUnicastHeaderSize_def NyUnicastDefaultTTL_def
  NyUnicastOffsetSubtype_def NyUnicastOffsetLse_def NyUnicastSubtypeMpls_def

subsection \<open>Label-stack entries\<close>

definition encodeMplsLse :: "u32 \<Rightarrow> u8 \<Rightarrow> bool \<Rightarrow> u8 \<Rightarrow> bytes" where
  "encodeMplsLse label tc bos ttl =
     be_enc 4 (unat (push_bit 12 (label AND 0xFFFFF) OR push_bit 9 (ucast (tc AND 7) :: u32) OR
       push_bit 8 (if bos then 1 else 0) OR ucast ttl))"

definition decodeMplsLse :: "bytes \<Rightarrow> u32 \<times> u8 \<times> bool \<times> u8" where
  "decodeMplsLse b =
     (let v = word_of_nat (be_dec b) :: u32
      in (drop_bit 12 v, ucast (drop_bit 9 v AND 7), drop_bit 8 v AND 1 = 1, ucast v))"

subsection \<open>The exit filter\<close>

record RouteTableEntry =
  rte_Nh :: NodeId
  rte_Peer :: "Peer option"
  rte_Blackhole :: bool

record ExitFilterSnapshot =
  snap_LocalId :: NodeId
  snap_LocalIdNumeric :: NodeIdNumeric
  snap_AdvertiseExitNode :: bool
  snap_ExitNode :: NodeId
  snap_ExitNodeNumeric :: NodeIdNumeric
  snap_NumericNames :: "(NodeIdNumeric, NodeId) gomap"
  snap_NodeForward :: "(NodeIdNumeric, RouteTableEntry) gomap"

definition add_name :: "NodeIdMap option \<Rightarrow> NodeCfg \<Rightarrow> (NodeIdNumeric, NodeId) gomap \<Rightarrow> (NodeIdNumeric, NodeId) gomap" where
  "add_name idMap n names =
     (case ToNumeric idMap (nc_Id n) of None \<Rightarrow> names | Some numeric \<Rightarrow> mput numeric (nc_Id n) names)"

text \<open>The first address of a node that a usable entry covers; \<open>lookup\<close> is the forwarding table's.\<close>

definition add_forward ::
  "NodeId \<Rightarrow> NodeIdMap option \<Rightarrow> (Addr \<Rightarrow> RouteTableEntry option) \<Rightarrow> NodeCfg \<Rightarrow>
   (NodeIdNumeric, RouteTableEntry) gomap \<Rightarrow> (NodeIdNumeric, RouteTableEntry) gomap" where
  "add_forward self idMap lookup n fwd =
     (if nc_Id n = self then fwd
      else case ToNumeric idMap (nc_Id n) of
             None \<Rightarrow> fwd
           | Some numeric \<Rightarrow>
               if mget fwd numeric \<noteq> None then fwd
               else case find (\<lambda>addr. case lookup addr of
                                       None \<Rightarrow> False
                                     | Some entry \<Rightarrow> \<not> rte_Blackhole entry \<and> rte_Peer entry \<noteq> None) (nc_Addresses n) of
                      None \<Rightarrow> fwd
                    | Some addr \<Rightarrow> (case lookup addr of None \<Rightarrow> fwd | Some entry \<Rightarrow> mput numeric entry fwd))"

definition rebuildExitFilterSnapshot ::
  "LocalCfg \<Rightarrow> CentralCfg \<Rightarrow> NodeIdMap option \<Rightarrow> (Addr \<Rightarrow> RouteTableEntry option) \<Rightarrow> ExitFilterSnapshot" where
  "rebuildExitFilterSnapshot lc cc idMap lookup =
     \<lparr>snap_LocalId = lc_Id lc,
      snap_LocalIdNumeric =
        (case ToNumeric idMap (lc_Id lc) of None \<Rightarrow> InvalidNodeIdNumeric | Some numeric \<Rightarrow> numeric),
      snap_AdvertiseExitNode = lc_AdvertiseExitNode lc,
      snap_ExitNode = lc_ExitNode lc,
      snap_ExitNodeNumeric =
        (if lc_ExitNode lc \<noteq> []
         then case ToNumeric idMap (lc_ExitNode lc) of None \<Rightarrow> InvalidNodeIdNumeric | Some numeric \<Rightarrow> numeric
         else InvalidNodeIdNumeric),
      snap_NumericNames = fold (add_name idMap) (GetNodes cc) [],
      snap_NodeForward = fold (add_forward (lc_Id lc) idMap lookup) (GetNodes cc) []\<rparr>"

subsection \<open>Wrapping and handling\<close>

datatype TCAction = TcPass | TcBounce | TcForward | TcDrop

definition TcNormalPriority :: nat where "TcNormalPriority = 0"
definition TcMediumPriority :: nat where "TcMediumPriority = 1"
definition TcHighPriority :: nat where "TcHighPriority = 2"
definition TcMaxPriority :: nat where "TcMaxPriority = 3"

text \<open>An error of a handler is its message; a failed bounds check is \<open>None\<close>.\<close>

definition wrapExitPacket :: "TCElement \<Rightarrow> NodeIdNumeric \<Rightarrow> (string + TCElement) option" where
  "wrapExitPacket packet exit =
     (if exit = InvalidNodeIdNumeric then Some (Inl ''nylon: invalid node id in exit header'')
      else
        let inner = tc_Packet packet;
            headerLen = PolyHeaderSize + NyUnicastHeaderSize;
            totalLen = headerLen + tc_Len packet
        in if totalLen + MessageTransportHeaderSize > length (tc_buf packet)
           then Some (Inl ''nylon: packet too large for exit encapsulation'')
           else do {
             let e = packet\<lparr>tc_Buffer := map_option (overwrite (MessageTransportHeaderSize + headerLen) inner) (tc_Buffer packet),
                            tc_Off := MessageTransportHeaderSize, tc_Len := totalLen\<rparr>;
             e \<leftarrow> SetIPVersion NyUnicastProtoId e;
             e \<leftarrow> SetLength (word_of_nat totalLen) e;
             e \<leftarrow> pkt_set (PolyHeaderSize + NyUnicastOffsetSubtype) NyUnicastSubtypeMpls e;
             e \<leftarrow> pkt_write (PolyHeaderSize + NyUnicastOffsetLse)
                    (encodeMplsLse exit 0 True NyUnicastDefaultTTL) e;
             Some (Inr e)
           })"

definition packetAddr :: "bytes \<Rightarrow> bool \<Rightarrow> string + Addr" where
  "packetAddr packet src =
     (if packet = [] then Inl ''empty inner packet''
      else
        let ver = unat (drop_bit 4 (hd packet))
        in if ver = 4
           then let off = (if src then IPv4offsetSrc else IPv4offsetDst)
                in if length packet < off + 4 then Inl ''short IPv4 packet''
                   else Inr (AddrFrom4 (window off 4 packet))
           else if ver = 6
           then let off = (if src then IPv6offsetSrc else IPv6offsetDst)
                in if length packet < off + 16 then Inl ''short IPv6 packet''
                   else Inr (AddrFrom16 (window off 16 packet))
           else Inl ''inner packet is not IP'')"

text \<open>
  \<^verbatim>\<open>copy(packet.Packet[:len(rest)], rest)\<close> and reslicing: the packet becomes its own tail from \<open>k\<close>.
\<close>

definition strip_header :: "nat \<Rightarrow> TCElement \<Rightarrow> TCElement" where
  "strip_header k e =
     (let rest = drop k (tc_Packet e)
      in e\<lparr>tc_Buffer := map_option (overwrite (tc_Off e) rest) (tc_Buffer e), tc_Len := length rest\<rparr>)"

definition handleMplsPacket ::
  "TCElement \<Rightarrow> ExitFilterSnapshot \<Rightarrow> (TCAction \<times> string option \<times> TCElement) option" where
  "handleMplsPacket packet snap = do {
     payload \<leftarrow> Payload packet;
     ver \<leftarrow> GetIPVersion packet;
     (if length payload < NyUnicastHeaderSize
      then Some (TcDrop, Some ''mpls packet shorter than header'', packet)
      else
        let (label, _, bos, ttl) = decodeMplsLse (window NyUnicastOffsetLse MplsLseLen payload);
            hdr = header_len ver
        in if ttl = 0 then Some (TcDrop, Some ''mpls ttl exceeded'', packet)
           else if label \<noteq> snap_LocalIdNumeric snap
           then (case mget (snap_NodeForward snap) label of
                   None \<Rightarrow> Some (TcDrop, Some ''no route to node'', packet)
                 | Some entry \<Rightarrow>
                     if rte_Peer entry = None then Some (TcDrop, Some ''no route to node'', packet)
                     else do {
                       let i = hdr + NyUnicastOffsetLse + MplsLseLen - 1;
                       b \<leftarrow> pkt_get packet i;
                       packet \<leftarrow> pkt_set i (b - 1) packet;
                       Some (TcForward, None, packet\<lparr>tc_ToPeer := rte_Peer entry, tc_Priority := TcMediumPriority\<rparr>)
                     })
           else if \<not> snap_AdvertiseExitNode snap
           then Some (TcDrop, Some ''local node is not advertising exit service'', packet)
           else
             let rest = drop NyUnicastHeaderSize payload
             in if rest = [] then Some (TcDrop, Some ''mpls packet has no payload'', packet)
                else if \<not> bos
                then if length rest < MplsLseLen
                     then Some (TcDrop, Some ''mpls stack truncated after outer label'', packet)
                     else Some (TcBounce, None, (strip_header (hdr + NyUnicastHeaderSize) packet)\<lparr>tc_L3Proto := EthPMplsUnicast\<rparr>)
                else case packetAddr rest True of
                       Inl e \<Rightarrow> Some (TcDrop, Some e, packet)
                     | Inr src \<Rightarrow>
                         (case packetAddr rest False of
                            Inl e \<Rightarrow> Some (TcDrop, Some e, packet)
                          | Inr dst \<Rightarrow> do {
                              (ok, packet) \<leftarrow> ParsePacket (strip_header (hdr + NyUnicastHeaderSize) packet);
                              Some (TcBounce, None, packet)
                            }))
   }"

end
