(* ===== verification/Unicast_Properties.thy ===== *)
theory Unicast_Properties
  imports Unicast
begin

text \<open>
  Round trips of label-stack entries and of exit tunnels, the safety of header accesses after
  parsing, and the incremental checksum of a decremented hop limit.
\<close>

unbundle bit_operations_syntax

subsection \<open>Label-stack entries\<close>

definition lse_word :: "u32 \<Rightarrow> u8 \<Rightarrow> bool \<Rightarrow> u8 \<Rightarrow> u32" where
  "lse_word label tc bos ttl =
     push_bit 12 (label AND 0xFFFFF) OR push_bit 9 (ucast (tc AND 7) :: u32) OR
       push_bit 8 (if bos then 1 else 0) OR ucast ttl"

lemma mask_consts: "(0xFFFFF :: u32) = mask 20" "(7 :: u8) = mask 3" "(7 :: u32) = mask 3"
  by (simp_all add: mask_eq_exp_minus_1)

lemma bit_lse_word:
  "bit (lse_word label tc bos ttl) n \<longleftrightarrow>
     (n < 8 \<and> bit ttl n) \<or> (n = 8 \<and> bos) \<or> (9 \<le> n \<and> n < 12 \<and> bit tc (n - 9)) \<or>
     (12 \<le> n \<and> n < 32 \<and> bit label (n - 12))"
proof -
  have 1: "bit (push_bit 12 (label AND 0xFFFFF)) n \<longleftrightarrow> 12 \<le> n \<and> n < 32 \<and> bit label (n - 12)"
    unfolding mask_consts by (auto simp: bit_simps)
  have 2: "bit (push_bit 9 (ucast (tc AND 7) :: u32)) n \<longleftrightarrow> 9 \<le> n \<and> n < 12 \<and> bit tc (n - 9)"
    unfolding mask_consts by (auto simp: bit_simps)
  have 3: "bit (push_bit 8 (if bos then 1 else 0 :: u32)) n \<longleftrightarrow> n = 8 \<and> bos"
    by (auto simp: bit_simps)
  have 4: "bit (ucast ttl :: u32) n \<longleftrightarrow> n < 8 \<and> bit ttl n"
    using bit_imp_le_length [of ttl n] by (auto simp: bit_simps)
  show ?thesis
    unfolding lse_word_def bit_or_iff 1 2 3 4 by auto
qed

lemma encodeMplsLse_word: "encodeMplsLse label tc bos ttl = be_enc 4 (unat (lse_word label tc bos ttl))"
  by (simp add: encodeMplsLse_def lse_word_def)

lemma be32_roundtrip: "word_of_nat (be_dec (be_enc 4 (unat (w :: u32)))) = w"
proof -
  have "unat w < 2 ^ 32"
    using unsigned_less [of w] by simp
  then show ?thesis by simp
qed

lemma unat_of_small: "x < 2 ^ 32 \<Longrightarrow> unat (word_of_nat x :: u32) = x"
  by (simp add: unsigned_of_nat take_bit_nat_eq_self_iff)

lemma be_enc_dec_length: "length bs = n \<Longrightarrow> be_enc n (be_dec bs) = bs"
  using be_enc_dec [of bs] by blast

lemma lse_label: "drop_bit 12 (lse_word label tc bos ttl) = label AND 0xFFFFF"
  by (rule bit_word_eqI) (auto simp: bit_drop_bit_eq bit_lse_word mask_consts bit_simps)

lemma lse_tc: "ucast (drop_bit 9 (lse_word label tc bos ttl) AND 7) = tc AND 7"
  by (rule bit_word_eqI) (auto simp: bit_drop_bit_eq bit_lse_word mask_consts bit_simps)

lemma and_one_bit: "(drop_bit n w AND 1 = 1) = bit w n" for w :: "'a :: len word"
  by (simp add: and_one_eq bit_iff_odd_drop_bit odd_iff_mod_2_eq_one)

lemma lse_ttl: "ucast (lse_word label tc bos ttl) = ttl"
  by (rule bit_word_eqI) (auto simp: bit_lse_word bit_simps)

lemma decode_encode_lse:
  "decodeMplsLse (encodeMplsLse label tc bos ttl) = (label AND 0xFFFFF, tc AND 7, bos, ttl)"
  unfolding decodeMplsLse_def encodeMplsLse_word be32_roundtrip Let_def
  by (simp add: lse_label lse_tc and_one_bit bit_lse_word lse_ttl)

lemma lse_word_decoded:
  "lse_word (drop_bit 12 v) (ucast (drop_bit 9 v AND 7)) (bit v 8) (ucast v) = v"
proof (rule bit_word_eqI)
  fix n assume "n < LENGTH(32)"
  then have n: "n < 32" by simp
  consider "n < 8" | "n = 8" | "9 \<le> n" "n < 12" | "12 \<le> n" by linarith
  then show "bit (lse_word (drop_bit 12 v) (ucast (drop_bit 9 v AND 7)) (bit v 8) (ucast v)) n = bit v n"
  proof cases
    case 3
    then show ?thesis
      by (auto simp: bit_lse_word mask_consts bit_simps)
  qed (use n in \<open>auto simp: bit_lse_word bit_simps\<close>)
qed

text \<open>C38: Decoding an encoded label-stack entry gives back the low 20 bits of the label, the low
three of the traffic class, the bottom-of-stack flag and the hop limit, and encoding a decoded entry
gives back its four bytes.\<close>

theorem mpls_lse_roundtrip:
  "decodeMplsLse (encodeMplsLse label tc bos ttl) = (label AND 0xFFFFF, tc AND 7, bos, ttl) \<and>
   (case decodeMplsLse [a, b, c, d] of (label', tc', bos', ttl') \<Rightarrow> encodeMplsLse label' tc' bos' ttl' = [a, b, c, d])"
proof
  let ?v = "word_of_nat (be_dec [a, b, c, d]) :: u32"
  have "be_dec [a, b, c, d] < 2 ^ 32"
    using be_dec_less [of "[a, b, c, d]"] by simp
  then have "unat ?v = be_dec [a, b, c, d]"
    by (rule unat_of_small)
  moreover have "be_enc 4 (be_dec [a, b, c, d]) = [a, b, c, d]"
    by (rule be_enc_dec_length) simp
  ultimately have "be_enc 4 (unat ?v) = [a, b, c, d]" by metis
  then show "case decodeMplsLse [a, b, c, d] of (label', tc', bos', ttl') \<Rightarrow> encodeMplsLse label' tc' bos' ttl' = [a, b, c, d]"
    by (simp add: decodeMplsLse_def Let_def encodeMplsLse_word and_one_bit lse_word_decoded)
qed (rule decode_encode_lse)

subsection \<open>Packets as windows\<close>

definition valid_packet :: "TCElement \<Rightarrow> bool" where
  "valid_packet e \<longleftrightarrow> tc_Buffer e \<noteq> None \<and> tc_Off e + tc_Len e \<le> length (tc_buf e)"

text \<open>Replacing the bytes of the packet in place.\<close>

definition with_packet :: "bytes \<Rightarrow> TCElement \<Rightarrow> TCElement" where
  "with_packet p e = e\<lparr>tc_Buffer := map_option (overwrite (tc_Off e) p) (tc_Buffer e)\<rparr>"

lemma length_overwrite [simp]: "off + length bs \<le> length buf \<Longrightarrow> length (overwrite off bs buf) = length buf"
  by (simp add: overwrite_def)

lemma nth_overwrite:
  assumes "off + length bs \<le> length buf" "i < length buf"
  shows "overwrite off bs buf ! i = (if off \<le> i \<and> i < off + length bs then bs ! (i - off) else buf ! i)"
  using assms by (auto simp: overwrite_def nth_append min_def)

lemma length_window: "off + n \<le> length buf \<Longrightarrow> length (window off n buf) = n"
  by (simp add: window_def)

lemma nth_window: "off + n \<le> length buf \<Longrightarrow> i < n \<Longrightarrow> window off n buf ! i = buf ! (off + i)"
  by (simp add: window_def)

lemma window_overwrite:
  assumes "off + n \<le> length buf" "a + length bs \<le> n"
  shows "window off n (overwrite (off + a) bs buf) = overwrite a bs (window off n buf)"
  using assms by (intro nth_equalityI) (auto simp: length_window nth_window nth_overwrite)

lemma window_overwrite_all: "off + length p \<le> length buf \<Longrightarrow> window off (length p) (overwrite off p buf) = p"
  by (intro nth_equalityI) (auto simp: length_window nth_window nth_overwrite)

lemma overwrite_twice:
  "off + length p \<le> length buf \<Longrightarrow> length q = length p \<Longrightarrow> overwrite off q (overwrite off p buf) = overwrite off q buf"
  by (intro nth_equalityI) (auto simp: nth_overwrite)

lemma overwrite_inside:
  assumes "off + n \<le> length buf" "a + length bs \<le> n"
  shows "overwrite (off + a) bs buf = overwrite off (overwrite a bs (window off n buf)) buf"
  using assms by (intro nth_equalityI) (auto simp: nth_overwrite length_window nth_window)

lemma list_update_overwrite: "i < length p \<Longrightarrow> p[i := v] = overwrite i [v] p"
  by (intro nth_equalityI) (auto simp: nth_overwrite nth_list_update)

lemma tc_buf_valid: "valid_packet e \<Longrightarrow> tc_Buffer e = Some (tc_buf e)"
  by (auto simp: valid_packet_def tc_buf_def)

lemma length_tc_Packet: "valid_packet e \<Longrightarrow> length (tc_Packet e) = tc_Len e"
  by (simp add: tc_Packet_def length_window valid_packet_def)

lemma with_packet_simps [simp]:
  "tc_Off (with_packet p e) = tc_Off e" "tc_Len (with_packet p e) = tc_Len e"
  "tc_FromPeer (with_packet p e) = tc_FromPeer e" "tc_ToPeer (with_packet p e) = tc_ToPeer e"
  by (simp_all add: with_packet_def)

lemma buf_with_packet: "valid_packet e \<Longrightarrow> tc_buf (with_packet p e) = overwrite (tc_Off e) p (tc_buf e)"
  by (auto simp: with_packet_def tc_buf_def valid_packet_def)

lemma valid_with_packet [simp]:
  assumes "valid_packet e" "length p = tc_Len e"
  shows "valid_packet (with_packet p e)" "tc_Packet (with_packet p e) = p"
  using assms window_overwrite_all [of "tc_Off e" p "tc_buf e"]
  by (auto simp: valid_packet_def tc_Packet_def buf_with_packet [OF assms(1)]) (simp add: with_packet_def)

lemma with_packet_twice [simp]:
  assumes "valid_packet e" "length p = tc_Len e" "length q = tc_Len e"
  shows "with_packet q (with_packet p e) = with_packet q e"
  using assms by (auto simp: with_packet_def tc_buf_valid option.map_comp comp_def valid_packet_def overwrite_twice
      simp del: length_overwrite)

lemma pkt_get_eq: "valid_packet e \<Longrightarrow> pkt_get e i = (if i < tc_Len e then Some (tc_Packet e ! i) else None)"
  by (simp add: pkt_get_def tc_Packet_def nth_window valid_packet_def)

lemma pkt_slice_eq:
  assumes "valid_packet e" "a + n \<le> tc_Len e"
  shows "pkt_slice e a n = Some (window a n (tc_Packet e))"
  using assms by (auto simp: pkt_slice_def valid_packet_def tc_Packet_def window_def drop_take add.commute)

lemma pkt_write_eq:
  assumes "valid_packet e" "a + length bs \<le> tc_Len e"
  shows "pkt_write a bs e = Some (with_packet (overwrite a bs (tc_Packet e)) e)"
  using assms overwrite_inside [of "tc_Off e" "tc_Len e" "tc_buf e" a bs]
  by (auto simp: pkt_write_def with_packet_def tc_buf_valid valid_packet_def tc_Packet_def)

lemma pkt_set_eq:
  assumes "valid_packet e" "i < tc_Len e"
  shows "pkt_set i v e = Some (with_packet ((tc_Packet e)[i := v]) e)"
proof -
  have "pkt_set i v e = pkt_write i [v] e"
    using assms tc_buf_valid [OF assms(1)]
    by (auto simp: pkt_set_def pkt_write_def valid_packet_def list_update_overwrite)
  then show ?thesis
    using assms by (simp add: pkt_write_eq list_update_overwrite length_tc_Packet)
qed

subsection \<open>The hop limit\<close>

text \<open>The sum of the 16-bit words of a header, whose complement its checksum field makes zero.\<close>

fun word_sum :: "bytes \<Rightarrow> nat" where
  "word_sum (a # b # bs) = unat a * 256 + unat b + word_sum bs"
| "word_sum [a] = unat a * 256"
| "word_sum [] = 0"

lemma word_sum_append: "even (length xs) \<Longrightarrow> word_sum (xs @ ys) = word_sum xs + word_sum ys"
  by (induction xs rule: word_sum.induct) auto

text \<open>Adding 256 to a checksum with an end-around carry.\<close>

definition bump_checksum :: "u16 \<Rightarrow> u16" where
  "bump_checksum c =
     (let csum = (ucast c :: u32) + 0x100; csum = csum + drop_bit 16 csum in ucast csum)"

lemma bump_checksum_mod: "unat (bump_checksum c) mod 65535 = (unat c + 256) mod 65535"
proof -
  let ?s = "(ucast c :: u32) + 0x100"
  have c: "unat c < 65536" using unsigned_less [of c] by simp
  have s: "unat ?s = unat c + 256"
    using c by (simp add: unat_word_ariths unsigned_ucast_eq take_bit_nat_eq_self)
  have d: "unat (drop_bit 16 ?s) = (unat c + 256) div 65536"
    unfolding unsigned_drop_bit_eq s using c by (simp add: take_bit_nat_eq_self drop_bit_eq_div)
  have t: "unat (?s + drop_bit 16 ?s) = unat c + 256 + (unat c + 256) div 65536"
    unfolding unat_word_ariths(1) [of ?s] s d using c by simp
  have b: "unat (bump_checksum c) = (unat c + 256 + (unat c + 256) div 65536) mod 65536"
    by (simp add: bump_checksum_def Let_def unsigned_ucast_eq t take_bit_eq_mod)
  show ?thesis
  proof (cases "unat c + 256 < 65536")
    case True
    then show ?thesis by (simp add: b)
  next
    case False
    define r where "r = unat c - 65280"
    have r: "unat c + 256 = 65536 + r" "r < 256"
      using c False unfolding r_def by linarith+
    then have "(65537 + r) mod 65536 = Suc r" "(65536 + r) mod 65535 = Suc r mod 65535"
      by (simp_all add: le_mod_geq)
    with r show ?thesis by (simp add: b)
  qed
qed

lemma be_enc2: "be_enc 2 x = [of_nat (x div 256), of_nat x]"
  by (simp add: numeral_2_eq_2)

lemma unat_put16: "length (put16 v) = 2" "word_sum (put16 v) = unat v"
proof -
  have "unat v < 65536" using unsigned_less [of v] by simp
  then show "length (put16 v) = 2" "word_sum (put16 v) = unat v"
    by (auto simp: put16_def be_enc2 unsigned_of_nat unsigned_ucast_eq take_bit_eq_mod)
qed

lemma be16_pair: "unat (be16 [a, b]) = unat a * 256 + unat b"
proof -
  have "unat (word_of_nat x :: u16) = x" if "x < 65536" for x
    using that by (simp add: unsigned_of_nat take_bit_nat_eq_self_iff)
  moreover have "unat a < 256" "unat b < 256" using unsigned_less [of a] unsigned_less [of b] by simp_all
  then have "unat a * 256 + unat b < 65536" by linarith
  moreover have "be16 [a, b] = word_of_nat (unat a * 256 + unat b)"
    unfolding be16_def be_dec_def by simp
  ultimately show ?thesis by metis
qed

lemma GetIPVersion_valid: "valid_packet e \<Longrightarrow> 0 < tc_Len e \<Longrightarrow> GetIPVersion e = Some (unat (drop_bit 4 (tc_Packet e ! 0)))"
  by (simp add: GetIPVersion_def pkt_get_eq)

definition ttl_dropped :: "bytes \<Rightarrow> bytes" where
  "ttl_dropped p =
     overwrite 10 (put16 (bump_checksum (be16 (window 10 2 p)))) (p[8 := p ! 8 - 1])"

lemma window_one: "i < length p \<Longrightarrow> window i (Suc 0) p = [p ! i]"
  by (simp add: window_def Cons_nth_drop_Suc [symmetric])

lemma GetTTL_4:
  assumes "valid_packet e" "12 \<le> tc_Len e" "GetIPVersion e = Some 4"
  shows "GetTTL e = Some (tc_Packet e ! 8)"
  using assms by (simp add: GetTTL_def ttl_offset_def pkt_slice_eq window_one length_tc_Packet)

lemma DecrementTTL_4:
  assumes e: "valid_packet e" "12 \<le> tc_Len e" "GetIPVersion e = Some 4"
  shows "DecrementTTL e = Some (with_packet (ttl_dropped (tc_Packet e)) e)"
proof -
  let ?p = "tc_Packet e"
  let ?q = "?p[8 := ?p ! 8 - 1]"
  have len: "length ?p = tc_Len e" using e by (simp add: length_tc_Packet)
  have v: "GetIPVersion (with_packet ?q e) = Some 4"
    using e len by (simp add: GetIPVersion_valid)
  have w: "window 10 2 ?q = window 10 2 ?p"
    using e len by (intro nth_equalityI) (auto simp: length_window nth_window)
  have "pkt_write 8 [?p ! 8 - 1] e = Some (with_packet ?q e)"
    using e len by (simp add: pkt_write_eq list_update_overwrite)
  moreover have "pkt_slice (with_packet ?q e) 10 2 = Some (window 10 2 ?p)"
    using e len by (simp add: pkt_slice_eq w)
  moreover have "pkt_write 10 (put16 c) (with_packet ?q e) = Some (with_packet (overwrite 10 (put16 c) ?q) e)" for c
    using e len by (simp add: pkt_write_eq unat_put16)
  ultimately show ?thesis
    using e len v by (simp add: DecrementTTL_def ttl_offset_def pkt_slice_eq window_one ttl_dropped_def
        bump_checksum_def Let_def)
qed

lemma split_header:
  assumes "12 \<le> length (p :: bytes)"
  obtains xs t a b c ys where "p = xs @ t # a # b # c # ys" "length xs = 8"
proof -
  define q where "q = drop 8 p"
  have "Suc (Suc (Suc (Suc 0))) \<le> length q"
    using assms by (simp add: q_def)
  then obtain t a b c ys where "q = t # a # b # c # ys"
    by (metis Suc_le_length_iff)
  then have "p = take 8 p @ t # a # b # c # ys"
    using append_take_drop_id [of 8 p] by (simp add: q_def)
  then show ?thesis
    using that [of "take 8 p"] assms by simp
qed

lemma ttl_dropped_split:
  assumes "length xs = 8"
  shows "ttl_dropped (xs @ t # a # b # c # ys) =
    xs @ (t - 1) # a # put16 (bump_checksum (be16 [b, c])) @ ys"
proof -
  let ?p = "xs @ t # a # b # c # ys"
  have "?p ! 8 = t" "?p[8 := t - 1] = xs @ (t - 1) # a # b # c # ys" "window 10 2 ?p = [b, c]"
    using assms by (simp_all add: nth_append list_update_append window_def)
  then show ?thesis
    using assms by (simp add: ttl_dropped_def overwrite_def unat_put16(1) numeral_eq_Suc)
qed

lemma word_sum_ttl_dropped:
  assumes p: "12 \<le> n" "n \<le> length p" and t: "0 < p ! 8"
  shows "word_sum (take n (ttl_dropped p)) mod 65535 = word_sum (take n p) mod 65535"
proof -
  obtain xs t a b c ys where ps: "p = xs @ t # a # b # c # ys" and xs: "length xs = 8"
    using split_header [of p] p by (metis le_trans)
  let ?s = "word_sum xs + unat a + word_sum (take (n - 12) ys)"
  obtain m where m: "n = 12 + m" using p le_Suc_ex by blast
  have tk: "take n (xs @ zs) = xs @ take (Suc (Suc (Suc (Suc m)))) zs" for zs
    by (simp add: xs m numeral_eq_Suc)
  have "take n p = xs @ t # a # b # c # take m ys"
    unfolding ps tk by simp
  then have old: "word_sum (take n p) = ?s + unat t * 256 + unat (be16 [b, c])"
    by (simp add: word_sum_append xs be16_pair m)
  have "take n (ttl_dropped p) = xs @ (t - 1) # a # put16 (bump_checksum (be16 [b, c])) @ take m ys"
    unfolding ps ttl_dropped_split [OF xs] tk by (simp add: unat_put16(1) numeral_2_eq_2)
  then have new: "word_sum (take n (ttl_dropped p)) = ?s + unat (t - 1) * 256 + unat (bump_checksum (be16 [b, c]))"
    by (simp add: word_sum_append xs unat_put16 m)
  have "p ! 8 = t" by (simp add: ps nth_append xs)
  then have "unat t = Suc (unat (t - 1))"
    using t by (simp add: unat_minus_one unat_gt_0)
  then have "?s + unat t * 256 + unat (be16 [b, c]) = ?s + unat (t - 1) * 256 + (unat (be16 [b, c]) + 256)"
    by simp
  then show ?thesis
    unfolding old new by (simp only: mod_add_cong [OF refl bump_checksum_mod])
qed

text \<open>C40: Decrementing the hop limit of an IPv4 packet lowers it by one, changes nothing but the hop
limit and the checksum field, and keeps the header checksum as good as it was: the one's complement
sum of the header, of whatever length, stays the same modulo 65535.\<close>

theorem decrement_ttl_checksum:
  assumes e: "valid_packet e" "12 \<le> tc_Len e" "GetIPVersion e = Some 4" "GetTTL e = Some ttl"
    and n: "0 < ttl" "12 \<le> n" "n \<le> tc_Len e"
  shows "\<exists>e'. DecrementTTL e = Some e' \<and> valid_packet e' \<and> GetTTL e' = Some (ttl - 1) \<and>
    take 8 (tc_Packet e') = take 8 (tc_Packet e) \<and> tc_Packet e' ! 9 = tc_Packet e ! 9 \<and>
    drop 12 (tc_Packet e') = drop 12 (tc_Packet e) \<and>
    word_sum (take n (tc_Packet e')) mod 65535 = word_sum (take n (tc_Packet e)) mod 65535"
proof -
  let ?p = "tc_Packet e"
  let ?e = "with_packet (ttl_dropped ?p) e"
  have len: "length ?p = tc_Len e" using e by (simp add: length_tc_Packet)
  then obtain xs t a b c ys where ps: "?p = xs @ t # a # b # c # ys" and xs: "length xs = 8"
    using split_header [of ?p] e by metis
  have q: "ttl_dropped ?p = xs @ (t - 1) # a # put16 (bump_checksum (be16 [b, c])) @ ys"
    unfolding ps by (rule ttl_dropped_split [OF xs])
  have l: "length (ttl_dropped ?p) = tc_Len e"
    using len unfolding q by (simp add: ps unat_put16(1))
  have t: "?p ! 8 = ttl" using e GetTTL_4 by fastforce
  then have ttl: "t = ttl" by (simp add: ps nth_append xs)
  have e': "valid_packet ?e" "tc_Packet ?e = ttl_dropped ?p"
    using e l by simp_all
  have "ttl_dropped ?p ! 0 = ?p ! 0"
    unfolding q by (simp add: ps nth_append xs)
  then have v: "GetIPVersion ?e = Some 4"
    using e e' by (simp add: GetIPVersion_valid)
  have "GetTTL ?e = Some (ttl_dropped ?p ! 8)"
    using GetTTL_4 [OF e'(1) _ v] e e'(2) by simp
  moreover have "ttl_dropped ?p ! 8 = ttl - 1" "take 8 (ttl_dropped ?p) = take 8 ?p" "ttl_dropped ?p ! 9 = ?p ! 9"
    "drop 12 (ttl_dropped ?p) = drop 12 ?p"
    unfolding q unfolding ps by (simp_all add: nth_append xs ttl unat_put16(1) numeral_eq_Suc)
  moreover have "word_sum (take n (ttl_dropped ?p)) mod 65535 = word_sum (take n ?p) mod 65535"
    using n len t by (intro word_sum_ttl_dropped) auto
  ultimately show ?thesis
    using DecrementTTL_4 [OF e(1-3)] e' by (intro exI [of _ ?e]) simp
qed

definition header_1 :: bytes where
  "header_1 = [0x45, 0, 0, 20, 0, 1, 0, 0, 64, 6, 0xff, 0x10, 10, 0, 0, 1, 10, 0, 0, 2]"

definition packet_1 :: TCElement where
  "packet_1 = \<lparr>tc_Buffer = Some (replicate 16 0 @ header_1 @ replicate 24 0), tc_Off = 16, tc_Len = 20, tc_FromEp = None,
     tc_ToEp = None, tc_FromPeer = None, tc_ToPeer = None, tc_Priority = 0, tc_L3Proto = 0\<rparr>"

lemma packet_1_fields:
  "valid_packet packet_1" "tc_Len packet_1 = 20" "tc_Packet packet_1 = header_1"
  by (simp_all add: valid_packet_def tc_Packet_def window_def packet_1_def tc_buf_def header_1_def)

lemma packet_1_ttl: "GetIPVersion packet_1 = Some 4" "GetTTL packet_1 = Some 64"
proof -
  show v: "GetIPVersion packet_1 = Some 4"
    using packet_1_fields by (simp add: GetIPVersion_valid header_1_def drop_bit_eq_div)
  show "GetTTL packet_1 = Some 64"
    using GetTTL_4 [OF packet_1_fields(1) _ v] packet_1_fields by (simp add: header_1_def)
qed

theorem decrement_ttl_checksum_witness:
  "\<exists>e'. DecrementTTL packet_1 = Some e' \<and> GetTTL e' = Some 63 \<and>
    word_sum (take 20 (tc_Packet e')) mod 65535 = word_sum (take 20 (tc_Packet packet_1)) mod 65535"
  using decrement_ttl_checksum [of packet_1 64 20] packet_1_fields packet_1_ttl by auto

subsection \<open>Exit tunnels\<close>

text \<open>The frame of a packet on its way to an exit node.\<close>

definition unicast_frame :: "NodeIdNumeric \<Rightarrow> u8 \<Rightarrow> bytes \<Rightarrow> bytes" where
  "unicast_frame exit ttl inner =
     [0x90] @ put16 (word_of_nat (8 + length inner) - 3) @ [1] @ encodeMplsLse exit 0 True ttl @ inner"

text \<open>An element that holds a frame.\<close>

definition holds_frame :: "NodeIdNumeric \<Rightarrow> u8 \<Rightarrow> bytes \<Rightarrow> TCElement \<Rightarrow> bool" where
  "holds_frame exit ttl inner e \<longleftrightarrow> valid_packet e \<and> tc_Packet e = unicast_frame exit ttl inner"

lemma length_encodeMplsLse [simp]: "length (encodeMplsLse label tc bos ttl) = 4"
  by (simp add: encodeMplsLse_def)

lemma length_unicast_frame: "length (unicast_frame exit ttl inner) = 8 + length inner"
  by (simp add: unicast_frame_def unat_put16(1))

lemma encodeMplsLse_split:
  "encodeMplsLse label tc bos ttl = take 3 (encodeMplsLse label tc bos 0) @ [ttl]"
proof -
  have "drop_bit 8 (lse_word label tc bos ttl) = drop_bit 8 (lse_word label tc bos 0)"
    by (rule bit_word_eqI) (auto simp: bit_drop_bit_eq bit_lse_word)
  moreover have "unat (drop_bit 8 w) = unat w div 256" for w :: u32
    by (simp add: unsigned_drop_bit_eq take_bit_nat_eq_self drop_bit_eq_div unat_div_distrib)
  ultimately have "unat (lse_word label tc bos ttl) div 256 = unat (lse_word label tc bos 0) div 256"
    by metis
  moreover have "be_enc 4 (unat w) = be_enc 3 (unat w div 256) @ [ucast w]" for w :: u32
  proof -
    have "4 = Suc 3" by simp
    then show ?thesis by (simp only: be_enc.simps) simp
  qed
  ultimately show ?thesis
    by (simp add: encodeMplsLse_word lse_ttl)
qed

definition frame_prefix :: "NodeIdNumeric \<Rightarrow> bytes \<Rightarrow> bytes" where
  "frame_prefix exit inner =
     [0x90] @ put16 (word_of_nat (8 + length inner) - 3) @ [1] @ take 3 (encodeMplsLse exit 0 True 0)"

lemma length_frame_prefix: "length (frame_prefix exit inner) = 7"
  by (simp add: frame_prefix_def unat_put16(1))

lemma unicast_frame_split: "unicast_frame exit ttl inner = frame_prefix exit inner @ ttl # inner"
  unfolding unicast_frame_def frame_prefix_def by (subst encodeMplsLse_split) simp

lemma frame_ttl: "unicast_frame exit ttl inner ! 7 = ttl"
  unfolding unicast_frame_split using nth_append_length [of "frame_prefix exit inner"]
  by (simp add: length_frame_prefix)

lemma frame_set_ttl: "(unicast_frame exit ttl inner)[7 := t] = unicast_frame exit t inner"
  unfolding unicast_frame_split using list_update_length [of "frame_prefix exit inner"]
  by (simp add: length_frame_prefix)

lemma label_fits: "exit \<le> MaxNodeIdNumeric \<Longrightarrow> exit AND 0xFFFFF = exit"
  unfolding mask_consts take_bit_eq_mask [symmetric]
  by (simp add: MaxNodeIdNumeric_def word_le_nat_alt word_unat_eq_iff unsigned_take_bit_eq take_bit_nat_eq_self_iff)

lemma frame_parts:
  assumes "holds_frame exit ttl inner e"
  shows "valid_packet e" "tc_Len e = 8 + length inner" "GetIPVersion e = Some 9"
    "Payload e = Some ([1] @ encodeMplsLse exit 0 True ttl @ inner)"
proof -
  show e: "valid_packet e" and len: "tc_Len e = 8 + length inner"
    using assms length_tc_Packet by (fastforce simp: holds_frame_def length_unicast_frame)+
  have p: "tc_Packet e = unicast_frame exit ttl inner"
    using assms by (simp add: holds_frame_def)
  show v: "GetIPVersion e = Some 9"
    using e len by (simp add: GetIPVersion_valid p unicast_frame_def drop_bit_eq_div)
  show "Payload e = Some ([1] @ encodeMplsLse exit 0 True ttl @ inner)"
    using e len by (simp add: Payload_def v header_len_def packet_consts p unicast_frame_def unat_put16(1) numeral_eq_Suc)
qed

lemma frame_lse:
  "window NyUnicastOffsetLse MplsLseLen ([1] @ encodeMplsLse exit 0 True ttl @ inner) = encodeMplsLse exit 0 True ttl"
  by (simp add: window_def unicast_consts packet_consts)

lemma handle_frame:
  assumes "holds_frame exit ttl inner e" "exit \<le> MaxNodeIdNumeric"
  shows "handleMplsPacket e snap =
    (if ttl = 0 then Some (TcDrop, Some ''mpls ttl exceeded'', e)
     else if exit \<noteq> snap_LocalIdNumeric snap
     then (case mget (snap_NodeForward snap) exit of
             None \<Rightarrow> Some (TcDrop, Some ''no route to node'', e)
           | Some entry \<Rightarrow>
               if rte_Peer entry = None then Some (TcDrop, Some ''no route to node'', e)
               else Some (TcForward, None, (with_packet (unicast_frame exit (ttl - 1) inner) e)
                      \<lparr>tc_ToPeer := rte_Peer entry, tc_Priority := TcMediumPriority\<rparr>))
     else if \<not> snap_AdvertiseExitNode snap
     then Some (TcDrop, Some ''local node is not advertising exit service'', e)
     else if inner = [] then Some (TcDrop, Some ''mpls packet has no payload'', e)
     else case packetAddr inner True of
            Inl err \<Rightarrow> Some (TcDrop, Some err, e)
          | Inr src \<Rightarrow>
              (case packetAddr inner False of
                 Inl err \<Rightarrow> Some (TcDrop, Some err, e)
               | Inr dst \<Rightarrow> do {
                   (ok, packet) \<leftarrow> ParsePacket (strip_header 8 e);
                   Some (TcBounce, None, packet)
                 }))"
proof -
  note fp = frame_parts [OF assms(1)]
  have p: "tc_Packet e = unicast_frame exit ttl inner"
    using assms by (simp add: holds_frame_def)
  have get: "pkt_get e 7 = Some ttl"
    using fp by (simp add: pkt_get_eq p frame_ttl)
  have st: "pkt_set 7 (ttl - 1) e = Some (with_packet (unicast_frame exit (ttl - 1) inner) e)"
    using fp by (simp add: pkt_set_eq p frame_set_ttl)
  have offs: "header_len 9 + NyUnicastOffsetLse + MplsLseLen - 1 = 7" "header_len 9 + NyUnicastHeaderSize = 8"
    by (simp_all add: header_len_def unicast_consts packet_consts)
  have drp: "drop NyUnicastHeaderSize ([1] @ encodeMplsLse exit 0 True ttl @ inner) = inner"
    by (simp add: unicast_consts packet_consts)
  have long: "\<not> length ([1] @ encodeMplsLse exit 0 True ttl @ inner) < NyUnicastHeaderSize"
    by (simp add: unicast_consts packet_consts)
  have fwd: "(do { b \<leftarrow> pkt_get e 7; packet \<leftarrow> pkt_set 7 (b - 1) e; g packet }) =
      g (with_packet (unicast_frame exit (ttl - 1) inner) e)" for g :: "TCElement \<Rightarrow> 'a option"
    by (simp add: get st)
  show ?thesis
    unfolding handleMplsPacket_def fp(3,4) bind.bind_lunit frame_lse decode_encode_lse label_fits [OF assms(2)]
      prod.case Let_def drp offs if_not_P [OF long] if_True if_False simp_thms fwd ..
qed

lemma transit_holds_frame:
  assumes "holds_frame exit ttl inner e"
  shows "holds_frame exit t inner ((with_packet (unicast_frame exit t inner) e)\<lparr>tc_ToPeer := p, tc_Priority := pr\<rparr>)"
proof -
  have "valid_packet (x\<lparr>tc_ToPeer := p, tc_Priority := pr\<rparr>) = valid_packet x"
    "tc_Packet (x\<lparr>tc_ToPeer := p, tc_Priority := pr\<rparr>) = tc_Packet x" for x :: TCElement
    by (simp_all add: valid_packet_def tc_Packet_def tc_buf_def)
  moreover have "length (unicast_frame exit t inner) = tc_Len e"
    using frame_parts(2) [OF assms] by (simp add: length_unicast_frame)
  ultimately show ?thesis
    using frame_parts(1) [OF assms] by (simp add: holds_frame_def)
qed

text \<open>The writes of \<^verbatim>\<open>wrapExitPacket\<close> to the bytes before the inner packet.\<close>

definition wrap_header :: "NodeIdNumeric \<Rightarrow> u16 \<Rightarrow> TCElement \<Rightarrow> (string + TCElement) option" where
  "wrap_header exit len16 e = do {
     e \<leftarrow> SetIPVersion NyUnicastProtoId e;
     e \<leftarrow> SetLength len16 e;
     e \<leftarrow> pkt_set 3 NyUnicastSubtypeMpls e;
     e \<leftarrow> pkt_write 4 (encodeMplsLse exit 0 True NyUnicastDefaultTTL) e;
     Some (Inr e)
   }"

lemma wrap_header:
  assumes w: "valid_packet w" and h: "tc_Packet w = h @ inner" "length h = 8"
  shows "wrap_header exit len16 w =
    Some (Inr (with_packet ([0x90] @ put16 (len16 - 3) @ [1] @ encodeMplsLse exit 0 True 64 @ inner) w))"
proof -
  have len: "tc_Len w = 8 + length inner"
    using length_tc_Packet [OF w] h by simp
  obtain a0 a1 a2 a3 a4 a5 a6 a7 where hs: "h = [a0, a1, a2, a3, a4, a5, a6, a7]"
    using h(2) by (auto simp: numeral_eq_Suc length_Suc_conv)
  obtain x y where xy: "put16 (len16 - 3) = [x, y]"
    using unat_put16(1) [of "len16 - 3"] by (auto simp: numeral_eq_Suc length_Suc_conv)
  let ?w1 = "with_packet ([0x90, a1, a2, a3, a4, a5, a6, a7] @ inner) w"
  let ?w2 = "with_packet ([0x90, x, y, a3, a4, a5, a6, a7] @ inner) w"
  let ?w3 = "with_packet ([0x90, x, y, 1, a4, a5, a6, a7] @ inner) w"
  have "SetIPVersion NyUnicastProtoId w = Some ?w1"
    using w h len by (simp add: SetIPVersion_def pkt_set_eq hs unicast_consts)
  moreover have "SetLength len16 ?w1 = Some ?w2"
    using w len by (simp add: SetLength_def GetIPVersion_valid drop_bit_eq_div packet_consts xy pkt_write_eq
        overwrite_def)
  moreover have "pkt_set 3 NyUnicastSubtypeMpls ?w2 = Some ?w3"
    using w len by (simp add: pkt_set_eq unicast_consts)
  moreover have "pkt_write 4 (encodeMplsLse exit 0 True NyUnicastDefaultTTL) ?w3 =
      Some (with_packet ([0x90, x, y, 1] @ encodeMplsLse exit 0 True 64 @ inner) w)"
    using w len by (simp add: pkt_write_eq unicast_consts overwrite_def)
  ultimately show ?thesis
    by (simp add: wrap_header_def xy)
qed

lemma wrap_frame:
  assumes p: "valid_packet p" "exit \<noteq> InvalidNodeIdNumeric" and fits: "24 + tc_Len p \<le> length (tc_buf p)"
  shows "\<exists>e. wrapExitPacket p exit = Some (Inr e) \<and> holds_frame exit 64 (tc_Packet p) e"
proof -
  define inner where "inner = tc_Packet p"
  define w where "w = p\<lparr>tc_Buffer := map_option (overwrite (16 + 8) inner) (tc_Buffer p), tc_Off := 16, tc_Len := 8 + tc_Len p\<rparr>"
  have inner: "length inner = tc_Len p" using p(1) by (simp add: inner_def length_tc_Packet)
  have buf: "tc_buf w = overwrite 24 inner (tc_buf p)"
    using p(1) by (auto simp: w_def tc_buf_def valid_packet_def split: option.splits)
  have w: "valid_packet w" "tc_Len w = 8 + tc_Len p"
    using p(1) fits inner by (simp_all add: valid_packet_def buf) (simp_all add: w_def)
  have "tc_Packet w = overwrite 8 inner (window 16 (8 + tc_Len p) (tc_buf p))"
    using window_overwrite [of 16 "8 + tc_Len p" "tc_buf p" 8 inner] fits inner
    by (simp add: tc_Packet_def buf) (simp add: w_def)
  then have "tc_Packet w = take 8 (window 16 (8 + tc_Len p) (tc_buf p)) @ inner"
    using fits inner by (simp add: overwrite_def length_window)
  moreover have "length (take 8 (window 16 (8 + tc_Len p) (tc_buf p))) = 8"
    using fits by (simp add: length_window)
  ultimately obtain h where h: "tc_Packet w = h @ inner" "length h = 8"
    by blast
  have "wrapExitPacket p exit = wrap_header exit (word_of_nat (8 + tc_Len p)) w"
    using fits p(2) by (simp add: wrapExitPacket_def wrap_header_def Let_def packet_consts unicast_consts w_def inner_def)
  also have "\<dots> = Some (Inr (with_packet (unicast_frame exit 64 inner) w))"
    unfolding wrap_header [OF w(1) h] by (simp add: unicast_frame_def inner)
  finally show ?thesis
    using w inner by (simp add: holds_frame_def length_unicast_frame flip: inner_def)
qed

lemma wrap_holds_frame:
  assumes "wrapExitPacket p exit = Some (Inr e)" "valid_packet p"
  shows "holds_frame exit 64 (tc_Packet p) e"
proof -
  have "exit \<noteq> InvalidNodeIdNumeric" "24 + tc_Len p \<le> length (tc_buf p)"
    using assms(1) by (auto simp: wrapExitPacket_def Let_def packet_consts unicast_consts split: if_splits)
  then show ?thesis using wrap_frame assms by fastforce
qed

text \<open>
  A packet on its way: wrapped at the origin, received into the buffer of the next node, forwarded
  by it. The counter is the number of nodes that have forwarded it.
\<close>

inductive tunnelled :: "NodeIdNumeric \<Rightarrow> bytes \<Rightarrow> nat \<Rightarrow> TCElement \<Rightarrow> bool" for exit inner where
  wrapped: "wrapExitPacket p exit = Some (Inr e) \<Longrightarrow> valid_packet p \<Longrightarrow> tc_Packet p = inner \<Longrightarrow>
    tunnelled exit inner 0 e"
| received: "tunnelled exit inner k e \<Longrightarrow> valid_packet e' \<Longrightarrow> tc_Packet e' = tc_Packet e \<Longrightarrow>
    tunnelled exit inner k e'"
| forwarded: "tunnelled exit inner k e \<Longrightarrow> handleMplsPacket e snap = Some (TcForward, err, e') \<Longrightarrow>
    tunnelled exit inner (Suc k) e'"

lemma forward_only_transit:
  assumes "holds_frame exit ttl inner e" "exit \<le> MaxNodeIdNumeric"
    and "handleMplsPacket e snap = Some (TcForward, err, e')"
  shows "ttl \<noteq> 0" "holds_frame exit (ttl - 1) inner e'"
  using assms(3) transit_holds_frame [OF assms(1)] unfolding handle_frame [OF assms(1,2)]
  by (auto split: if_splits option.splits sum.splits bind_splits)

lemma tunnelled_frame:
  assumes "tunnelled exit inner k e" "exit \<le> MaxNodeIdNumeric"
  shows "\<exists>ttl. holds_frame exit ttl inner e \<and> unat ttl + k = 64"
  using assms
proof (induction rule: tunnelled.induct)
  case (wrapped p e)
  then show ?case using wrap_holds_frame [of p exit e] by (intro exI [of _ 64]) simp
next
  case (received k e e')
  then show ?case by (auto simp: holds_frame_def)
next
  case (forwarded k e snap err e')
  then obtain ttl where "holds_frame exit ttl inner e" "unat ttl + k = 64" by blast
  with forwarded forward_only_transit [of exit ttl inner e snap err e'] show ?case
    by (intro exI [of _ "ttl - 1"]) (auto simp: unat_minus_one unat_gt_0 Suc_le_eq)
qed

lemma strip_frame:
  assumes "holds_frame exit ttl inner e"
  shows "valid_packet (strip_header 8 e)" "tc_Packet (strip_header 8 e) = inner" "tc_Len (strip_header 8 e) = length inner"
proof -
  note fp = frame_parts [OF assms]
  have p: "tc_Packet e = unicast_frame exit ttl inner"
    using assms by (simp add: holds_frame_def)
  have d: "drop 8 (tc_Packet e) = inner"
    by (simp add: p unicast_frame_def unat_put16(1) numeral_eq_Suc)
  show l: "tc_Len (strip_header 8 e) = length inner"
    by (simp add: strip_header_def Let_def d)
  have b: "tc_buf (strip_header 8 e) = overwrite (tc_Off e) inner (tc_buf e)"
    using fp(1) by (auto simp: strip_header_def Let_def d tc_buf_def valid_packet_def split: option.splits)
  have o: "tc_Off (strip_header 8 e) = tc_Off e" by (simp add: strip_header_def Let_def)
  have fits: "tc_Off e + length inner \<le> length (tc_buf e)"
    using fp(1,2) by (simp add: valid_packet_def)
  then show "tc_Packet (strip_header 8 e) = inner"
    by (simp add: tc_Packet_def b o l window_overwrite_all)
  show "valid_packet (strip_header 8 e)"
    using fp(1) fits by (simp add: valid_packet_def b o l) (simp add: strip_header_def Let_def)
qed

lemma GetLength_same:
  assumes "valid_packet e" "valid_packet e'" "tc_Packet e' = tc_Packet e" "hasPacketHeader e"
  shows "GetLength e' = GetLength e"
proof -
  have len: "tc_Len e' = tc_Len e"
    using assms by (metis length_tc_Packet)
  have "GetIPVersion e' = GetIPVersion e"
    using assms len by (simp add: GetIPVersion_def pkt_get_eq)
  then show ?thesis
    using assms len
    by (auto simp: GetLength_def hasPacketHeader_def pkt_slice_eq header_len_def packet_consts
        split: option.splits bind_splits if_splits)
qed

text \<open>A packet that parses as it stands does so in any buffer.\<close>

lemma ParsePacket_same:
  assumes "valid_packet e" "valid_packet e'" "tc_Packet e' = tc_Packet e" "0 < tc_Len e" "ParsePacket e = Some (True, e)"
  shows "ParsePacket e' = Some (True, e')" "hasPacketHeader e"
proof -
  have len: "tc_Len e' = tc_Len e"
    using assms by (metis length_tc_Packet)
  show h: "hasPacketHeader e"
    using assms by (auto simp: ParsePacket_def Let_def split: if_splits)
  then obtain l where l: "GetLength e = Some l" "e\<lparr>tc_Len := unat l\<rparr> = e"
    using assms by (auto simp: ParsePacket_def Let_def split: if_splits bind_splits)
  then have "tc_Len e = unat l"
    by (metis TCElement.select_convs(3) TCElement.surjective TCElement.update_convs(3))
  moreover have "hasPacketHeader e'"
    using h assms len by (simp add: hasPacketHeader_def GetIPVersion_def pkt_get_eq)
  moreover have "GetLength e' = Some l"
    using GetLength_same [OF assms(1-3) h] l by simp
  ultimately show "ParsePacket e' = Some (True, e')"
    using len assms(4) by (simp add: ParsePacket_def Let_def)
qed

lemma packetAddr_header:
  assumes "valid_packet e" "hasPacketHeader e" "GetIPVersion e = Some 4 \<or> GetIPVersion e = Some 6"
  shows "\<exists>a. packetAddr (tc_Packet e) src = Inr a"
proof -
  have l: "3 \<le> tc_Len e" "length (tc_Packet e) = tc_Len e"
    using assms by (simp_all add: hasPacketHeader_def packet_consts length_tc_Packet)
  then have "tc_Packet e \<noteq> []" by auto
  moreover have "GetIPVersion e = Some (unat (drop_bit 4 (hd (tc_Packet e))))"
    using assms l \<open>tc_Packet e \<noteq> []\<close> by (auto simp: GetIPVersion_valid hd_conv_nth)
  ultimately show ?thesis
    using assms l by (auto simp: packetAddr_def Let_def hasPacketHeader_def header_len_def packet_consts)
qed

text \<open>C39: A packet tunnelled to an exit node is forwarded by at most 64 nodes, whatever their routes are.
A node that is not the exit and has a next hop for it forwards it there; the exit node hands the
original packet, byte for byte, to its own stack; once 64 nodes have forwarded it the next one drops
it.\<close>

theorem exit_tunnel:
  assumes t: "tunnelled exit inner k e" "exit \<le> MaxNodeIdNumeric"
    and p: "valid_packet p" "tc_Packet p = inner" "ParsePacket p = Some (True, p)"
      "GetIPVersion p = Some 4 \<or> GetIPVersion p = Some 6"
  shows "k \<le> 64 \<and>
    (k = 64 \<longrightarrow> handleMplsPacket e snap = Some (TcDrop, Some ''mpls ttl exceeded'', e)) \<and>
    (k < 64 \<and> snap_LocalIdNumeric snap \<noteq> exit \<and> mget (snap_NodeForward snap) exit = Some entry \<and>
       rte_Peer entry = Some peer \<longrightarrow>
       (\<exists>e'. handleMplsPacket e snap = Some (TcForward, None, e') \<and> tc_ToPeer e' = Some peer \<and>
          tunnelled exit inner (Suc k) e')) \<and>
    (k < 64 \<and> snap_LocalIdNumeric snap = exit \<and> snap_AdvertiseExitNode snap \<longrightarrow>
       (\<exists>e'. handleMplsPacket e snap = Some (TcBounce, None, e') \<and> valid_packet e' \<and> tc_Packet e' = inner))"
proof -
  obtain ttl where f: "holds_frame exit ttl inner e" and k: "unat ttl + k = 64"
    using tunnelled_frame [OF t] by blast
  note hf = handle_frame [OF f t(2), of snap]
  have l: "0 < tc_Len p"
    using p by (auto simp: GetIPVersion_def pkt_get_def split: if_splits)
  then have ne: "inner \<noteq> []"
    using p length_tc_Packet by fastforce
  note parsed = ParsePacket_same [OF p(1) strip_frame(1) [OF f] _ l p(3)]
  have bounce: "ParsePacket (strip_header 8 e) = Some (True, strip_header 8 e)"
    using parsed(1) p strip_frame(2) [OF f] by simp
  obtain src dst where "packetAddr inner True = Inr src" "packetAddr inner False = Inr dst"
    using packetAddr_header [OF p(1) parsed(2)] p strip_frame(2) [OF f] by metis
  note addr = this
  have "ttl = 0 \<longleftrightarrow> unat ttl = 0"
    by (simp add: unat_eq_zero)
  then have "k < 64 \<longleftrightarrow> ttl \<noteq> 0"
    using k by linarith
  then show ?thesis
    using k hf ne addr bounce strip_frame [OF f] tunnelled.forwarded [OF t(1)] by auto
qed

definition wrapped_1 :: TCElement where
  "wrapped_1 = (case wrapExitPacket packet_1 20 of Some (Inr e) \<Rightarrow> e | _ \<Rightarrow> packet_1)"

definition snap_1 :: "NodeIdNumeric \<Rightarrow> ExitFilterSnapshot" where
  "snap_1 local =
     \<lparr>snap_LocalId = ''a'', snap_LocalIdNumeric = local, snap_AdvertiseExitNode = True, snap_ExitNode = [],
      snap_ExitNodeNumeric = 0, snap_NumericNames = [],
      snap_NodeForward = [(20, \<lparr>rte_Nh = ''b'', rte_Peer = Some [7], rte_Blackhole = False\<rparr>)]\<rparr>"

lemma packet_1_parses: "ParsePacket packet_1 = Some (True, packet_1)"
proof -
  have h: "hasPacketHeader packet_1"
    using packet_1_fields packet_1_ttl by (simp add: hasPacketHeader_def header_len_def packet_consts)
  have "pkt_slice packet_1 2 2 = Some [0, 20]"
    using packet_1_fields by (simp add: pkt_slice_eq window_def header_1_def)
  then have l: "GetLength packet_1 = Some 20"
    using packet_1_ttl by (simp add: GetLength_def packet_consts be16_def be_dec_def)
  show ?thesis
    using h l packet_1_fields by (simp add: ParsePacket_def)
qed

lemma wrapped_1: "tunnelled 20 header_1 0 wrapped_1"
proof -
  have "\<exists>e. wrapExitPacket packet_1 20 = Some (Inr e) \<and> holds_frame 20 64 (tc_Packet packet_1) e"
    using packet_1_fields by (intro wrap_frame) (auto simp: InvalidNodeIdNumeric_def tc_buf_def packet_1_def header_1_def)
  then show ?thesis
    using packet_1_fields by (auto simp: wrapped_1_def intro: tunnelled.wrapped)
qed

theorem exit_tunnel_witness:
  "(\<exists>e'. handleMplsPacket wrapped_1 (snap_1 20) = Some (TcBounce, None, e') \<and> tc_Packet e' = header_1) \<and>
   (\<exists>e'. handleMplsPacket wrapped_1 (snap_1 17) = Some (TcForward, None, e') \<and> tc_ToPeer e' = Some [7])"
  using exit_tunnel [OF wrapped_1 _ packet_1_fields(1,3) packet_1_parses, of "snap_1 20"]
    exit_tunnel [OF wrapped_1 _ packet_1_fields(1,3) packet_1_parses, of "snap_1 17"
      "\<lparr>rte_Nh = ''b'', rte_Peer = Some [7], rte_Blackhole = False\<rparr>" "[7]"] packet_1_ttl
  by (auto simp: snap_1_def MaxNodeIdNumeric_def)

end
