(* ===== verification/Router_IO.thy ===== *)
theory Router_IO
  imports Router_Handlers Unicast
begin

text \<open>
  The node around the routing algorithm (\<^verbatim>\<open>core/router.go\<close>, \<^verbatim>\<open>core/nylon_passive.go\<close>,
  \<^verbatim>\<open>core/router_utils.go\<close>, \<^verbatim>\<open>core/nylon_gc.go\<close>): the calls of the algorithm's \<^verbatim>\<open>Router\<close> interface,
  the messages waiting for every neighbour, the forwarding tables, the handlers of incoming messages
  and the periodic tasks. Two packages outside the repository are parameters, given by the operations
  the code calls: the routing tables (\<^verbatim>\<open>bart\<close>) and the expiring cache (\<^verbatim>\<open>ttlcache\<close>). The protobuf
  encoder appears as the size of a message and as whether a bundle can be encoded. A panic is \<open>None\<close>.
\<close>

subsection \<open>Messages\<close>

record Ny_Update =
  upd_RouterId :: string
  upd_Prefix :: bytes
  upd_Seqno :: u32
  upd_Metric :: u32

record Ny_AckRetract =
  ack_Prefix :: bytes

record Ny_SeqnoRequest =
  sq_RouterId :: string
  sq_Prefix :: bytes
  sq_Seqno :: u32
  sq_HopCount :: u32

record Ny_Probe =
  pb_TxTs :: int
  pb_Reply :: bool
  pb_LinkId :: u64
  pb_ReplyLinkId :: u64
  pb_OriginTxTs :: "int option"
  pb_OriginRxTs :: "int option"
  pb_Discovery :: bool

datatype Ny =
    Ny_RouteOp Ny_Update
  | Ny_SeqnoRequestOp Ny_SeqnoRequest
  | Ny_ProbeOp Ny_Probe
  | Ny_AckRetractOp Ny_AckRetract

type_synonym TransportBundle = "Ny list"

subsection \<open>Packages outside the repository\<close>

text \<open>A table from prefixes to entries; \<^verbatim>\<open>Clone\<close> is the value itself.\<close>

record 't TableOps =
  tbl_new :: 't
  tbl_Insert :: "Prefix \<Rightarrow> RouteTableEntry \<Rightarrow> 't \<Rightarrow> 't"
  tbl_Delete :: "Prefix \<Rightarrow> 't \<Rightarrow> 't"
  tbl_Lookup :: "'t \<Rightarrow> Addr \<Rightarrow> RouteTableEntry option"

text \<open>A cache whose items expire; \<^verbatim>\<open>Get\<close> does not prolong them.\<close>

record 'c CacheOps =
  cache_New :: "duration \<Rightarrow> 'c"
  cache_Get :: "instant \<Rightarrow> 'c \<Rightarrow> Source \<Rightarrow> u16 option"
  cache_Set :: "instant \<Rightarrow> Source \<Rightarrow> u16 \<Rightarrow> 'c \<Rightarrow> 'c"
  cache_DeleteExpired :: "instant \<Rightarrow> 'c \<Rightarrow> 'c"

record ('t, 'c) Packages =
  tables :: "'t TableOps"
  caches :: "'c CacheOps"

subsection \<open>The node\<close>

record 'c IOPending =
  io_SeqnoReq :: "(Source, u16 \<times> u8) gomap"
  io_SeqnoDedup :: 'c
  io_Acks :: "(Prefix, unit) gomap"
  io_Updates :: "(Prefix, Ny_Update) gomap"

record ('t, 'c) Nylon =
  ny_Tunables :: RouterTunables
  ny_Central :: CentralCfg
  ny_Local :: LocalCfg
  ny_State :: RouterState
  ny_IO :: "(NodeId, 'c IOPending) gomap"
  ny_RouteComputePending :: bool
  ny_ForwardTable :: 't
  ny_ExitTable :: 't
  ny_NodeIdMap :: "NodeIdMap option"
  ny_ExitFilter :: "ExitFilterSnapshot option"
  ny_Peers :: "Peer list"

text \<open>\<^verbatim>\<open>Device.LookupPeer\<close>: the device's peers are keyed by their public keys.\<close>

definition LookupPeer :: "('t, 'c) Nylon \<Rightarrow> NyPublicKey \<Rightarrow> Peer option" where
  "LookupPeer n pk = (if pk \<in> set (ny_Peers n) then Some pk else None)"

definition refreshExitFilter :: "('t, 'c) Packages \<Rightarrow> ('t, 'c) Nylon \<Rightarrow> ('t, 'c) Nylon" where
  "refreshExitFilter pk n =
     (case ny_NodeIdMap n of
        None \<Rightarrow> n
      | Some idMap \<Rightarrow>
          n\<lparr>ny_ExitFilter := Some (rebuildExitFilterSnapshot (ny_Local n) (ny_Central n) (Some idMap)
              (tbl_Lookup (tables pk) (ny_ForwardTable n)))\<rparr>)"

definition refreshNodeBindings :: "('t, 'c) Packages \<Rightarrow> ('t, 'c) Nylon \<Rightarrow> NodeIdError + ('t, 'c) Nylon" where
  "refreshNodeBindings pk n =
     (case BuildNodeIdMap (ny_Central n) of
        Inl err \<Rightarrow> Inl err
      | Inr idMap \<Rightarrow>
          Inr (n\<lparr>ny_NodeIdMap := Some idMap,
                 ny_ExitFilter := Some (rebuildExitFilterSnapshot (ny_Local n) (ny_Central n) (Some idMap)
                   (tbl_Lookup (tables pk) (ny_ForwardTable n)))\<rparr>))"

subsection \<open>Pending messages\<close>

definition GetNeighIO :: "('t, 'c) Packages \<Rightarrow> ('t, 'c) Nylon \<Rightarrow> NodeId \<Rightarrow> 'c IOPending" where
  "GetNeighIO pk n neigh =
     (case mget (ny_IO n) neigh of
        Some nio \<Rightarrow> nio
      | None \<Rightarrow>
          \<lparr>io_SeqnoReq = [], io_SeqnoDedup = cache_New (caches pk) (SeqnoDedupTTL (ny_Tunables n)),
           io_Acks = [], io_Updates = []\<rparr>)"

text \<open>What a method does through the pointer \<^verbatim>\<open>GetNeighIO\<close> returns.\<close>

definition with_NeighIO ::
  "('t, 'c) Packages \<Rightarrow> NodeId \<Rightarrow> ('c IOPending \<Rightarrow> 'c IOPending) \<Rightarrow> ('t, 'c) Nylon \<Rightarrow> ('t, 'c) Nylon" where
  "with_NeighIO pk neigh f n = n\<lparr>ny_IO := mput neigh (f (GetNeighIO pk n neigh)) (ny_IO n)\<rparr>"

definition update_of :: "PubRoute \<Rightarrow> Ny_Update" where
  "update_of advRoute =
     \<lparr>upd_RouterId = pr_NodeId advRoute, upd_Prefix = Prefix_MarshalBinary (pr_Prefix advRoute),
      upd_Seqno = ucast (pr_Seqno advRoute), upd_Metric = pr_Metric advRoute\<rparr>"

definition send_route_update ::
  "('t, 'c) Packages \<Rightarrow> NodeId \<Rightarrow> PubRoute \<Rightarrow> ('t, 'c) Nylon \<Rightarrow> ('t, 'c) Nylon" where
  "send_route_update pk neigh advRoute =
     with_NeighIO pk neigh
       (\<lambda>nio. nio\<lparr>io_Updates := mput (pr_Prefix advRoute) (update_of advRoute) (io_Updates nio)\<rparr>)"

definition send_ack_retract :: "('t, 'c) Packages \<Rightarrow> NodeId \<Rightarrow> Prefix \<Rightarrow> ('t, 'c) Nylon \<Rightarrow> ('t, 'c) Nylon" where
  "send_ack_retract pk neigh prefix =
     with_NeighIO pk neigh (\<lambda>nio. nio\<lparr>io_Acks := mput prefix () (io_Acks nio)\<rparr>)"

definition neighbour_ids :: "('t, 'c) Nylon \<Rightarrow> NodeId list" where
  "neighbour_ids n = map neigh_Id (rs_Neighbours (ny_State n))"

definition broadcast_route_update :: "('t, 'c) Packages \<Rightarrow> PubRoute \<Rightarrow> ('t, 'c) Nylon \<Rightarrow> ('t, 'c) Nylon" where
  "broadcast_route_update pk advRoute n =
     fold (\<lambda>neigh. send_route_update pk neigh advRoute) (neighbour_ids n) n"

text \<open>\<^verbatim>\<open>max\<close> and \<^verbatim>\<open><\<close> compare sequence numbers as integers.\<close>

definition queue_seqno :: "'c CacheOps \<Rightarrow> instant \<Rightarrow> Source \<Rightarrow> u16 \<Rightarrow> u8 \<Rightarrow> 'c IOPending \<Rightarrow> 'c IOPending" where
  "queue_seqno co now src seqno hopCnt nio =
     (let old = cache_Get co now (io_SeqnoDedup nio) src
      in if case old of None \<Rightarrow> False | Some v \<Rightarrow> SeqnoGe v seqno then nio
         else
           let maxSeq = (case old of None \<Rightarrow> seqno | Some v \<Rightarrow> max seqno v);
               req = (case mget (io_SeqnoReq nio) src of
                        None \<Rightarrow> (seqno, hopCnt)
                      | Some (s, h) \<Rightarrow> if seqno < s then (seqno, hopCnt) else (s, if hopCnt > h then hopCnt else h))
           in nio\<lparr>io_SeqnoDedup := cache_Set co now src maxSeq (io_SeqnoDedup nio),
                  io_SeqnoReq := mput src req (io_SeqnoReq nio)\<rparr>)"

definition request_seqno ::
  "('t, 'c) Packages \<Rightarrow> instant \<Rightarrow> NodeId \<Rightarrow> Source \<Rightarrow> u16 \<Rightarrow> u8 \<Rightarrow> ('t, 'c) Nylon \<Rightarrow> ('t, 'c) Nylon" where
  "request_seqno pk now neigh src seqno hopCnt = with_NeighIO pk neigh (queue_seqno (caches pk) now src seqno hopCnt)"

definition broadcast_request_seqno ::
  "('t, 'c) Packages \<Rightarrow> instant \<Rightarrow> Source \<Rightarrow> u16 \<Rightarrow> u8 \<Rightarrow> ('t, 'c) Nylon \<Rightarrow> ('t, 'c) Nylon" where
  "broadcast_request_seqno pk now src seqno hopCnt n =
     fold (\<lambda>neigh. request_seqno pk now neigh src seqno hopCnt) (neighbour_ids n) n"

subsection \<open>Forwarding tables\<close>

definition table_insert_route ::
  "('t, 'c) Packages \<Rightarrow> Prefix \<Rightarrow> SelRoute \<Rightarrow> ('t, 'c) Nylon \<Rightarrow> ('t, 'c) Nylon option" where
  "table_insert_route pk prefix route n =
     (let nh = sr_Nh route; ops = tables pk
      in if sr_Metric route = M_INF
         then Some (refreshExitFilter pk
                (n\<lparr>ny_ForwardTable :=
                     tbl_Insert ops prefix \<lparr>rte_Nh = nh, rte_Peer = None, rte_Blackhole = True\<rparr> (ny_ForwardTable n),
                   ny_ExitTable := tbl_Delete ops prefix (ny_ExitTable n)\<rparr>))
         else do {
           node \<leftarrow> GetNode (ny_Central n) nh;
           let entry = \<lparr>rte_Nh = nh, rte_Peer = LookupPeer n (nc_PubKey node), rte_Blackhole = False\<rparr>;
           Some (refreshExitFilter pk
             (n\<lparr>ny_ForwardTable := tbl_Insert ops prefix entry (ny_ForwardTable n),
                ny_ExitTable := (if nh = lc_Id (ny_Local n) then tbl_Insert ops prefix entry (ny_ExitTable n)
                                 else tbl_Delete ops prefix (ny_ExitTable n))\<rparr>))
         })"

definition table_delete_route :: "('t, 'c) Packages \<Rightarrow> Prefix \<Rightarrow> ('t, 'c) Nylon \<Rightarrow> ('t, 'c) Nylon" where
  "table_delete_route pk prefix n =
     refreshExitFilter pk
       (n\<lparr>ny_ForwardTable := tbl_Delete (tables pk) prefix (ny_ForwardTable n),
          ny_ExitTable := tbl_Delete (tables pk) prefix (ny_ExitTable n)\<rparr>)"

text \<open>
  One call of the \<^verbatim>\<open>Router\<close> interface. Events are logged, and the expiry function of an advertisement
  concerns its health check only.
\<close>

fun router_call ::
  "('t, 'c) Packages \<Rightarrow> instant \<Rightarrow> RouterCall \<Rightarrow> ('t, 'c) Nylon \<Rightarrow> ('t, 'c) Nylon option" where
  "router_call pk now (SendRouteUpdate neigh advRoute) n = Some (send_route_update pk neigh advRoute n)"
| "router_call pk now (SendAckRetract neigh prefix) n = Some (send_ack_retract pk neigh prefix n)"
| "router_call pk now (BroadcastSendRouteUpdate advRoute) n = Some (broadcast_route_update pk advRoute n)"
| "router_call pk now (RequestSeqno neigh src seqno hopCnt) n = Some (request_seqno pk now neigh src seqno hopCnt n)"
| "router_call pk now (BroadcastRequestSeqno src seqno hopCnt) n =
     Some (broadcast_request_seqno pk now src seqno hopCnt n)"
| "router_call pk now (TableInsertRoute prefix route) n = table_insert_route pk prefix route n"
| "router_call pk now (TableDeleteRoute prefix) n = Some (table_delete_route pk prefix n)"
| "router_call pk now (RouterEvent event desc) n = Some n"
| "router_call pk now (ExpiryFn prefix) n = Some n"

definition router_calls ::
  "('t, 'c) Packages \<Rightarrow> instant \<Rightarrow> RouterCall list \<Rightarrow> ('t, 'c) Nylon \<Rightarrow> ('t, 'c) Nylon option" where
  "router_calls pk now cs n = fold_opt (router_call pk now) cs n"

text \<open>An operation of the algorithm on the node's router state, with the calls it makes.\<close>

definition run_algo ::
  "('t, 'c) Packages \<Rightarrow> instant \<Rightarrow> (RouterState \<Rightarrow> (RouterState \<times> calls) option) \<Rightarrow> ('t, 'c) Nylon \<Rightarrow> ('t, 'c) Nylon option" where
  "run_algo pk now f n = do {
     (s, cs) \<leftarrow> f (ny_State n);
     router_calls pk now cs (n\<lparr>ny_State := s\<rparr>)
   }"

definition compute_routes :: "('t, 'c) Packages \<Rightarrow> instant \<Rightarrow> ('t, 'c) Nylon \<Rightarrow> ('t, 'c) Nylon option" where
  "compute_routes pk now = run_algo pk now (ComputeRoutes now)"

text \<open>\<^verbatim>\<open>ScheduleRouteCompute\<close>, with whether a timer is started, and what runs when it fires: the
computation, or nothing when the dispatch queue is full.\<close>

definition ScheduleRouteCompute :: "('t, 'c) Nylon \<Rightarrow> bool \<times> ('t, 'c) Nylon" where
  "ScheduleRouteCompute n =
     (if ny_RouteComputePending n then (False, n) else (True, n\<lparr>ny_RouteComputePending := True\<rparr>))"

definition scheduled_compute ::
  "('t, 'c) Packages \<Rightarrow> instant \<Rightarrow> bool \<Rightarrow> ('t, 'c) Nylon \<Rightarrow> ('t, 'c) Nylon option" where
  "scheduled_compute pk now dispatched n =
     (if dispatched then map_option (\<lambda>n. n\<lparr>ny_RouteComputePending := False\<rparr>) (compute_routes pk now n)
      else Some (n\<lparr>ny_RouteComputePending := False\<rparr>))"

definition UpdateNeighbour :: "('t, 'c) Packages \<Rightarrow> instant \<Rightarrow> NodeId \<Rightarrow> ('t, 'c) Nylon \<Rightarrow> ('t, 'c) Nylon option" where
  "UpdateNeighbour pk now neigh = run_algo pk now (\<lambda>s. Some (PushFullTable neigh s))"

subsection \<open>Incoming messages\<close>

definition checkNeigh :: "('t, 'c) Nylon \<Rightarrow> NodeId \<Rightarrow> bool" where
  "checkNeigh n node \<longleftrightarrow> list_ex (\<lambda>x. neigh_Id x = node) (rs_Neighbours (ny_State n))"

definition checkPrefix :: "('t, 'c) Nylon \<Rightarrow> Prefix \<Rightarrow> bool" where
  "checkPrefix n prefix \<longleftrightarrow> list_ex (\<lambda>p. p = prefix) (GetPrefixes (ny_Central n))"

definition checkNode :: "('t, 'c) Nylon \<Rightarrow> NodeId \<Rightarrow> bool" where
  "checkNode n node \<longleftrightarrow> TryGetNode (ny_Central n) node \<noteq> None"

definition routerApplyRouteUpdate ::
  "('t, 'c) Packages \<Rightarrow> instant \<Rightarrow> NodeId \<Rightarrow> Ny_Update \<Rightarrow> ('t, 'c) Nylon \<Rightarrow> (bool \<times> ('t, 'c) Nylon) option" where
  "routerApplyRouteUpdate pk now node update n =
     (case Prefix_UnmarshalBinary (upd_Prefix update) of
        None \<Rightarrow> Some (False, n)
      | Some prefix \<Rightarrow>
          if \<not> checkNeigh n node \<or> \<not> checkPrefix n prefix \<or> \<not> checkNode n (upd_RouterId update) then Some (False, n)
          else do {
            n \<leftarrow> run_algo pk now (HandleNeighbourUpdate now node
                   \<lparr>pr_Source = \<lparr>src_NodeId = upd_RouterId update, src_Prefix = prefix\<rparr>,
                    pr_FD = \<lparr>fd_Seqno = ucast (upd_Seqno update), fd_Metric = upd_Metric update\<rparr>\<rparr>) n;
            Some (True, n)
          })"

definition routerHandleRouteUpdate ::
  "('t, 'c) Packages \<Rightarrow> instant \<Rightarrow> NodeId \<Rightarrow> Ny_Update \<Rightarrow> ('t, 'c) Nylon \<Rightarrow> ('t, 'c) Nylon option" where
  "routerHandleRouteUpdate pk now node update n = do {
     (applied, n) \<leftarrow> routerApplyRouteUpdate pk now node update n;
     (if applied then compute_routes pk now n else Some n)
   }"

definition routerHandleAckRetract ::
  "('t, 'c) Packages \<Rightarrow> instant \<Rightarrow> NodeId \<Rightarrow> Ny_AckRetract \<Rightarrow> ('t, 'c) Nylon \<Rightarrow> ('t, 'c) Nylon option" where
  "routerHandleAckRetract pk now neigh update n =
     (case Prefix_UnmarshalBinary (ack_Prefix update) of
        None \<Rightarrow> Some n
      | Some prefix \<Rightarrow>
          if \<not> checkPrefix n prefix \<or> \<not> checkNeigh n neigh then Some n
          else run_algo pk now (HandleAckRetract now neigh prefix) n)"

definition routerHandleSeqnoRequest ::
  "('t, 'c) Packages \<Rightarrow> instant \<Rightarrow> NodeId \<Rightarrow> Ny_SeqnoRequest \<Rightarrow> ('t, 'c) Nylon \<Rightarrow> ('t, 'c) Nylon option" where
  "routerHandleSeqnoRequest pk now neigh pkt n =
     (case Prefix_UnmarshalBinary (sq_Prefix pkt) of
        None \<Rightarrow> Some n
      | Some prefix \<Rightarrow>
          if \<not> checkNeigh n neigh \<or> \<not> checkPrefix n prefix \<or> \<not> checkNode n (sq_RouterId pkt) then Some n
          else run_algo pk now (HandleSeqnoRequest now neigh \<lparr>src_NodeId = sq_RouterId pkt, src_Prefix = prefix\<rparr>
                 (ucast (sq_Seqno pkt)) (ucast (sq_HopCount pkt))) n)"

text \<open>
  The control packets of a received bundle, as \<^verbatim>\<open>handleNylonPacket\<close> dispatches them: in order, and one
  computation at the end if an update was applied. Probes are answered before and are not here.
\<close>

fun control_packets ::
  "('t, 'c) Packages \<Rightarrow> instant \<Rightarrow> NodeId \<Rightarrow> TransportBundle \<Rightarrow> bool \<Rightarrow> ('t, 'c) Nylon \<Rightarrow> (bool \<times> ('t, 'c) Nylon) option" where
  "control_packets pk now neigh [] routeUpdated n = Some (routeUpdated, n)"
| "control_packets pk now neigh (Ny_SeqnoRequestOp req # ps) routeUpdated n = do {
     n \<leftarrow> routerHandleSeqnoRequest pk now neigh req n;
     control_packets pk now neigh ps routeUpdated n
   }"
| "control_packets pk now neigh (Ny_RouteOp upd # ps) routeUpdated n = do {
     (applied, n) \<leftarrow> routerApplyRouteUpdate pk now neigh upd n;
     control_packets pk now neigh ps (routeUpdated \<or> applied) n
   }"
| "control_packets pk now neigh (Ny_AckRetractOp ack # ps) routeUpdated n = do {
     n \<leftarrow> routerHandleAckRetract pk now neigh ack n;
     control_packets pk now neigh ps routeUpdated n
   }"
| "control_packets pk now neigh (Ny_ProbeOp probe # ps) routeUpdated n = control_packets pk now neigh ps routeUpdated n"

definition handle_control ::
  "('t, 'c) Packages \<Rightarrow> instant \<Rightarrow> NodeId \<Rightarrow> TransportBundle \<Rightarrow> ('t, 'c) Nylon \<Rightarrow> ('t, 'c) Nylon option" where
  "handle_control pk now neigh packets n = do {
     (routeUpdated, n) \<leftarrow> control_packets pk now neigh packets False n;
     (if routeUpdated then compute_routes pk now n else Some n)
   }"

subsection \<open>Sending what is pending\<close>

text \<open>The loop over one of the maps: it stops, leaving the rest, when the next message would make the
bundle as large as \<^verbatim>\<open>SafeMTU\<close>; \<open>sz\<close> is \<^verbatim>\<open>proto.Size\<close>.\<close>

fun pack_msgs ::
  "(Ny \<Rightarrow> nat) \<Rightarrow> int \<Rightarrow> ('k \<times> 'v \<Rightarrow> Ny) \<Rightarrow> ('k, 'v) gomap \<Rightarrow> nat \<Rightarrow> Ny list \<Rightarrow> bool \<times> ('k, 'v) gomap \<times> nat \<times> Ny list" where
  "pack_msgs sz mtu mk [] tLength packets = (False, [], tLength, packets)"
| "pack_msgs sz mtu mk (kv # m) tLength packets =
     (let req = mk kv
      in if tLength \<noteq> 0 \<and> int (tLength + sz req) \<ge> mtu then (True, kv # m, tLength, packets)
         else pack_msgs sz mtu mk m (tLength + sz req) (packets @ [req]))"

definition seqno_msg :: "Source \<times> (u16 \<times> u8) \<Rightarrow> Ny" where
  "seqno_msg = (\<lambda>(src, seqno, hops). Ny_SeqnoRequestOp
     \<lparr>sq_RouterId = src_NodeId src, sq_Prefix = Prefix_MarshalBinary (src_Prefix src), sq_Seqno = ucast seqno,
      sq_HopCount = ucast hops\<rparr>)"

definition update_msg :: "Prefix \<times> Ny_Update \<Rightarrow> Ny" where
  "update_msg = (\<lambda>(prefix, update). Ny_RouteOp update)"

definition ack_msg :: "Prefix \<times> unit \<Rightarrow> Ny" where
  "ack_msg = (\<lambda>(prefix, _). Ny_AckRetractOp \<lparr>ack_Prefix = Prefix_MarshalBinary prefix\<rparr>)"

text \<open>One bundle: what remains pending, its length and its messages.\<close>

definition fill_bundle :: "(Ny \<Rightarrow> nat) \<Rightarrow> int \<Rightarrow> 'c IOPending \<Rightarrow> 'c IOPending \<times> nat \<times> TransportBundle" where
  "fill_bundle sz mtu nio =
     (let (stop, reqs, tLength, packets) = pack_msgs sz mtu seqno_msg (io_SeqnoReq nio) 0 [];
          nio = nio\<lparr>io_SeqnoReq := reqs\<rparr>
      in if stop then (nio, tLength, packets)
         else
           let (stop, updates, tLength, packets) = pack_msgs sz mtu update_msg (io_Updates nio) tLength packets;
               nio = nio\<lparr>io_Updates := updates\<rparr>
           in if stop then (nio, tLength, packets)
              else
                let (stop, acks, tLength, packets) = pack_msgs sz mtu ack_msg (io_Acks nio) tLength packets;
                    nio = nio\<lparr>io_Acks := acks\<rparr>
                in (nio, tLength, packets))"

definition pending :: "'c IOPending \<Rightarrow> Ny list" where
  "pending nio =
     map seqno_msg (io_SeqnoReq nio) @ map update_msg (io_Updates nio) @ map ack_msg (io_Acks nio)"

definition total_size :: "(Ny \<Rightarrow> nat) \<Rightarrow> Ny list \<Rightarrow> nat" where
  "total_size sz ms = sum_list (map sz ms)"

lemma total_size_simps [simp]:
  "total_size sz [] = 0" "total_size sz (m # ms) = sz m + total_size sz ms"
  "total_size sz (ms @ ms') = total_size sz ms + total_size sz ms'"
  by (simp_all add: total_size_def)

text \<open>Below the limit, or a message that alone reaches it.\<close>

definition fits :: "(Ny \<Rightarrow> nat) \<Rightarrow> int \<Rightarrow> Ny list \<Rightarrow> bool" where
  "fits sz mtu ms \<longleftrightarrow> int (total_size sz ms) < mtu \<or> total_size sz (butlast ms) = 0"

lemma pack_msgs_spec:
  assumes "pack_msgs sz mtu mk m l ps = (stop, m', l', ps')" "l = total_size sz ps" "fits sz mtu ps"
  shows "l' = total_size sz ps' \<and> fits sz mtu ps' \<and> (\<exists>qs. map mk m = qs @ map mk m' \<and> ps' = ps @ qs) \<and>
    (stop \<longrightarrow> l' \<noteq> 0) \<and> (\<not> stop \<longrightarrow> m' = [])"
  using assms
proof (induction m arbitrary: l ps)
  case (Cons kv m)
  show ?case
  proof (cases "l \<noteq> 0 \<and> int (l + sz (mk kv)) \<ge> mtu")
    case True
    then show ?thesis using Cons.prems by auto
  next
    case False
    then have "pack_msgs sz mtu mk m (l + sz (mk kv)) (ps @ [mk kv]) = (stop, m', l', ps')"
      using Cons.prems(1) by (simp add: Let_def del: of_nat_add split: if_splits)
    moreover have "fits sz mtu (ps @ [mk kv])"
      using False Cons.prems(2) by (auto simp: fits_def)
    ultimately show ?thesis
      using Cons.IH Cons.prems(2) by fastforce
  qed
qed auto

lemma fill_bundle_spec:
  assumes "fill_bundle sz mtu nio = (nio', l, ps)"
  shows "pending nio = ps @ pending nio'" "l = total_size sz ps" "fits sz mtu ps"
    "io_SeqnoDedup nio' = io_SeqnoDedup nio" "l = 0 \<Longrightarrow> pending nio' = []"
proof -
  obtain f1 m1 l1 p1 where 1: "pack_msgs sz mtu seqno_msg (io_SeqnoReq nio) 0 [] = (f1, m1, l1, p1)"
    by (metis prod_cases4)
  obtain f2 m2 l2 p2 where 2: "pack_msgs sz mtu update_msg (io_Updates nio) l1 p1 = (f2, m2, l2, p2)"
    by (metis prod_cases4)
  obtain f3 m3 l3 p3 where 3: "pack_msgs sz mtu ack_msg (io_Acks nio) l2 p2 = (f3, m3, l3, p3)"
    by (metis prod_cases4)
  note s1 = pack_msgs_spec [OF 1, simplified]
  note s2 = pack_msgs_spec [OF 2]
  note s3 = pack_msgs_spec [OF 3]
  have "fits sz mtu []" by (simp add: fits_def)
  have fb: "(nio', l, ps) =
      (if f1 then (nio\<lparr>io_SeqnoReq := m1\<rparr>, l1, p1)
       else if f2 then (nio\<lparr>io_SeqnoReq := m1, io_Updates := m2\<rparr>, l2, p2)
       else (nio\<lparr>io_SeqnoReq := m1, io_Updates := m2, io_Acks := m3\<rparr>, l3, p3))"
    using assms by (cases f1; cases f2) (simp_all add: fill_bundle_def 1 2 3 Let_def)
  have "pending nio = ps @ pending nio' \<and> l = total_size sz ps \<and> fits sz mtu ps \<and>
    io_SeqnoDedup nio' = io_SeqnoDedup nio \<and> (l = 0 \<longrightarrow> pending nio' = [])"
  proof (cases f1)
    case True
    then show ?thesis using fb s1 \<open>fits sz mtu []\<close> by (auto simp: pending_def)
  next
    case f1: False
    show ?thesis
    proof (cases f2)
      case True
      then show ?thesis using f1 fb s1 s2 \<open>fits sz mtu []\<close> by (auto simp: pending_def)
    next
      case False
      then show ?thesis using f1 fb s1 s2 s3 \<open>fits sz mtu []\<close> by (auto simp: pending_def)
    qed
  qed
  then show "pending nio = ps @ pending nio'" "l = total_size sz ps" "fits sz mtu ps"
    "io_SeqnoDedup nio' = io_SeqnoDedup nio" "l = 0 \<Longrightarrow> pending nio' = []" by simp_all
qed

lemma fill_bundle_progress:
  assumes "fill_bundle sz mtu nio = (nio', l, ps)" "l \<noteq> 0"
  shows "length (pending nio') < length (pending nio)"
  using fill_bundle_spec(1,2) [OF assms(1)] assms(2) by (cases ps) auto

text \<open>The loop that sends bundle after bundle; \<open>encodable\<close> says whether \<^verbatim>\<open>SendNylonBundle\<close> can encode
one, and an error ends the loop.\<close>

function drain ::
  "(Ny \<Rightarrow> nat) \<Rightarrow> (TransportBundle \<Rightarrow> bool) \<Rightarrow> int \<Rightarrow> 'c IOPending \<Rightarrow> 'c IOPending \<times> TransportBundle list \<times> bool" where
  "drain sz encodable mtu nio =
     (let (nio', tLength, packets) = fill_bundle sz mtu nio
      in if tLength = 0 then (nio', [], False)
         else if \<not> encodable packets then (nio', [], True)
         else let (nio'', bundles, err) = drain sz encodable mtu nio' in (nio'', packets # bundles, err))"
  by pat_completeness auto
termination
proof (relation "measure (\<lambda>(sz, encodable, mtu, nio). length (pending nio))")
  fix sz encodable mtu and nio nio' :: "'c IOPending" and x y tLength packets
  assume "x = fill_bundle sz mtu nio" "(nio', y) = x" "(tLength, packets) = y" "tLength \<noteq> 0"
  then show "((sz, encodable, mtu, nio'), sz, encodable, mtu, nio) \<in> measure (\<lambda>(sz, encodable, mtu, nio). length (pending nio))"
    using fill_bundle_progress [of sz mtu nio nio' tLength packets] by auto
qed simp

declare drain.simps [simp del]

text \<open>One neighbour's turn, with the bundles handed to \<^verbatim>\<open>SendNylonBundle\<close> for its peer and whether one
of them failed.\<close>

definition flush_neigh ::
  "('t, 'c) Packages \<Rightarrow> (Ny \<Rightarrow> nat) \<Rightarrow> (TransportBundle \<Rightarrow> bool) \<Rightarrow> instant \<Rightarrow> nat \<Rightarrow> ('t, 'c) Nylon \<Rightarrow>
   (('t, 'c) Nylon \<times> (Peer option \<times> TransportBundle) list \<times> bool) option" where
  "flush_neigh pk sz encodable now i n = do {
     let neigh = rs_Neighbours (ny_State n) ! i;
     (best, eps) \<leftarrow> BestEndpoint now (neigh_Eps neigh);
     let n = n\<lparr>ny_State := neigh_at i (\<lambda>x. x\<lparr>neigh_Eps := eps\<rparr>) (ny_State n)\<rparr>;
     let n = with_NeighIO pk (neigh_Id neigh) (\<lambda>nio. nio) n;
     (if case best of None \<Rightarrow> False | Some b \<Rightarrow> Endpoint_IsActive now (eps ! b)
      then do {
        node \<leftarrow> GetNode (ny_Central n) (neigh_Id neigh);
        let peer = LookupPeer n (nc_PubKey node);
        let (nio, bundles, err) = drain sz encodable (SafeMTU (ny_Tunables n)) (GetNeighIO pk n (neigh_Id neigh));
        Some (with_NeighIO pk (neigh_Id neigh) (\<lambda>_. nio) n, map (\<lambda>b. (peer, b)) bundles, err)
      }
      else Some (n, [], False))
   }"

fun flush_neighs ::
  "('t, 'c) Packages \<Rightarrow> (Ny \<Rightarrow> nat) \<Rightarrow> (TransportBundle \<Rightarrow> bool) \<Rightarrow> instant \<Rightarrow> nat list \<Rightarrow> ('t, 'c) Nylon \<Rightarrow>
   (('t, 'c) Nylon \<times> (Peer option \<times> TransportBundle) list \<times> bool) option" where
  "flush_neighs pk sz encodable now [] n = Some (n, [], False)"
| "flush_neighs pk sz encodable now (i # js) n = do {
     (n, sent, err) \<leftarrow> flush_neigh pk sz encodable now i n;
     (if err then Some (n, sent, True)
      else do {
        (n, sent', err) \<leftarrow> flush_neighs pk sz encodable now js n;
        Some (n, sent @ sent', err)
      })
   }"

definition flushIO ::
  "('t, 'c) Packages \<Rightarrow> (Ny \<Rightarrow> nat) \<Rightarrow> (TransportBundle \<Rightarrow> bool) \<Rightarrow> instant \<Rightarrow> ('t, 'c) Nylon \<Rightarrow>
   (('t, 'c) Nylon \<times> (Peer option \<times> TransportBundle) list \<times> bool) option" where
  "flushIO pk sz encodable now n =
     flush_neighs pk sz encodable now [0..<length (rs_Neighbours (ny_State n))] n"

subsection \<open>Start, clean-up and garbage collection\<close>

text \<open>\<^verbatim>\<open>time.Unix(1<<63-62135596801, 999999999)\<close>.\<close>

definition maxTime :: instant where
  "maxTime = (2 ^ 63 - 62135596801) * 1000000000 + 999999999"

definition InitRouter :: "('t, 'c) Packages \<Rightarrow> ('t, 'c) Nylon \<Rightarrow> ('t, 'c) Nylon option" where
  "InitRouter pk n = do {
     r \<leftarrow> GetRouter (ny_Central n) (lc_Id (ny_Local n));
     Some (n\<lparr>ny_IO := [], ny_ForwardTable := tbl_new (tables pk), ny_ExitTable := tbl_new (tables pk),
       ny_State :=
         \<lparr>rs_Tunables = ny_Tunables n, rs_Id = lc_Id (ny_Local n), rs_SelfSeqno = [], rs_Routes = [],
          rs_Sources = [], rs_Neighbours = [],
          rs_Advertised =
            fold (\<lambda>prefix. mput (PrefixHealth_GetPrefix prefix)
                \<lparr>adv_NodeId = lc_Id (ny_Local n), adv_Expiry = maxTime, adv_IsPassiveHold = False,
                 adv_MetricFn = Some (PrefixHealth_GetMetric prefix), adv_ExpiryFn = False\<rparr>)
              (nc_Prefixes (rc_NodeCfg r)) []\<rparr>\<rparr>)
   }"

definition CleanupRouter :: "('t, 'c) Nylon \<Rightarrow> ('t, 'c) Nylon" where
  "CleanupRouter n = n\<lparr>ny_IO := []\<rparr>"

definition GcRouter :: "('t, 'c) Packages \<Rightarrow> instant \<Rightarrow> ('t, 'c) Nylon \<Rightarrow> ('t, 'c) Nylon option" where
  "GcRouter pk now n = do {
     n \<leftarrow> run_algo pk now (RunGC now) n;
     Some (n\<lparr>ny_IO :=
       map (\<lambda>(node, nio). (node, nio\<lparr>io_SeqnoDedup := cache_DeleteExpired (caches pk) now (io_SeqnoDedup nio)\<rparr>))
         (filter (\<lambda>(node, nio). GetNeighbour (ny_State n) node \<noteq> None) (ny_IO n))\<rparr>)
   }"

text \<open>The endpoints that \<^verbatim>\<open>nylonGc\<close> keeps; an inactive one is resolved anew next time. For a mock endpoint
\<^verbatim>\<open>AsNylonEndpoint\<close> is nil and its use panics.\<close>

fun gc_endpoints :: "instant \<Rightarrow> Endpoint list \<Rightarrow> Endpoint list option" where
  "gc_endpoints now [] = Some []"
| "gc_endpoints now (EpMock m # eps) = None"
| "gc_endpoints now (EpNylon u # eps) = do {
     let u = (if isActiveUnlocked now u then u else u\<lparr>ep_DynEP := (ep_DynEP u)\<lparr>dep_lastUpdate := ZeroTime\<rparr>\<rparr>);
     rest \<leftarrow> gc_endpoints now eps;
     Some (if IsAlive now u then EpNylon u # rest else rest)
   }"

definition nylonGc :: "('t, 'c) Packages \<Rightarrow> instant \<Rightarrow> ('t, 'c) Nylon \<Rightarrow> ('t, 'c) Nylon option" where
  "nylonGc pk now n = do {
     ns \<leftarrow> map_opt (\<lambda>x. map_option (\<lambda>eps. x\<lparr>neigh_Eps := eps\<rparr>) (gc_endpoints now (neigh_Eps x)))
            (rs_Neighbours (ny_State n));
     GcRouter pk now (n\<lparr>ny_State := (ny_State n)\<lparr>rs_Neighbours := ns\<rparr>\<rparr>)
   }"

subsection \<open>Passive clients\<close>

definition hasRecentlyAdvertised :: "instant \<Rightarrow> ('t, 'c) Nylon \<Rightarrow> Prefix \<Rightarrow> bool" where
  "hasRecentlyAdvertised now n prefix =
     (case mget (rs_Advertised (ny_State n)) prefix of None \<Rightarrow> False | Some adv \<Rightarrow> now < adv_Expiry adv)"

definition updatePassiveClient ::
  "instant \<Rightarrow> PrefixHealth \<Rightarrow> NodeId \<Rightarrow> bool \<Rightarrow> ('t, 'c) Nylon \<Rightarrow> ('t, 'c) Nylon" where
  "updatePassiveClient now prefix node passiveHold n =
     (let p = PrefixHealth_GetPrefix prefix;
          s = ny_State n;
          hasPassiveHold =
            (case mget (rs_Advertised s) p of
               None \<Rightarrow> False
             | Some old \<Rightarrow> adv_NodeId old = node \<and> adv_IsPassiveHold old);
          s = (if passiveHold \<and> \<not> hasPassiveHold then SetSeqno p (GetSeqno s p + 1) s else s)
      in n\<lparr>ny_State := s\<lparr>rs_Advertised :=
           mput p \<lparr>adv_NodeId = node, adv_Expiry = now + ClientKeepaliveInterval (ny_Tunables n),
                   adv_IsPassiveHold = passiveHold, adv_MetricFn = Some (PrefixHealth_GetMetric prefix),
                   adv_ExpiryFn = True\<rparr> (rs_Advertised s)\<rparr>\<rparr>)"

definition other_advertisers :: "('t, 'c) Nylon \<Rightarrow> NodeCfg \<Rightarrow> bool" where
  "other_advertisers n ncfg \<longleftrightarrow>
     list_ex (\<lambda>prefix. list_ex (\<lambda>neigh. list_ex (\<lambda>(_, route).
         src_Prefix (nr_Source route) = PrefixHealth_GetPrefix prefix \<and>
         src_NodeId (nr_Source route) \<noteq> lc_Id (ny_Local n) \<and> nr_Metric route \<noteq> M_INF)
       (neigh_Routes neigh)) (rs_Neighbours (ny_State n))) (nc_Prefixes ncfg)"

text \<open>The scan for one peer; \<open>lastReceived\<close> is \<^verbatim>\<open>Peer.LastReceivedPacket\<close>.\<close>

definition scan_passive_peer ::
  "instant \<Rightarrow> (Peer \<Rightarrow> instant) \<Rightarrow> Peer \<Rightarrow> ('t, 'c) Nylon \<Rightarrow> ('t, 'c) Nylon option" where
  "scan_passive_peer now lastReceived peer n =
     (case FindNodeBy (ny_Central n) peer of
        None \<Rightarrow> Some n
      | Some nid \<Rightarrow> do {
          ncfg \<leftarrow> GetNode (ny_Central n) nid;
          let hasOtherAdvertisers = other_advertisers n ncfg;
          let recentlyUpdated = time_Sub now (lastReceived peer) < ClientDeadThreshold (ny_Tunables n);
          Some (if IsClient (ny_Central n) nid
                then fold (\<lambda>newPrefix n.
                       if recentlyUpdated \<or>
                          \<not> hasOtherAdvertisers \<and> hasRecentlyAdvertised now n (PrefixHealth_GetPrefix newPrefix)
                       then updatePassiveClient now newPrefix nid (\<not> recentlyUpdated) n else n) (nc_Prefixes ncfg) n
                else n)
        })"

definition scanPassivePeers :: "instant \<Rightarrow> (Peer \<Rightarrow> instant) \<Rightarrow> ('t, 'c) Nylon \<Rightarrow> ('t, 'c) Nylon option" where
  "scanPassivePeers now lastReceived n = fold_opt (scan_passive_peer now lastReceived) (ny_Peers n) n"

text \<open>\<^verbatim>\<open>ForwardEntryToNode\<close>: the least finite metric among the routes of the node.\<close>

definition forward_best :: "NodeId \<Rightarrow> NodeId \<Rightarrow> Prefix \<times> SelRoute \<Rightarrow> SelRoute option \<Rightarrow> SelRoute option" where
  "forward_best self node = (\<lambda>(_, route) best.
     if src_NodeId (sr_Source route) \<noteq> node \<or> sr_Nh route = self \<or> sr_Metric route = M_INF then best
     else case best of
            None \<Rightarrow> Some route
          | Some b \<Rightarrow> if sr_Metric route < sr_Metric b then Some route else best)"

definition ForwardEntryToNode :: "('t, 'c) Nylon \<Rightarrow> NodeId \<Rightarrow> RouteTableEntry option option" where
  "ForwardEntryToNode n node =
     (let self = lc_Id (ny_Local n)
      in if node = self then Some (Some \<lparr>rte_Nh = self, rte_Peer = None, rte_Blackhole = False\<rparr>)
         else case fold (forward_best self node) (rs_Routes (ny_State n)) None of
                None \<Rightarrow> Some None
              | Some best \<Rightarrow> do {
                  cfg \<leftarrow> GetNode (ny_Central n) (sr_Nh best);
                  (case LookupPeer n (nc_PubKey cfg) of
                     None \<Rightarrow> Some None
                   | Some peer \<Rightarrow> Some (Some \<lparr>rte_Nh = sr_Nh best, rte_Peer = Some peer, rte_Blackhole = False\<rparr>))
                })"

end
