(* ===== verification/Allowed_IPs.thy ===== *)
theory Allowed_IPs
  imports Packet
begin

text \<open>
  The device's table of allowed addresses (\<^verbatim>\<open>polyamide/device/allowedips.go\<close>): one compressed binary
  trie per address family. A pointer to an entry is the entry itself; the parent pointers, which
  only serve to replace an entry in its parent, are the recursion. The lists of entries that the
  peers keep are part of the table, by public key. A panic is \<open>None\<close>.
\<close>

unbundle bit_operations_syntax

subsection \<open>Bits\<close>

text \<open>The bits of a word and of a byte string, most significant first.\<close>

definition bits_of :: "'a :: len word \<Rightarrow> bool list" where
  "bits_of w = map (bit w) (rev [0..<LENGTH('a)])"

definition bits_of_bytes :: "bytes \<Rightarrow> bool list" where
  "bits_of_bytes bs = concat (map bits_of bs)"

text \<open>\<^verbatim>\<open>bits.LeadingZeros32\<close> and \<^verbatim>\<open>LeadingZeros64\<close>, and the big-endian words of a slice.\<close>

definition leading_zeros :: "'a :: len word \<Rightarrow> nat" where
  "leading_zeros w = length (takeWhile Not (bits_of w))"

definition be_uint :: "bytes \<Rightarrow> 'a :: len word" where
  "be_uint bs = word_of_nat (be_dec (take (LENGTH('a) div 8) bs))"

definition commonBits :: "bytes \<Rightarrow> bytes \<Rightarrow> nat option" where
  "commonBits ip1 ip2 =
     (if length ip1 = 4 then Some (leading_zeros ((be_uint ip1 :: u32) XOR be_uint ip2))
      else if length ip1 = 16
      then let x = (be_uint ip1 :: u64) XOR be_uint ip2
           in if x \<noteq> 0 then Some (leading_zeros x)
              else Some (64 + leading_zeros ((be_uint (drop 8 ip1) :: u64) XOR be_uint (drop 8 ip2)))
      else None)"

subsection \<open>Tries\<close>

datatype trieEntry =
    NilEntry
  | Entry (te_peer: "Peer option") (te_child0: trieEntry) (te_child1: trieEntry) (te_cidr: nat) (te_bits: bytes)

text \<open>\<^verbatim>\<open>bitAtByte\<close> and \<^verbatim>\<open>bitAtShift\<close> are functions of the prefix length.\<close>

definition choose_bit :: "nat \<Rightarrow> bytes \<Rightarrow> bool option" where
  "choose_bit cidr ip =
     (if cidr div 8 < length ip then Some (drop_bit (7 - cidr mod 8) (ip ! (cidr div 8)) AND 1 = 1) else None)"

text \<open>\<^verbatim>\<open>net.CIDRMask\<close> applied byte by byte.\<close>

definition mask_byte :: "nat \<Rightarrow> nat \<Rightarrow> u8" where
  "mask_byte cidr i =
     (if 8 * i + 8 \<le> cidr then 255 else if cidr \<le> 8 * i then 0 else NOT (mask (8 * i + 8 - cidr)))"

definition maskSelf :: "nat \<Rightarrow> bytes \<Rightarrow> bytes" where
  "maskSelf cidr bits = map (\<lambda>i. bits ! i AND mask_byte cidr i) [0..<length bits]"

fun set_child :: "bool \<Rightarrow> trieEntry \<Rightarrow> trieEntry \<Rightarrow> trieEntry" where
  "set_child b x NilEntry = NilEntry"
| "set_child b x (Entry p l r c bs) = (if b then Entry p l x c bs else Entry p x r c bs)"

text \<open>
  \<^verbatim>\<open>nodePlacement\<close> descends while the entry covers the prefix; the new entry then goes above the entry
  \<^verbatim>\<open>down\<close> below the last one that does, with a branching entry if neither covers the other. The
  result takes the place of \<^verbatim>\<open>down\<close>.
\<close>

definition insert_above :: "bytes \<Rightarrow> nat \<Rightarrow> Peer \<Rightarrow> trieEntry \<Rightarrow> trieEntry option" where
  "insert_above ip cidr peer down = do {
     let newNode = Entry (Some peer) NilEntry NilEntry cidr (maskSelf cidr ip);
     common \<leftarrow> commonBits (te_bits down) ip;
     let c = (if common < cidr then common else cidr);
     (if te_cidr newNode = c
      then do {
        b \<leftarrow> choose_bit (te_cidr newNode) (te_bits down);
        Some (set_child b down newNode)
      }
      else do {
        let node = Entry None NilEntry NilEntry c (maskSelf c (te_bits newNode));
        b \<leftarrow> choose_bit c (te_bits down);
        let node = set_child b down node;
        b \<leftarrow> choose_bit c (te_bits newNode);
        Some (set_child b newNode node)
      })
   }"

fun trie_insert :: "bytes \<Rightarrow> nat \<Rightarrow> Peer \<Rightarrow> trieEntry \<Rightarrow> trieEntry option" where
  "trie_insert ip cidr peer NilEntry = Some (Entry (Some peer) NilEntry NilEntry cidr (maskSelf cidr ip))"
| "trie_insert ip cidr peer (Entry p l r c bs) = do {
     common \<leftarrow> commonBits bs ip;
     (if c \<le> cidr \<and> common \<ge> c
      then if c = cidr then Some (Entry (Some peer) l r c bs)
           else do {
             b \<leftarrow> choose_bit c ip;
             (if b then do { r \<leftarrow> trie_insert ip cidr peer r; Some (Entry p l r c bs) }
              else do { l \<leftarrow> trie_insert ip cidr peer l; Some (Entry p l r c bs) })
           }
      else insert_above ip cidr peer (Entry p l r c bs))
   }"

text \<open>The entry \<^verbatim>\<open>nodePlacement\<close> finds, if it is exact: its peer.\<close>

fun trie_exact :: "bytes \<Rightarrow> nat \<Rightarrow> trieEntry \<Rightarrow> Peer option option option" where
  "trie_exact ip cidr NilEntry = Some None"
| "trie_exact ip cidr (Entry p l r c bs) = do {
     common \<leftarrow> commonBits bs ip;
     (if c \<le> cidr \<and> common \<ge> c
      then if c = cidr then Some (Some p)
           else do { b \<leftarrow> choose_bit c ip; (if b then trie_exact ip cidr r else trie_exact ip cidr l) }
      else Some None)
   }"

text \<open>
  \<^verbatim>\<open>remove\<close> of the exact entry: an entry with two children stays without a peer, otherwise its only
  child takes its place; when it has none, a parent without a peer gives way to its other child.
\<close>

definition drop_entry :: "trieEntry \<Rightarrow> trieEntry \<Rightarrow> nat \<Rightarrow> bytes \<Rightarrow> trieEntry" where
  "drop_entry l r c bs =
     (if l \<noteq> NilEntry \<and> r \<noteq> NilEntry then Entry None l r c bs else if l = NilEntry then r else l)"

definition is_leaf :: "nat \<Rightarrow> trieEntry \<Rightarrow> bool" where
  "is_leaf cidr t = (case t of NilEntry \<Rightarrow> False | Entry p l r c bs \<Rightarrow> c = cidr \<and> l = NilEntry \<and> r = NilEntry)"

definition rejoin :: "bool \<Rightarrow> Peer option \<Rightarrow> trieEntry \<Rightarrow> trieEntry \<Rightarrow> nat \<Rightarrow> bytes \<Rightarrow> trieEntry \<Rightarrow> trieEntry" where
  "rejoin leaf p l r c bs other = (if leaf \<and> p = None then other else Entry p l r c bs)"

fun trie_remove :: "bytes \<Rightarrow> nat \<Rightarrow> trieEntry \<Rightarrow> trieEntry option" where
  "trie_remove ip cidr NilEntry = Some NilEntry"
| "trie_remove ip cidr (Entry p l r c bs) = do {
     common \<leftarrow> commonBits bs ip;
     (if c \<le> cidr \<and> common \<ge> c
      then if c = cidr then Some (drop_entry l r c bs)
           else do {
             b \<leftarrow> choose_bit c ip;
             (if b then do { r' \<leftarrow> trie_remove ip cidr r; Some (rejoin (is_leaf cidr r) p l r' c bs l) }
              else do { l' \<leftarrow> trie_remove ip cidr l; Some (rejoin (is_leaf cidr l) p l' r c bs r) })
           }
      else Some (Entry p l r c bs))
   }"

fun trie_lookup :: "bytes \<Rightarrow> trieEntry \<Rightarrow> Peer option \<Rightarrow> Peer option option" where
  "trie_lookup ip NilEntry found = Some found"
| "trie_lookup ip (Entry p l r c bs) found = do {
     common \<leftarrow> commonBits bs ip;
     (if common \<ge> c
      then let found = (case p of None \<Rightarrow> found | Some q \<Rightarrow> Some q)
           in if c div 8 = length ip then Some found
              else do { b \<leftarrow> choose_bit c ip; trie_lookup ip (if b then r else l) found }
      else Some found)
   }"

subsection \<open>The table\<close>

record AllowedIPs =
  aip_IPv4 :: trieEntry
  aip_IPv6 :: trieEntry
  aip_entries :: "(Peer, (bytes \<times> nat) list) gomap"

definition peer_entries :: "AllowedIPs \<Rightarrow> Peer \<Rightarrow> (bytes \<times> nat) list" where
  "peer_entries t peer = (case mget (aip_entries t) peer of None \<Rightarrow> [] | Some es \<Rightarrow> es)"

definition addToPeerEntries :: "Peer \<Rightarrow> bytes \<times> nat \<Rightarrow> AllowedIPs \<Rightarrow> AllowedIPs" where
  "addToPeerEntries peer e t = t\<lparr>aip_entries := mput peer (peer_entries t peer @ [e]) (aip_entries t)\<rparr>"

definition removeFromPeerEntries :: "Peer option \<Rightarrow> bytes \<times> nat \<Rightarrow> AllowedIPs \<Rightarrow> AllowedIPs" where
  "removeFromPeerEntries peer e t =
     (case peer of
        None \<Rightarrow> t
      | Some q \<Rightarrow> t\<lparr>aip_entries := mput q (remove1 e (peer_entries t q)) (aip_entries t)\<rparr>)"

definition trie_of :: "AllowedIPs \<Rightarrow> bytes \<Rightarrow> trieEntry" where
  "trie_of t ip = (if length ip = 16 then aip_IPv6 t else aip_IPv4 t)"

definition set_trie_of :: "bytes \<Rightarrow> trieEntry \<Rightarrow> AllowedIPs \<Rightarrow> AllowedIPs" where
  "set_trie_of ip x t = (if length ip = 16 then t\<lparr>aip_IPv6 := x\<rparr> else t\<lparr>aip_IPv4 := x\<rparr>)"

text \<open>The address of a prefix as a slice and its length as a byte; the zero address panics.\<close>

definition prefix_key :: "Prefix \<Rightarrow> (bytes \<times> nat) option" where
  "prefix_key prefix =
     (if Prefix_Addr prefix = AddrInvalid then None
      else Some (Addr_MarshalBinary (Addr_WithoutZone (Prefix_Addr prefix)), nat (Prefix_Bits prefix mod 256)))"

definition AllowedIPs_Insert :: "Prefix \<Rightarrow> Peer \<Rightarrow> AllowedIPs \<Rightarrow> AllowedIPs option" where
  "AllowedIPs_Insert prefix peer t = do {
     (ip, cidr) \<leftarrow> prefix_key prefix;
     old \<leftarrow> trie_exact ip cidr (trie_of t ip);
     x \<leftarrow> trie_insert ip cidr peer (trie_of t ip);
     let e = (maskSelf cidr ip, cidr);
     let t = (case old of None \<Rightarrow> t | Some p \<Rightarrow> removeFromPeerEntries p e t);
     Some (addToPeerEntries peer e (set_trie_of ip x t))
   }"

definition AllowedIPs_Remove :: "Prefix \<Rightarrow> Peer \<Rightarrow> AllowedIPs \<Rightarrow> AllowedIPs option" where
  "AllowedIPs_Remove prefix peer t = do {
     (ip, cidr) \<leftarrow> prefix_key prefix;
     old \<leftarrow> trie_exact ip cidr (trie_of t ip);
     (if old \<noteq> Some (Some peer) then Some t
      else do {
        x \<leftarrow> trie_remove ip cidr (trie_of t ip);
        Some (set_trie_of ip x (removeFromPeerEntries (Some peer) (maskSelf cidr ip, cidr) t))
      })
   }"

definition AllowedIPs_RemoveByPeer :: "Peer \<Rightarrow> AllowedIPs \<Rightarrow> AllowedIPs option" where
  "AllowedIPs_RemoveByPeer peer t =
     fold_opt (\<lambda>(bits, cidr) t. do {
         x \<leftarrow> trie_remove bits cidr (trie_of t bits);
         Some (set_trie_of bits x (removeFromPeerEntries (Some peer) (bits, cidr) t))
       }) (peer_entries t peer) t"

definition EntriesForPeer :: "AllowedIPs \<Rightarrow> Peer \<Rightarrow> Prefix list" where
  "EntriesForPeer t peer =
     map (\<lambda>(bits, cidr). PrefixFrom (if length bits = 16 then AddrFrom16 bits else AddrFrom4 bits) (int cidr))
       (peer_entries t peer)"

definition AllowedIPs_Lookup :: "bytes \<Rightarrow> AllowedIPs \<Rightarrow> Peer option option" where
  "AllowedIPs_Lookup ip t =
     (if length ip = 16 then trie_lookup ip (aip_IPv6 t) None
      else if length ip = 4 then trie_lookup ip (aip_IPv4 t) None
      else None)"

end
