(* ===== verification/Allowed_IPs_Properties.thy ===== *)
theory Allowed_IPs_Properties
  imports Allowed_IPs
begin

text \<open>
  The tries of allowed addresses are longest-prefix-match maps: the bit-level operations on byte
  strings as operations on bit lists, the invariant of a trie, and the refinement of a map from
  prefixes to peers by the table.
\<close>

unbundle bit_operations_syntax

subsection \<open>Bit lists\<close>

fun lcp :: "'a list \<Rightarrow> 'a list \<Rightarrow> nat" where
  "lcp (x # xs) (y # ys) = (if x = y then Suc (lcp xs ys) else 0)"
| "lcp _ _ = 0"

lemma lcp_take: "n \<le> lcp xs ys \<longleftrightarrow> n \<le> length xs \<and> n \<le> length ys \<and> take n xs = take n ys"
proof (induction xs ys arbitrary: n rule: lcp.induct)
  case (1 x xs y ys)
  show ?case by (cases n) (auto simp: 1)
qed auto

lemma lcp_nth: "lcp xs ys < length xs \<Longrightarrow> lcp xs ys < length ys \<Longrightarrow> xs ! lcp xs ys \<noteq> ys ! lcp xs ys"
  by (induction xs ys rule: lcp.induct) auto

lemma lcp_append:
  "length xs = length ys \<Longrightarrow>
   lcp (xs @ xs') (ys @ ys') = (if xs = ys then length xs + lcp xs' ys' else lcp xs ys)"
  by (induction xs ys rule: list_induct2) auto

lemma length_bits_of [simp]: "length (bits_of (w :: 'a :: len word)) = LENGTH('a)"
  by (simp add: bits_of_def)

lemma nth_bits_of: "i < LENGTH('a) \<Longrightarrow> bits_of (w :: 'a :: len word) ! i = bit w (LENGTH('a) - Suc i)"
  by (simp add: bits_of_def rev_nth)

lemma bits_of_inject: "bits_of a = bits_of b \<longleftrightarrow> a = (b :: 'a :: len word)"
proof
  assume eq: "bits_of a = bits_of b"
  show "a = b"
  proof (rule bit_word_eqI)
    fix n assume "n < LENGTH('a)"
    then have "bits_of a ! (LENGTH('a) - Suc n) = bit a n" "bits_of b ! (LENGTH('a) - Suc n) = bit b n"
      by (simp_all add: nth_bits_of)
    with eq show "bit a n = bit b n" by simp
  qed
qed simp

lemma bits_of_xor: "bits_of (a XOR b) = map2 (\<noteq>) (bits_of a) (bits_of (b :: 'a :: len word))"
  by (intro nth_equalityI) (auto simp: nth_bits_of bit_xor_iff)

lemma takeWhile_lcp: "length xs = length ys \<Longrightarrow> length (takeWhile Not (map2 (\<noteq>) xs ys)) = lcp xs ys"
  by (induction xs ys rule: list_induct2) auto

lemma leading_zeros_xor: "leading_zeros (a XOR b) = lcp (bits_of a) (bits_of b)"
  unfolding leading_zeros_def bits_of_xor by (rule takeWhile_lcp) simp

lemma length_bits_of_bytes [simp]: "length (bits_of_bytes bs) = 8 * length bs"
  by (induction bs) (simp_all add: bits_of_bytes_def)

lemma bits_of_bytes_append: "bits_of_bytes (xs @ ys) = bits_of_bytes xs @ bits_of_bytes ys"
  by (simp add: bits_of_bytes_def)

lemma nth_bits_of_bytes:
  "i < 8 * length bs \<Longrightarrow> bits_of_bytes bs ! i = bit (bs ! (i div 8)) (7 - i mod 8)"
proof (induction bs arbitrary: i)
  case (Cons b bs)
  show ?case
  proof (cases "i < 8")
    case True
    then show ?thesis by (simp add: bits_of_bytes_def nth_append nth_bits_of)
  next
    case False
    then obtain j where "i = 8 + j" by (metis le_Suc_ex not_less)
    with Cons show ?thesis by (simp add: bits_of_bytes_def nth_append)
  qed
qed simp

text \<open>The bits of a big-endian number are those of its bytes.\<close>

lemma bit_be_dec:
  "bit (be_dec bs) j \<longleftrightarrow> j < 8 * length bs \<and> bit (bs ! (length bs - Suc (j div 8))) (j mod 8)"
proof (induction bs arbitrary: j rule: rev_induct)
  case (snoc b bs)
  have u: "unat b < 256" using unsigned_less [of b] by simp
  have "bit (be_dec bs * 256 + unat b) j = (if j < 8 then bit (unat b) j else bit (be_dec bs) (j - 8))"
  proof -
    have "be_dec bs * 256 + unat b = push_bit 8 (be_dec bs) OR unat b"
    proof -
      have "push_bit 8 (be_dec bs) AND unat b = 0"
        using u by (intro bit_eqI) (auto simp: bit_simps not_le dest: bit_imp_le_length)
      then show ?thesis using disjunctive_add_eq_or [of "push_bit 8 (be_dec bs)" "unat b"] by (simp add: push_bit_eq_mult)
    qed
    moreover have "\<not> bit (unat b) j" if "8 \<le> j"
      using that bit_imp_le_length [of b j] by (auto simp: bit_simps)
    ultimately show ?thesis by (auto simp: bit_simps)
  qed
  then have b: "bit (be_dec (bs @ [b])) j = (if j < 8 then bit b j else bit (be_dec bs) (j - 8))"
    by (simp add: bit_unsigned_iff)
  show ?case
  proof (cases "j < 8")
    case False
    then obtain k where k: "j = 8 + k" by (metis le_Suc_ex not_less)
    show ?thesis
      using b snoc [of k] unfolding k by (auto simp: nth_append)
  qed (simp add: b del: be_dec_snoc)
qed simp

lemma mirrored_index:
  assumes "i < 8 * n"
  shows "n - Suc ((8 * n - Suc i) div 8) = i div 8" "(8 * n - Suc i) mod 8 = 7 - i mod 8"
proof -
  define q r where "q = i div 8" and "r = i mod 8"
  have i: "i = 8 * q + r" "r < 8" by (simp_all add: q_def r_def)
  then obtain m where m: "n = Suc q + m"
    using assms by (metis less_imp_Suc_add less_mult_imp_div_less mult.commute q_def add_Suc)
  define s where "s = 7 - r"
  have s: "8 * n - Suc i = s + 8 * m" "s < 8" using i m by (simp_all add: s_def)
  then have "(8 * n - Suc i) div 8 = m" "(8 * n - Suc i) mod 8 = s" by simp_all
  then show "n - Suc ((8 * n - Suc i) div 8) = i div 8" "(8 * n - Suc i) mod 8 = 7 - i mod 8"
    using m by (simp_all add: s_def q_def r_def)
qed

lemma bits_of_be_uint:
  assumes "LENGTH('a :: len) div 8 \<le> length bs" "8 dvd LENGTH('a)"
  shows "bits_of (be_uint bs :: 'a word) = bits_of_bytes (take (LENGTH('a) div 8) bs)"
proof (rule nth_equalityI)
  let ?n = "LENGTH('a) div 8"
  have n: "8 * ?n = LENGTH('a)" using assms(2) by simp
  show "length (bits_of (be_uint bs :: 'a word)) = length (bits_of_bytes (take ?n bs))"
    using assms(1) n by simp
  fix i assume "i < length (bits_of (be_uint bs :: 'a word))"
  then have i: "i < 8 * ?n" using n by simp
  then have "bits_of (be_uint bs :: 'a word) ! i = bit (be_dec (take ?n bs)) (8 * ?n - Suc i)"
    by (simp add: nth_bits_of be_uint_def bit_simps n)
  moreover note mirrored_index [OF i]
  ultimately show "bits_of (be_uint bs :: 'a word) ! i = bits_of_bytes (take ?n bs) ! i"
    using i assms(1) by (simp add: bit_be_dec nth_bits_of_bytes min_def)
qed

lemma xor_eq_0_iff: "a XOR b = 0 \<longleftrightarrow> a = b" for a b :: "'a :: len word"
proof
  assume "a XOR b = 0"
  moreover have "a = (a XOR b) XOR b" by (simp add: xor.assoc)
  ultimately show "a = b" by simp
qed simp

lemma bytes_split: "bits_of_bytes bs = bits_of_bytes (take 8 bs) @ bits_of_bytes (drop 8 bs)"
  by (simp flip: bits_of_bytes_append)

lemma commonBits_lcp:
  assumes "length a = 4 \<or> length a = 16" "length b = length a"
  shows "commonBits a b = Some (lcp (bits_of_bytes a) (bits_of_bytes b))"
proof (cases "length a = 4")
  case True
  then show ?thesis
    using assms by (simp add: commonBits_def leading_zeros_xor bits_of_be_uint)
next
  case False
  let ?a = "be_uint a :: u64" and ?b = "be_uint b :: u64"
  have hi: "bits_of ?a = bits_of_bytes (take 8 a)" "bits_of ?b = bits_of_bytes (take 8 b)"
    using False assms by (simp_all add: bits_of_be_uint)
  have lo: "bits_of (be_uint (drop 8 a) :: u64) = bits_of_bytes (drop 8 a)"
    "bits_of (be_uint (drop 8 b) :: u64) = bits_of_bytes (drop 8 b)"
    using False assms by (simp_all add: bits_of_be_uint)
  have "?a XOR ?b = 0 \<longleftrightarrow> bits_of_bytes (take 8 a) = bits_of_bytes (take 8 b)"
    unfolding hi [symmetric] bits_of_inject by (rule xor_eq_0_iff)
  moreover have "lcp (bits_of_bytes a) (bits_of_bytes b) =
      (if bits_of_bytes (take 8 a) = bits_of_bytes (take 8 b)
       then 64 + lcp (bits_of_bytes (drop 8 a)) (bits_of_bytes (drop 8 b))
       else lcp (bits_of_bytes (take 8 a)) (bits_of_bytes (take 8 b)))"
    unfolding bytes_split [of a] bytes_split [of b] using False assms by (subst lcp_append) simp_all
  ultimately show ?thesis
    using False assms by (simp add: commonBits_def Let_def leading_zeros_xor hi lo)
qed

lemma choose_bit_nth: "c < 8 * length ip \<Longrightarrow> choose_bit c ip = Some (bits_of_bytes ip ! c)"
  by (auto simp: choose_bit_def nth_bits_of_bytes and_one_eq bit_iff_odd_drop_bit odd_iff_mod_2_eq_one)

lemma bit_mask_byte: "j < 8 \<Longrightarrow> bit (mask_byte c i) (7 - j) \<longleftrightarrow> 8 * i + j < c"
proof -
  assume j: "j < 8"
  have "(255 :: u8) = mask 8" by (simp add: mask_eq_exp_minus_1)
  then have "bit (255 :: u8) (7 - j)" using j by (simp only: bit_mask_iff) simp
  with j show ?thesis
    by (auto simp: mask_byte_def bit_simps)
qed

lemma length_maskSelf [simp]: "length (maskSelf c ip) = length ip"
  by (simp add: maskSelf_def)

lemma bits_maskSelf:
  assumes "c \<le> 8 * length ip"
  shows "bits_of_bytes (maskSelf c ip) = take c (bits_of_bytes ip) @ replicate (8 * length ip - c) False"
proof (rule nth_equalityI)
  fix i assume "i < length (bits_of_bytes (maskSelf c ip))"
  then have i: "i < 8 * length ip" by simp
  then have "i div 8 < length ip" by simp
  then have "bits_of_bytes (maskSelf c ip) ! i = (bits_of_bytes ip ! i \<and> 8 * (i div 8) + i mod 8 < c)"
    using i by (simp add: nth_bits_of_bytes maskSelf_def bit_and_iff bit_mask_byte)
  then show "bits_of_bytes (maskSelf c ip) ! i =
      (take c (bits_of_bytes ip) @ replicate (8 * length ip - c) False) ! i"
    using i assms by (auto simp: nth_append)
qed (use assms in simp)

subsection \<open>The invariant of a trie\<close>

text \<open>The bits an entry stands for, and the entries of a trie.\<close>

definition key :: "bytes \<times> nat \<Rightarrow> bool list" where
  "key e = take (snd e) (bits_of_bytes (fst e))"

fun nodes :: "trieEntry \<Rightarrow> (bytes \<times> nat) set" where
  "nodes NilEntry = {}"
| "nodes (Entry p l r c bs) = insert (bs, c) (nodes l \<union> nodes r)"

text \<open>Those with a peer.\<close>

fun entries :: "trieEntry \<Rightarrow> ((bytes \<times> nat) \<times> Peer) set" where
  "entries NilEntry = {}"
| "entries (Entry p l r c bs) = (case p of None \<Rightarrow> {} | Some q \<Rightarrow> {((bs, c), q)}) \<union> entries l \<union> entries r"

definition masked :: "nat \<Rightarrow> bytes \<times> nat \<Rightarrow> bool" where
  "masked n e \<longleftrightarrow> length (fst e) = n \<and> snd e \<le> 8 * n \<and>
     bits_of_bytes (fst e) = key e @ replicate (8 * n - snd e) False"

definition under :: "bool list \<Rightarrow> trieEntry \<Rightarrow> bool" where
  "under k t \<longleftrightarrow> (\<forall>e \<in> nodes t. take (length k) (key e) = k)"

fun wf_trie :: "nat \<Rightarrow> trieEntry \<Rightarrow> bool" where
  "wf_trie n NilEntry = True"
| "wf_trie n (Entry p l r c bs) \<longleftrightarrow>
     masked n (bs, c) \<and> under (key (bs, c) @ [False]) l \<and> under (key (bs, c) @ [True]) r \<and> wf_trie n l \<and> wf_trie n r"

lemma maskedD: "masked n (bs, c) \<Longrightarrow> length bs = n" "masked n (bs, c) \<Longrightarrow> c \<le> 8 * n"
  by (simp_all add: masked_def)

lemma length_key: "masked n e \<Longrightarrow> length (key e) = snd e"
  by (auto simp: key_def masked_def)

lemma masked_inj:
  assumes "masked n e" "masked n e'" "key e = key e'"
  shows "e = e'"
proof -
  have "snd e = snd e'" using assms length_key by metis
  then have "bits_of_bytes (fst e) = bits_of_bytes (fst e')"
    using assms by (simp add: masked_def)
  moreover have "bits_of_bytes xs = bits_of_bytes ys \<Longrightarrow> length xs = length ys \<Longrightarrow> xs = ys" for xs ys
  proof (induction xs ys rule: list_induct2')
    case (4 x xs y ys)
    then show ?case by (simp add: bits_of_bytes_def bits_of_inject)
  qed auto
  ultimately show ?thesis
    using assms \<open>snd e = snd e'\<close> by (simp add: masked_def prod_eq_iff)
qed

lemma wf_masked: "wf_trie n t \<Longrightarrow> e \<in> nodes t \<Longrightarrow> masked n e"
  by (induction t) auto

lemma entries_nodes: "(e, q) \<in> entries t \<Longrightarrow> e \<in> nodes t"
  by (induction t) (auto split: option.splits)

lemma under_longer: "under k t \<Longrightarrow> e \<in> nodes t \<Longrightarrow> length k \<le> length (key e)"
proof -
  assume "under k t" "e \<in> nodes t"
  then have "take (length k) (key e) = k" by (simp add: under_def)
  from arg_cong [OF this, of length] show ?thesis by simp
qed

text \<open>Entries of a proper subtree differ from those above and from those in the other subtree.\<close>

lemma under_Nil [simp]: "under k NilEntry"
  by (simp add: under_def)

lemma under_Entry [simp]:
  "under k (Entry p l r c bs) \<longleftrightarrow> take (length k) (key (bs, c)) = k \<and> under k l \<and> under k r"
  by (auto simp: under_def)

lemma under_take: "under k t \<Longrightarrow> n \<le> length k \<Longrightarrow> under (take n k) t"
proof -
  assume u: "under k t" and n: "n \<le> length k"
  have "take n (key e) = take n k" if "e \<in> nodes t" for e
  proof -
    have "take (length k) (key e) = k" using u that by (simp add: under_def)
    from arg_cong [OF this, of "take n"] show ?thesis using n by (simp add: min_def)
  qed
  then show ?thesis using n by (simp add: under_def min_def)
qed

lemma under_disjoint:
  assumes "under (k @ [b]) t" "e \<in> nodes t"
  shows "key e \<noteq> k" "length k < length (key e)" "key e ! length k = b" "take (length k) (key e) = k"
proof -
  have t: "take (Suc (length k)) (key e) = k @ [b]"
    using assms by (auto simp: under_def)
  have "length (take (Suc (length k)) (key e)) = Suc (length k)" unfolding t by simp
  then show l: "length k < length (key e)" unfolding length_take by linarith
  then show "key e \<noteq> k" by auto
  have "take (Suc (length k)) (key e) ! length k = b" unfolding t by simp
  then show "key e ! length k = b" using l by simp
  have "take (length k) (take (Suc (length k)) (key e)) = k" unfolding t by simp
  then show "take (length k) (key e) = k" by simp
qed

lemma underI: "(\<And>e. e \<in> nodes t \<Longrightarrow> take (length k) (key e) = k) \<Longrightarrow> under k t"
  by (simp add: under_def)

lemma entry_keys_inj:
  assumes "wf_trie n t" "e \<in> nodes t" "e' \<in> nodes t" "key e = key e'"
  shows "e = e'"
  using assms masked_inj wf_masked by blast

subsection \<open>Operations on a trie\<close>

text \<open>Facts about an entry and an address of the same family.\<close>

lemma key_of_masked_ip: "c \<le> 8 * length ip \<Longrightarrow> key (maskSelf c ip, c) = take c (bits_of_bytes ip)"
  by (simp add: key_def bits_maskSelf)

lemma masked_maskSelf: "c \<le> 8 * length ip \<Longrightarrow> masked (length ip) (maskSelf c ip, c)"
  by (simp add: masked_def key_of_masked_ip bits_maskSelf)

lemma common_covers:
  assumes "masked n (bs, c)" "n = 4 \<or> n = 16" "length ip = n"
  obtains m where "commonBits bs ip = Some m"
    and "m \<ge> c \<longleftrightarrow> key (bs, c) = take c (bits_of_bytes ip)"
    and "\<And>j. j \<le> m \<longleftrightarrow> j \<le> 8 * n \<and> take j (bits_of_bytes bs) = take j (bits_of_bytes ip)"
    and "m < 8 * n \<Longrightarrow> bits_of_bytes bs ! m \<noteq> bits_of_bytes ip ! m"
proof
  let ?m = "lcp (bits_of_bytes bs) (bits_of_bytes ip)"
  have l: "length bs = n" using assms by (simp add: masked_def)
  then show "commonBits bs ip = Some ?m" using assms by (simp add: commonBits_lcp)
  show "j \<le> ?m \<longleftrightarrow> j \<le> 8 * n \<and> take j (bits_of_bytes bs) = take j (bits_of_bytes ip)" for j
    using assms(3) l by (simp add: lcp_take)
  then show "?m \<ge> c \<longleftrightarrow> key (bs, c) = take c (bits_of_bytes ip)"
    using assms(1) by (simp add: key_def masked_def)
  show "bits_of_bytes bs ! ?m \<noteq> bits_of_bytes ip ! ?m" if "?m < 8 * n"
    using that assms(3) l by (intro lcp_nth) simp_all
qed

definition same_except :: "bytes \<times> nat \<Rightarrow> trieEntry \<Rightarrow> ((bytes \<times> nat) \<times> Peer) set" where
  "same_except e t = {x \<in> entries t. fst x \<noteq> e}"

lemma same_except_absent: "e \<notin> nodes t \<Longrightarrow> same_except e t = entries t"
  using entries_nodes by (auto simp: same_except_def)

lemma same_except_simps [simp]:
  "same_except e NilEntry = {}"
  "same_except e (Entry p l r c bs) =
     (if e = (bs, c) then {} else case p of None \<Rightarrow> {} | Some q \<Rightarrow> {((bs, c), q)}) \<union> same_except e l \<union> same_except e r"
  by (auto simp: same_except_def split: option.splits)

lemma node_extends:
  assumes "wf_trie n (Entry p l r c bs)" "x \<in> nodes (Entry p l r c bs)"
  shows "take c (key x) = key (bs, c)" "c \<le> length (key x)"
proof -
  have len: "length (key (bs, c)) = c" using assms(1) length_key by fastforce
  have "take c (key x) = key (bs, c) \<and> c \<le> length (key x)"
    using assms under_disjoint [of "key (bs, c)" _ _ x] len by fastforce
  then show "take c (key x) = key (bs, c)" "c \<le> length (key x)" by simp_all
qed

lemma take_Suc_nth: "j < length xs \<Longrightarrow> take (Suc j) xs = take j xs @ [xs ! j]"
  by (rule take_Suc_conv_app_nth)

text \<open>Below a shorter common prefix, all entries of a trie agree on the next bit.\<close>

lemma branch_bit:
  assumes t: "wf_trie n (Entry p l r c bs)" "x \<in> nodes (Entry p l r c bs)" and j: "j < c"
    and eq: "take j (bits_of_bytes bs) = q"
  shows "take (Suc j) (key x) = q @ [bits_of_bytes bs ! j]"
proof -
  have m: "masked n (bs, c)" using t by simp
  have c: "c \<le> length (bits_of_bytes bs)" using maskedD [OF m] by simp
  have "take (Suc j) (key x) = take (Suc j) (take c (key x))"
    using j by simp
  also have "\<dots> = take (Suc j) (bits_of_bytes bs)"
    unfolding node_extends(1) [OF t] using j by (simp add: key_def)
  also have "\<dots> = q @ [bits_of_bytes bs ! j]"
    using j c eq by (subst take_Suc_nth) simp_all
  finally show ?thesis .
qed

lemma insert_above_spec:
  assumes t: "wf_trie n t" "t = Entry p l r c bs" and n: "n = 4 \<or> n = 16" "length ip = n" "cidr \<le> 8 * n"
    and nc: "\<not> (c \<le> cidr \<and> key (bs, c) = take c (bits_of_bytes ip))"
  defines "e \<equiv> (maskSelf cidr ip, cidr)"
  shows "\<exists>t'. insert_above ip cidr peer t = Some t' \<and> wf_trie n t' \<and> e \<notin> nodes t \<and>
    entries t' = insert (e, peer) (entries t) \<and>
    (\<forall>q. under q t \<and> take (length q) (take cidr (bits_of_bytes ip)) = q \<longrightarrow> under q t')"
proof -
  let ?B = "bits_of_bytes bs" and ?I = "bits_of_bytes ip"
  let ?new = "Entry (Some peer) NilEntry NilEntry cidr (maskSelf cidr ip)"
  have mk: "masked n (bs, c)" using t by simp
  have c: "c \<le> 8 * n" "length ?B = 8 * n" "length ?I = 8 * n"
    using maskedD [OF mk] n by simp_all
  obtain m where m: "commonBits bs ip = Some m" "m \<ge> c \<longleftrightarrow> key (bs, c) = take c ?I"
    "\<And>j. j \<le> m \<longleftrightarrow> j \<le> 8 * n \<and> take j ?B = take j ?I" "m < 8 * n \<Longrightarrow> ?B ! m \<noteq> ?I ! m"
    using common_covers [OF mk n(1,2)] by metis
  have e: "key e = take cidr ?I" "masked n e"
    using n key_of_masked_ip [of cidr ip] masked_maskSelf [of cidr ip] by (simp_all add: e_def)
  note bb = branch_bit [OF t(1) [unfolded t(2)]]
  show ?thesis
  proof (cases "m < cidr")
    case False
    then have lt: "cidr < c" and eq: "take cidr ?B = take cidr ?I"
      using nc m(2) m(3) [of cidr] by auto
    have ch: "choose_bit cidr bs = Some (?B ! cidr)"
      using lt c maskedD [OF mk] by (intro choose_bit_nth) simp
    have u: "under (key e @ [?B ! cidr]) t"
      using bb [OF _ lt eq] n(3) c by (intro underI) (simp add: e t(2) min_def)
    have "insert_above ip cidr peer t = Some (set_child (?B ! cidr) t ?new)"
      using False m(1) ch by (simp add: insert_above_def t(2))
    moreover have "e \<notin> nodes t"
      using under_disjoint(1) [OF u] by blast
    ultimately show ?thesis
      using t(1) u e by (auto simp: e_def under_def)
  next
    case True
    then have lt: "m < c" and m8: "m < 8 * n" and eq: "take m ?B = take m ?I" and ne: "?B ! m \<noteq> ?I ! m"
      using nc m(2,4) m(3) [of m] n(3) by auto
    let ?g = "(maskSelf m (maskSelf cidr ip), m)"
    have bm: "bits_of_bytes (maskSelf cidr ip) ! m = ?I ! m" "take m (bits_of_bytes (maskSelf cidr ip)) = take m ?I"
      using True n(2,3) by (simp_all add: bits_maskSelf nth_append min_def)
    have g: "key ?g = take m ?I" "masked n ?g"
      using m8 n(2) key_of_masked_ip [of m "maskSelf cidr ip"] masked_maskSelf [of m "maskSelf cidr ip"] bm(2) by simp_all
    have ch: "choose_bit m bs = Some (?B ! m)" "choose_bit m (maskSelf cidr ip) = Some (?I ! m)"
      using m8 n(2) maskedD [OF mk] bm(1) by (simp_all add: choose_bit_nth)
    have u: "under (key ?g @ [?B ! m]) t"
      using bb [OF _ lt eq] m8 c by (intro underI) (simp add: g t(2) min_def)
    have ue: "take (Suc m) (key e) = key ?g @ [?I ! m]"
      using True m8 c by (simp add: e g take_Suc_nth min_def)
    have "e \<notin> nodes t"
      using u ue ne m8 c by (auto simp: under_def g min_def)
    moreover have "under q (Entry None NilEntry NilEntry (snd ?g) (fst ?g))"
      if "under q t" "take (length q) (take cidr ?I) = q" for q
    proof -
      have q1: "take (length q) (key (bs, c)) = q" using that(1) by (simp add: under_def t(2))
      have "length q \<le> cidr" "length q \<le> c"
        using arg_cong [OF that(2), of length] arg_cong [OF q1, of length] length_key [OF mk] by simp_all
      then have "take (length q) ?B = q" "take (length q) ?I = q"
        using q1 that(2) by (simp_all add: key_def min_def)
      then have "length q \<le> m" using m(3) [of "length q"] \<open>length q \<le> c\<close> c by simp
      then show ?thesis using \<open>take (length q) ?I = q\<close> by (simp add: under_def g min_def)
    qed
    moreover have "insert_above ip cidr peer t =
        Some (set_child (?I ! m) ?new (set_child (?B ! m) t (Entry None NilEntry NilEntry m (fst ?g))))"
      using True m(1) ch by (simp add: insert_above_def t(2) Let_def)
    moreover have "under (key ?g @ [?I ! m]) ?new"
      using ue m8 c e by (simp add: under_def g e_def min_def)
    ultimately show ?thesis
      using t(1) u e g ne by (cases "?I ! m") (auto simp: e_def under_def)
  qed
qed

text \<open>The entry of a prefix below an entry lies in the subtree that its next bit selects.\<close>

lemma descend:
  assumes t: "wf_trie n (Entry p l r c bs)" and k: "key e = take cidr (bits_of_bytes ip)"
    and e: "e \<in> nodes (if b then r else l)" and n: "length ip = n" "cidr \<le> 8 * n"
  shows "c < cidr" "key (bs, c) = take c (bits_of_bytes ip)" "bits_of_bytes ip ! c = b"
proof -
  have u: "under (key (bs, c) @ [b]) (if b then r else l)" using t by auto
  have c: "length (key (bs, c)) = c" using t length_key by fastforce
  note d = under_disjoint [OF u e, unfolded c k]
  have "length (take cidr (bits_of_bytes ip)) = cidr" using n by simp
  with d(2) show "c < cidr" by simp
  with d(3,4) show "bits_of_bytes ip ! c = b" "key (bs, c) = take c (bits_of_bytes ip)"
    by (simp_all add: min_def)
qed

text \<open>The three ways in which an entry and a prefix relate on the way down.\<close>

lemma entry_cases:
  assumes t: "wf_trie n (Entry p l r c bs)" and n: "n = 4 \<or> n = 16" "length ip = n" "cidr \<le> 8 * n"
    and e: "e = (maskSelf cidr ip, cidr)"
  obtains (above) m where "commonBits bs ip = Some m" "\<not> (c \<le> cidr \<and> c \<le> m)"
      "\<not> (c \<le> cidr \<and> key (bs, c) = take c (bits_of_bytes ip))" "e \<notin> nodes (Entry p l r c bs)"
    | (here) m where "commonBits bs ip = Some m" "c = cidr" "c \<le> m" "e = (bs, c)" "e \<notin> nodes l" "e \<notin> nodes r"
    | (left) m where "commonBits bs ip = Some m" "c < cidr" "c \<le> m" "choose_bit c ip = Some False"
      "take (Suc c) (key e) = key (bs, c) @ [False]" "e \<noteq> (bs, c)" "e \<notin> nodes r"
    | (right) m where "commonBits bs ip = Some m" "c < cidr" "c \<le> m" "choose_bit c ip = Some True"
      "take (Suc c) (key e) = key (bs, c) @ [True]" "e \<noteq> (bs, c)" "e \<notin> nodes l"
proof -
  have k: "key e = take cidr (bits_of_bytes ip)" "masked n e"
    using n key_of_masked_ip [of cidr ip] masked_maskSelf [of cidr ip] by (simp_all add: e)
  have mk: "masked n (bs, c)" using t by simp
  obtain m where m: "commonBits bs ip = Some m" "m \<ge> c \<longleftrightarrow> key (bs, c) = take c (bits_of_bytes ip)"
    using common_covers [OF mk n(1,2)] by metis
  have eq: "e = (bs, c) \<longleftrightarrow> c = cidr \<and> key (bs, c) = take c (bits_of_bytes ip)"
    using k masked_inj [OF k(2) mk] by (auto simp: e)
  note dl = descend [OF t k(1), where b = False, OF _ n(2,3)]
  note dr = descend [OF t k(1), where b = True, OF _ n(2,3)]
  have sub: "e \<in> nodes l \<or> e \<in> nodes r \<longrightarrow> c < cidr \<and> key (bs, c) = take c (bits_of_bytes ip)"
    using dl dr by auto
  consider "\<not> (c \<le> cidr \<and> c \<le> m)" | "c = cidr" "c \<le> m" | "c < cidr" "c \<le> m" by linarith
  then show thesis
  proof cases
    case 1
    then have "e \<notin> nodes (Entry p l r c bs)" using eq sub m(2) by auto
    with 1 m show thesis by (intro above) auto
  next
    case 2
    with eq sub m show thesis by (intro here) auto
  next
    case 3
    have ch: "choose_bit c ip = Some (bits_of_bytes ip ! c)"
      using 3 n by (simp add: choose_bit_nth)
    have tk: "take (Suc c) (key e) = key (bs, c) @ [bits_of_bytes ip ! c]"
      using 3 m(2) n by (simp add: k take_Suc_nth min_def)
    have "e \<noteq> (bs, c)" using 3 eq by auto
    then show thesis
      using 3 m(1) ch tk dl(3) dr(3) by (cases "bits_of_bytes ip ! c") (auto intro: left right)
  qed
qed

lemma trie_exact_spec:
  assumes "wf_trie n t" "n = 4 \<or> n = 16" "length ip = n" "cidr \<le> 8 * n"
  defines "e \<equiv> (maskSelf cidr ip, cidr)"
  shows "\<exists>x. trie_exact ip cidr t = Some x \<and> (x = None \<longleftrightarrow> e \<notin> nodes t) \<and>
    (\<forall>q. x = Some (Some q) \<longleftrightarrow> (e, q) \<in> entries t)"
  using assms(1)
proof (induction t)
  case (Entry p l r c bs)
  note en = entries_nodes [of e _ l] entries_nodes [of e _ r]
  from Entry.prems assms(2-4) e_def [THEN meta_eq_to_obj_eq] show ?case
  proof (cases rule: entry_cases)
    case (left m)
    then show ?thesis using Entry.IH(1) Entry.prems en by (auto split: option.splits)
  next
    case (right m)
    then show ?thesis using Entry.IH(2) Entry.prems en by (auto split: option.splits)
  qed (use en in \<open>auto split: option.splits\<close>)
qed simp

lemma trie_insert_spec:
  assumes "wf_trie n t" "n = 4 \<or> n = 16" "length ip = n" "cidr \<le> 8 * n"
  defines "e \<equiv> (maskSelf cidr ip, cidr)"
  shows "\<exists>t'. trie_insert ip cidr peer t = Some t' \<and> wf_trie n t' \<and> entries t' = insert (e, peer) (same_except e t) \<and>
    (\<forall>q. under q t \<and> take (length q) (key e) = q \<longrightarrow> under q t')"
  using assms(1)
proof (induction t)
  case NilEntry
  then show ?case
    using masked_maskSelf [of cidr ip] assms(3,4) by (auto simp: e_def under_def)
next
  case (Entry p l r c bs)
  have k: "key e = take cidr (bits_of_bytes ip)"
    using assms(3,4) key_of_masked_ip [of cidr ip] by (simp add: e_def)
  have c: "length (key (bs, c)) = c" using Entry.prems length_key by fastforce
  from Entry.prems assms(2-4) e_def [THEN meta_eq_to_obj_eq] show ?case
  proof (cases rule: entry_cases)
    case (above m)
    then show ?thesis
      using insert_above_spec [OF Entry.prems refl assms(2-4) above(3), of peer] same_except_absent [OF above(4)]
      by (auto simp: e_def [symmetric] k)
  next
    case (here m)
    then show ?thesis using Entry.prems by (auto simp: same_except_absent under_def)
  next
    case (left m)
    have wl: "wf_trie n l" using Entry.prems by simp
    from Entry.IH(1) [OF wl] obtain l' where l': "trie_insert ip cidr peer l = Some l'" "wf_trie n l'"
      "entries l' = insert (e, peer) (same_except e l)"
      and u: "\<And>q. under q l \<Longrightarrow> take (length q) (key e) = q \<Longrightarrow> under q l'" by metis
    have "under (key (bs, c) @ [False]) l'"
      using u left(5) Entry.prems c by simp
    then show ?thesis using left Entry.prems l' by (auto simp: same_except_absent intro: u)
  next
    case (right m)
    have wr: "wf_trie n r" using Entry.prems by simp
    from Entry.IH(2) [OF wr] obtain r' where r': "trie_insert ip cidr peer r = Some r'" "wf_trie n r'"
      "entries r' = insert (e, peer) (same_except e r)"
      and u: "\<And>q. under q r \<Longrightarrow> take (length q) (key e) = q \<Longrightarrow> under q r'" by metis
    have "under (key (bs, c) @ [True]) r'"
      using u right(5) Entry.prems c by simp
    then show ?thesis using right Entry.prems r' by (auto simp: same_except_absent intro: u)
  qed
qed

lemma under_mono: "nodes t' \<subseteq> nodes t \<Longrightarrow> under k t \<Longrightarrow> under k t'"
  by (auto simp: under_def)

lemma drop_entry_spec:
  assumes "wf_trie n (Entry p l r c bs)"
  shows "wf_trie n (drop_entry l r c bs)" "entries (drop_entry l r c bs) = entries l \<union> entries r"
    "nodes (drop_entry l r c bs) \<subseteq> nodes (Entry p l r c bs)"
  using assms by (auto simp: drop_entry_def)

lemma leaf_removed:
  assumes "is_leaf cidr t" "e \<in> nodes t" "e = (maskSelf cidr ip, cidr)" "wf_trie n t"
  shows "same_except e t = {}"
  using assms by (auto simp: is_leaf_def split: trieEntry.splits option.splits)

lemma trie_remove_spec:
  assumes "wf_trie n t" "n = 4 \<or> n = 16" "length ip = n" "cidr \<le> 8 * n"
  defines "e \<equiv> (maskSelf cidr ip, cidr)"
  assumes "e \<in> nodes t"
  shows "\<exists>t'. trie_remove ip cidr t = Some t' \<and> wf_trie n t' \<and> entries t' = same_except e t \<and> nodes t' \<subseteq> nodes t"
  using assms(1,6)
proof (induction t)
  case (Entry p l r c bs)
  note e = e_def [THEN meta_eq_to_obj_eq]
  from Entry.prems(1) assms(2-4) e show ?case
  proof (cases rule: entry_cases)
    case (here m)
    then show ?thesis
      using drop_entry_spec [OF Entry.prems(1)] by (auto simp: same_except_absent)
  next
    case (left m)
    have wl: "wf_trie n l" and el: "e \<in> nodes l" using left Entry.prems by auto
    from Entry.IH(1) [OF wl el] obtain l' where l': "trie_remove ip cidr l = Some l'" "wf_trie n l'"
      "entries l' = same_except e l" "nodes l' \<subseteq> nodes l" by metis
    have "under (key (bs, c) @ [False]) l'" using under_mono [OF l'(4)] Entry.prems by simp
    then show ?thesis
      using left Entry.prems l' leaf_removed [OF _ el e wl] by (auto simp: same_except_absent rejoin_def)
  next
    case (right m)
    have wr: "wf_trie n r" and er: "e \<in> nodes r" using right Entry.prems by auto
    from Entry.IH(2) [OF wr er] obtain r' where r': "trie_remove ip cidr r = Some r'" "wf_trie n r'"
      "entries r' = same_except e r" "nodes r' \<subseteq> nodes r" by metis
    have "under (key (bs, c) @ [True]) r'" using under_mono [OF r'(4)] Entry.prems by simp
    then show ?thesis
      using right Entry.prems r' leaf_removed [OF _ er e wr] by (auto simp: same_except_absent rejoin_def)
  qed (use Entry.prems in auto)
qed simp

subsection \<open>Longest-prefix match\<close>

definition matches :: "bytes \<times> nat \<Rightarrow> bytes \<Rightarrow> bool" where
  "matches e ip \<longleftrightarrow> take (length (key e)) (bits_of_bytes ip) = key e"

text \<open>The peer of the longest matching entry, or the default if none matches.\<close>

definition is_best :: "((bytes \<times> nat) \<times> Peer) set \<Rightarrow> bytes \<Rightarrow> Peer option \<Rightarrow> Peer option \<Rightarrow> bool" where
  "is_best E ip dflt res \<longleftrightarrow>
     (if \<exists>(e, q) \<in> E. matches e ip
      then \<exists>(e, q) \<in> E. matches e ip \<and> res = Some q \<and> (\<forall>(e', q') \<in> E. matches e' ip \<longrightarrow> snd e' \<le> snd e)
      else res = dflt)"

lemma matches_below:
  assumes "wf_trie n (Entry p l r c bs)" "e \<in> nodes (Entry p l r c bs)" "matches e ip"
  shows "key (bs, c) = take c (bits_of_bytes ip)"
proof -
  note x = node_extends [OF assms(1,2)]
  have "take c (take (length (key e)) (bits_of_bytes ip)) = key (bs, c)"
    using assms(3) x by (simp add: matches_def)
  then show ?thesis using x(2) by (simp add: min_def)
qed

lemma matches_bit:
  assumes "under (k @ [b]) t" "e \<in> nodes t" "matches e ip"
  shows "bits_of_bytes ip ! length k = b"
proof -
  note d = under_disjoint [OF assms(1,2)]
  have "take (length (key e)) (bits_of_bytes ip) ! length k = b"
    using assms(3) d(3) by (simp add: matches_def)
  then show ?thesis using d(2) by simp
qed

lemma is_best_none: "(\<And>e q. (e, q) \<in> E \<Longrightarrow> \<not> matches e ip) \<Longrightarrow> is_best E ip d d"
  by (auto simp: is_best_def)

text \<open>A subtree that cannot match may be left out, and an entry above one that matches is worse.\<close>

lemma is_best_child:
  assumes "is_best E ip found' res" and sub: "\<And>e q. (e, q) \<in> E \<Longrightarrow> c < snd e"
    and other: "\<And>e q. (e, q) \<in> E' \<Longrightarrow> \<not> matches e ip"
    and self: "matches (bs, c) ip" "found' = (case p of None \<Rightarrow> found | Some q \<Rightarrow> Some q)"
  shows "is_best ((case p of None \<Rightarrow> {} | Some q \<Rightarrow> {((bs, c), q)}) \<union> E \<union> E') ip found res"
proof (cases "\<exists>(e, q) \<in> E. matches e ip")
  case True
  have o': "\<forall>(e', q') \<in> E'. \<not> matches e' ip" using other by blast
  from True obtain e q where e: "(e, q) \<in> E" "matches e ip" "res = Some q" "\<forall>(e', q') \<in> E. matches e' ip \<longrightarrow> snd e' \<le> snd e"
    using assms(1) by (auto simp: is_best_def)
  have c: "c \<le> snd e" using sub [OF e(1)] by simp
  let ?E = "(case p of None \<Rightarrow> {} | Some q \<Rightarrow> {((bs, c), q)}) \<union> E \<union> E'"
  have "\<forall>(e', q') \<in> ?E. matches e' ip \<longrightarrow> snd e' \<le> snd e"
    using e(4) c o' by (cases p) auto
  moreover have "(e, q) \<in> ?E" using e(1) by simp
  moreover from this e(2) have ex: "\<exists>(e, q) \<in> ?E. matches e ip" by blast
  ultimately show ?thesis
    unfolding is_best_def if_P [OF ex] using e(2,3) by blast
next
  case False
  then have "res = found'" using assms(1) by (simp add: is_best_def)
  moreover have "\<forall>(e', q') \<in> E'. \<not> matches e' ip" using other by blast
  ultimately show ?thesis
    using False self by (cases p) (auto simp: is_best_def)
qed

lemma trie_lookup_spec:
  assumes "wf_trie n t" "n = 4 \<or> n = 16" "length ip = n"
  shows "\<exists>res. trie_lookup ip t found = Some res \<and> is_best (entries t) ip found res"
  using assms(1)
proof (induction t arbitrary: found)
  case (Entry p l r c bs)
  have mk: "masked n (bs, c)" using Entry.prems by simp
  obtain m where m: "commonBits bs ip = Some m" "m \<ge> c \<longleftrightarrow> key (bs, c) = take c (bits_of_bytes ip)"
    using common_covers [OF mk assms(2,3)] by metis
  have lk: "length (key (bs, c)) = c" using length_key [OF mk] by simp
  let ?found = "case p of None \<Rightarrow> found | Some q \<Rightarrow> Some q"
  have longer: "c < snd e" if "(e, q) \<in> entries (if b then r else l)" for e q b
    using that Entry.prems under_disjoint(2) [of "key (bs, c)" b "if b then r else l" e] lk
      length_key [OF wf_masked [of n "if b then r else l" e]] entries_nodes [OF that] by (auto split: if_splits)
  show ?case
  proof (cases "m \<ge> c")
    case False
    then have "\<not> matches e ip" if "(e, q) \<in> entries (Entry p l r c bs)" for e q
      using matches_below [OF Entry.prems entries_nodes [OF that]] m(2) by blast
    then have "is_best (entries (Entry p l r c bs)) ip found found" by (rule is_best_none)
    then show ?thesis using False m(1) by simp
  next
    case True
    have self: "matches (bs, c) ip" using True m(2) lk by (simp add: matches_def)
    show ?thesis
    proof (cases "c div 8 = length ip")
      case eq: True
      then have c8: "c = 8 * n" using maskedD(2) [OF mk] assms(3) by presburger
      have "(e, q) \<notin> entries (if b then r else l)" for e q b
      proof
        assume a: "(e, q) \<in> entries (if b then r else l)"
        have "masked n e"
          using wf_masked [of n "if b then r else l" e] entries_nodes [OF a] Entry.prems by (cases b) auto
        then have "snd e \<le> 8 * n" by (simp add: masked_def)
        with longer [OF a] c8 show False by simp
      qed
      note none = this
      have "x \<notin> entries r" "x \<notin> entries l" for x
        using none [of "fst x" "snd x" True] none [of "fst x" "snd x" False] by simp_all
      then have "entries r = {}" "entries l = {}" by blast+
      then have "is_best (entries (Entry p l r c bs)) ip found ?found"
        using self by (cases p) (simp_all add: is_best_def)
      moreover have "trie_lookup ip (Entry p l r c bs) found = Some ?found"
        using True eq m(1) by simp
      ultimately show ?thesis by blast
    next
      case False
      let ?b = "bits_of_bytes ip ! c"
      have "c \<noteq> 8 * n" using False assms(3) by auto
      then have "c < 8 * n" using maskedD(2) [OF mk] by linarith
      then have ch: "choose_bit c ip = Some ?b" using assms(3) by (simp add: choose_bit_nth)
      have other: "\<not> matches e ip" if "(e, q) \<in> entries (if ?b then l else r)" for e q
        using matches_bit [of "key (bs, c)" "\<not> ?b" "if ?b then l else r" e ip] Entry.prems lk entries_nodes [OF that]
        by (cases ?b) auto
      obtain res where res: "trie_lookup ip (if ?b then r else l) ?found = Some res"
        "is_best (entries (if ?b then r else l)) ip ?found res"
        using Entry.IH Entry.prems by (cases ?b) auto
      have "is_best ((case p of None \<Rightarrow> {} | Some q \<Rightarrow> {((bs, c), q)}) \<union> entries (if ?b then r else l) \<union>
          entries (if ?b then l else r)) ip found res"
        by (rule is_best_child [OF res(2) _ _ self refl]) (erule longer, erule other)
      then have "is_best (entries (Entry p l r c bs)) ip found res"
        by (cases ?b) (simp_all add: Un_assoc Un_commute [of "entries r"])
      then show ?thesis using True False m(1) ch res(1) by simp
    qed
  qed
qed (simp add: is_best_def)

end
