(* ===== verification/Allowed_IPs_Table.thy ===== *)
theory Allowed_IPs_Table
  imports Allowed_IPs_Properties
begin

text \<open>
  The table of allowed addresses as a list of rules, each a prefix with its peer: the operations of
  the table refine those of the list, and a lookup finds the rule with the longest prefix.
\<close>

unbundle bit_operations_syntax

subsection \<open>The invariant of the table\<close>

definition allowed :: "AllowedIPs \<Rightarrow> ((bytes \<times> nat) \<times> Peer) set" where
  "allowed t = entries (aip_IPv4 t) \<union> entries (aip_IPv6 t)"

definition wf_table :: "AllowedIPs \<Rightarrow> bool" where
  "wf_table t \<longleftrightarrow> wf_trie 4 (aip_IPv4 t) \<and> wf_trie 16 (aip_IPv6 t) \<and>
     (\<forall>q. distinct (peer_entries t q) \<and> set (peer_entries t q) = {e. (e, q) \<in> allowed t})"

definition empty_table :: AllowedIPs where
  "empty_table = \<lparr>aip_IPv4 = NilEntry, aip_IPv6 = NilEntry, aip_entries = []\<rparr>"

lemma wf_empty_table: "wf_table empty_table" "allowed empty_table = {}"
  by (simp_all add: wf_table_def empty_table_def allowed_def peer_entries_def)

lemma wf_trie_of: "wf_table t \<Longrightarrow> length ip = 4 \<or> length ip = 16 \<Longrightarrow> wf_trie (length ip) (trie_of t ip)"
  by (auto simp: wf_table_def trie_of_def)

lemma entries_length: "wf_trie n t \<Longrightarrow> (e, q) \<in> entries t \<Longrightarrow> length (fst e) = n"
  using wf_masked entries_nodes by (fastforce simp: masked_def)

lemma trie_of_entries:
  assumes "wf_table t" "length ip = 4 \<or> length ip = 16"
  shows "entries (trie_of t ip) = {x \<in> allowed t. length (fst (fst x)) = length ip}"
  using assms entries_length [of 4 "aip_IPv4 t"] entries_length [of 16 "aip_IPv6 t"]
  by (auto simp: trie_of_def allowed_def wf_table_def)

lemma allowed_set_trie:
  assumes "wf_table t" "length ip = 4 \<or> length ip = 16"
  shows "allowed (set_trie_of ip x t) = entries x \<union> {y \<in> allowed t. length (fst (fst y)) \<noteq> length ip}"
  using assms entries_length [of 4 "aip_IPv4 t"] entries_length [of 16 "aip_IPv6 t"]
  by (auto simp: set_trie_of_def allowed_def wf_table_def)

lemma peer_entries_simps [simp]:
  "peer_entries (set_trie_of ip x t) q = peer_entries t q"
  "peer_entries (addToPeerEntries p e t) q = (if q = p then peer_entries t q @ [e] else peer_entries t q)"
  "peer_entries (removeFromPeerEntries (Some p) e t) q = (if q = p then remove1 e (peer_entries t q) else peer_entries t q)"
  "removeFromPeerEntries None e t = t"
  by (auto simp: peer_entries_def set_trie_of_def addToPeerEntries_def removeFromPeerEntries_def split: if_splits)

lemma tries_of_entries_update [simp]:
  "trie_of (addToPeerEntries p e t) ip = trie_of t ip" "trie_of (removeFromPeerEntries o' e t) ip = trie_of t ip"
  "allowed (addToPeerEntries p e t) = allowed t" "allowed (removeFromPeerEntries o' e t) = allowed t"
  "aip_IPv4 (addToPeerEntries p e t) = aip_IPv4 t" "aip_IPv6 (addToPeerEntries p e t) = aip_IPv6 t"
  "aip_IPv4 (removeFromPeerEntries o' e t) = aip_IPv4 t" "aip_IPv6 (removeFromPeerEntries o' e t) = aip_IPv6 t"
  by (simp_all add: trie_of_def allowed_def addToPeerEntries_def removeFromPeerEntries_def split: option.splits)

lemma wf_tableI:
  assumes "wf_table t" "wf_trie (length ip) x" "length ip = 4 \<or> length ip = 16"
    and "aip_IPv4 t' = aip_IPv4 t" "aip_IPv6 t' = aip_IPv6 t"
    and "\<And>q. distinct (peer_entries t' q) \<and> set (peer_entries t' q) = {e. (e, q) \<in> allowed (set_trie_of ip x t')}"
  shows "wf_table (set_trie_of ip x t')"
  using assms by (auto simp: wf_table_def set_trie_of_def peer_entries_def)

subsection \<open>Operations\<close>

text \<open>What a lookup for the exact entry of a prefix says about the table.\<close>

lemma exact_entry:
  assumes t: "wf_table t" and ip: "length ip = 4 \<or> length ip = 16" "cidr \<le> 8 * length ip"
  defines "e \<equiv> (maskSelf cidr ip, cidr)"
  obtains x where "trie_exact ip cidr (trie_of t ip) = Some x" "\<And>q. (e, q) \<in> allowed t \<longleftrightarrow> x = Some (Some q)"
    "x = None \<Longrightarrow> e \<notin> nodes (trie_of t ip)" "x \<noteq> None \<Longrightarrow> e \<in> nodes (trie_of t ip)"
proof -
  have "length (fst e) = length ip" by (simp add: e_def)
  then have "(e, q) \<in> allowed t \<longleftrightarrow> (e, q) \<in> entries (trie_of t ip)" for q
    using trie_of_entries [OF t ip(1)] by auto
  then show thesis
    using that trie_exact_spec [OF wf_trie_of [OF t ip(1)] ip(1) refl ip(2)] by (auto simp: e_def)
qed

lemma insert_entries:
  assumes t: "wf_table t" and ip: "length ip = 4 \<or> length ip = 16"
    and e: "length (fst e) = length ip" and x: "entries x = insert (e, peer) (same_except e (trie_of t ip))"
  shows "allowed (set_trie_of ip x t) = insert (e, peer) {y \<in> allowed t. fst y \<noteq> e}"
  unfolding allowed_set_trie [OF t ip] x same_except_def trie_of_entries [OF t ip] using e by auto

lemma remove_entries:
  assumes t: "wf_table t" and ip: "length ip = 4 \<or> length ip = 16"
    and e: "length (fst e) = length ip" and x: "entries x = same_except e (trie_of t ip)"
  shows "allowed (set_trie_of ip x t) = {y \<in> allowed t. fst y \<noteq> e}"
  unfolding allowed_set_trie [OF t ip] x same_except_def trie_of_entries [OF t ip] using e by auto

lemma allowed_set_trie_entries [simp]:
  "allowed (set_trie_of ip x (removeFromPeerEntries o' e t)) = allowed (set_trie_of ip x t)"
  "allowed (set_trie_of ip x (addToPeerEntries p e t)) = allowed (set_trie_of ip x t)"
  by (simp_all add: allowed_def set_trie_of_def addToPeerEntries_def removeFromPeerEntries_def split: option.splits)

lemma addToPeerEntries_set_trie:
  "addToPeerEntries p e (set_trie_of ip x t) = set_trie_of ip x (addToPeerEntries p e t)"
  by (simp add: addToPeerEntries_def set_trie_of_def peer_entries_def)

lemma insert_at:
  assumes t: "wf_table t" and ip: "length ip = 4 \<or> length ip = 16" "cidr \<le> 8 * length ip"
    and key: "prefix_key pfx = Some (ip, cidr)"
  defines "e \<equiv> (maskSelf cidr ip, cidr)"
  shows "\<exists>t'. AllowedIPs_Insert pfx peer t = Some t' \<and> wf_table t' \<and> allowed t' = insert (e, peer) {y \<in> allowed t. fst y \<noteq> e}"
proof -
  obtain old where old: "trie_exact ip cidr (trie_of t ip) = Some old" "\<And>q. (e, q) \<in> allowed t \<longleftrightarrow> old = Some (Some q)"
    using exact_entry [OF t ip] unfolding e_def by metis
  obtain x where x: "trie_insert ip cidr peer (trie_of t ip) = Some x" "wf_trie (length ip) x"
    "entries x = insert (e, peer) (same_except e (trie_of t ip))"
    using trie_insert_spec [OF wf_trie_of [OF t ip(1)] ip(1) refl ip(2)] unfolding e_def by metis
  have le: "length (fst e) = length ip" by (simp add: e_def)
  let ?t1 = "case old of None \<Rightarrow> t | Some p \<Rightarrow> removeFromPeerEntries p e t"
  let ?t = "addToPeerEntries peer e ?t1"
  have a: "allowed (set_trie_of ip x ?t) = insert (e, peer) {y \<in> allowed t. fst y \<noteq> e}"
    using insert_entries [OF t ip(1) le x(3)] by (simp split: option.splits)
  have pe: "distinct (peer_entries t q) \<and> set (peer_entries t q) = {e. (e, q) \<in> allowed t}" for q
    using t by (simp add: wf_table_def)
  have "distinct (peer_entries ?t q) \<and> set (peer_entries ?t q) = {e. (e, q) \<in> allowed (set_trie_of ip x ?t)}" for q
  proof -
    consider "old = None \<or> old = Some None" | p where "old = Some (Some p)"
      by (metis option.exhaust)
    then show ?thesis
    proof cases
      case 1
      then have "(e, q') \<notin> allowed t" for q' using old(2) by auto
      with 1 pe [of q] show ?thesis unfolding a by auto
    next
      case (2 p)
      then have "(e, q') \<in> allowed t \<longleftrightarrow> q' = p" for q' using old(2) by auto
      with 2 pe [of q] show ?thesis unfolding a by (auto simp: set_remove1_eq)
    qed
  qed
  then have "wf_table (set_trie_of ip x ?t)"
    using t x(2) ip(1) by (intro wf_tableI [OF t x(2) ip(1)]) (auto split: option.splits)
  moreover have "AllowedIPs_Insert pfx peer t = Some (set_trie_of ip x ?t)"
    using old(1) x(1) by (cases old) (simp_all add: AllowedIPs_Insert_def key e_def Let_def addToPeerEntries_set_trie)
  ultimately show ?thesis using a by blast
qed

lemma remove_node_at:
  assumes t: "wf_table t" and ip: "length ip = 4 \<or> length ip = 16" "cidr \<le> 8 * length ip"
  defines "e \<equiv> (maskSelf cidr ip, cidr)"
  assumes q: "(e, peer) \<in> allowed t"
  shows "\<exists>x. trie_remove ip cidr (trie_of t ip) = Some x \<and>
    wf_table (set_trie_of ip x (removeFromPeerEntries (Some peer) e t)) \<and>
    allowed (set_trie_of ip x (removeFromPeerEntries (Some peer) e t)) = allowed t - {(e, peer)}"
proof -
  obtain old where old: "\<And>q. (e, q) \<in> allowed t \<longleftrightarrow> old = Some (Some q)" "old \<noteq> None \<Longrightarrow> e \<in> nodes (trie_of t ip)"
    using exact_entry [OF t ip] unfolding e_def by metis
  then have u: "(e, q') \<in> allowed t \<longleftrightarrow> q' = peer" for q' using q by auto
  have "e \<in> nodes (trie_of t ip)" using old q by auto
  then obtain x where x: "trie_remove ip cidr (trie_of t ip) = Some x" "wf_trie (length ip) x"
    "entries x = same_except e (trie_of t ip)"
    using trie_remove_spec [OF wf_trie_of [OF t ip(1)] ip(1) refl ip(2)] unfolding e_def by metis
  have le: "length (fst e) = length ip" by (simp add: e_def)
  let ?t = "removeFromPeerEntries (Some peer) e t"
  have a: "allowed (set_trie_of ip x ?t) = allowed t - {(e, peer)}"
    using remove_entries [OF t ip(1) le x(3)] u by auto
  have pe: "distinct (peer_entries t q) \<and> set (peer_entries t q) = {e. (e, q) \<in> allowed t}" for q
    using t by (simp add: wf_table_def)
  have "distinct (peer_entries ?t q) \<and> set (peer_entries ?t q) = {e. (e, q) \<in> allowed (set_trie_of ip x ?t)}" for q
    using pe [of q] unfolding a by (auto simp: set_remove1_eq)
  then have "wf_table (set_trie_of ip x ?t)"
    by (intro wf_tableI [OF t x(2) ip(1)]) auto
  with x(1) a show ?thesis by blast
qed

lemma remove_at:
  assumes t: "wf_table t" and ip: "length ip = 4 \<or> length ip = 16" "cidr \<le> 8 * length ip"
    and key: "prefix_key pfx = Some (ip, cidr)"
  defines "e \<equiv> (maskSelf cidr ip, cidr)"
  shows "\<exists>t'. AllowedIPs_Remove pfx peer t = Some t' \<and> wf_table t' \<and> allowed t' = allowed t - {(e, peer)}"
proof -
  obtain old where old: "trie_exact ip cidr (trie_of t ip) = Some old" "\<And>q. (e, q) \<in> allowed t \<longleftrightarrow> old = Some (Some q)"
    using exact_entry [OF t ip] unfolding e_def by metis
  show ?thesis
  proof (cases "old = Some (Some peer)")
    case True
    then have "(e, peer) \<in> allowed t" using old(2) by simp
    from remove_node_at [OF t ip this [unfolded e_def]] show ?thesis
      using old(1) True by (auto simp: AllowedIPs_Remove_def key e_def)
  next
    case False
    then have "(e, peer) \<notin> allowed t" using old(2) by simp
    then show ?thesis
      using old(1) False t by (simp add: AllowedIPs_Remove_def key)
  qed
qed

lemma maskSelf_masked:
  assumes "masked n (bs, c)"
  shows "maskSelf c bs = bs"
proof -
  have "masked n (maskSelf c bs, c)" "key (maskSelf c bs, c) = key (bs, c)"
    using assms masked_maskSelf [of c bs] key_of_masked_ip [of c bs] maskedD [OF assms] by (simp_all add: key_def)
  then show ?thesis using masked_inj [OF _ assms, of "(maskSelf c bs, c)"] by simp
qed

lemma remove_by_peer_loop:
  assumes "wf_table t" "distinct es" "\<forall>e \<in> set es. (e, peer) \<in> allowed t"
  shows "\<exists>t'. fold_opt (\<lambda>(bits, cidr) t. do {
         x \<leftarrow> trie_remove bits cidr (trie_of t bits);
         Some (set_trie_of bits x (removeFromPeerEntries (Some peer) (bits, cidr) t))
       }) es t = Some t' \<and> wf_table t' \<and> allowed t' = allowed t - (\<lambda>e. (e, peer)) ` set es"
  using assms
proof (induction es arbitrary: t)
  case (Cons e es)
  obtain bs c where e: "e = (bs, c)" by fastforce
  have q: "((bs, c), peer) \<in> allowed t" using Cons.prems(3) e by simp
  then obtain n where n: "masked n (bs, c)" "n = 4 \<or> n = 16"
    using Cons.prems(1) wf_masked entries_nodes unfolding allowed_def wf_table_def by (metis UnE)
  note ms = maskSelf_masked [OF n(1)] and l = maskedD [OF n(1)]
  obtain x where x: "trie_remove bs c (trie_of t bs) = Some x"
    "wf_table (set_trie_of bs x (removeFromPeerEntries (Some peer) (bs, c) t))"
    "allowed (set_trie_of bs x (removeFromPeerEntries (Some peer) (bs, c) t)) = allowed t - {((bs, c), peer)}"
    using remove_node_at [OF Cons.prems(1), of bs c peer] n(2) l q by (auto simp: ms)
  let ?t = "set_trie_of bs x (removeFromPeerEntries (Some peer) (bs, c) t)"
  have "\<forall>e' \<in> set es. (e', peer) \<in> allowed ?t"
    using Cons.prems(2,3) x(3) e by auto
  from Cons.IH [OF x(2) _ this] Cons.prems(2) show ?case
    using x e by auto
qed auto

lemma remove_by_peer:
  assumes t: "wf_table t"
  shows "\<exists>t'. AllowedIPs_RemoveByPeer peer t = Some t' \<and> wf_table t' \<and> allowed t' = {y \<in> allowed t. snd y \<noteq> peer}"
proof -
  have pe: "distinct (peer_entries t peer)" "set (peer_entries t peer) = {e. (e, peer) \<in> allowed t}"
    using t by (simp_all add: wf_table_def)
  then have "\<forall>e \<in> set (peer_entries t peer). (e, peer) \<in> allowed t" by simp
  from remove_by_peer_loop [OF t pe(1) this] show ?thesis
    unfolding AllowedIPs_RemoveByPeer_def pe(2) by fastforce
qed

end
