(* ===== verification/Allowed_IPs_Rules.thy ===== *)
theory Allowed_IPs_Rules
  imports Allowed_IPs_Table
begin

text \<open>
  The contract of the table of allowed addresses, over prefixes and addresses: a list of rules. A run
  of operations on the trie refines the run on the list, and a lookup is longest-prefix match.
\<close>

unbundle bit_operations_syntax

subsection \<open>The rules\<close>

datatype rule_op = InsertOp Prefix Peer | RemoveOp Prefix Peer | RemoveByPeerOp Peer

type_synonym rules = "(Prefix \<times> Peer) list"

definition same_prefix :: "Prefix \<Rightarrow> Prefix \<Rightarrow> bool" where
  "same_prefix p q \<longleftrightarrow> Prefix_Bits p = Prefix_Bits q \<and> Prefix_Contains p (Prefix_Addr q)"

fun rules_op :: "rule_op \<Rightarrow> rules \<Rightarrow> rules" where
  "rules_op (InsertOp p w) rs = (p, w) # filter (\<lambda>(q, _). \<not> same_prefix q p) rs"
| "rules_op (RemoveOp p w) rs = filter (\<lambda>(q, v). \<not> (same_prefix q p \<and> v = w)) rs"
| "rules_op (RemoveByPeerOp w) rs = filter (\<lambda>(_, v). v \<noteq> w) rs"

fun best_rule :: "rules \<Rightarrow> Addr \<Rightarrow> (Prefix \<times> Peer) option" where
  "best_rule [] a = None"
| "best_rule ((p, w) # rs) a =
     (case best_rule rs a of
        None \<Rightarrow> if Prefix_Contains p a then Some (p, w) else None
      | Some (q, v) \<Rightarrow> if Prefix_Contains p a \<and> Prefix_Bits q < Prefix_Bits p then Some (p, w) else Some (q, v))"

fun table_op :: "rule_op \<Rightarrow> AllowedIPs \<Rightarrow> AllowedIPs option" where
  "table_op (InsertOp p w) t = AllowedIPs_Insert p w t"
| "table_op (RemoveOp p w) t = AllowedIPs_Remove p w t"
| "table_op (RemoveByPeerOp w) t = AllowedIPs_RemoveByPeer w t"

definition plain_addr :: "Addr \<Rightarrow> bool" where
  "plain_addr a \<longleftrightarrow> a \<noteq> AddrInvalid \<and> Addr_WithoutZone a = a"

definition plain_prefix :: "Prefix \<Rightarrow> bool" where
  "plain_prefix p \<longleftrightarrow> plain_addr (Prefix_Addr p) \<and> 0 \<le> Prefix_Bits p \<and> Prefix_Bits p \<le> int (Addr_BitLen (Prefix_Addr p))"

fun plain_op :: "rule_op \<Rightarrow> bool" where
  "plain_op (InsertOp p w) = plain_prefix p"
| "plain_op (RemoveOp p w) = plain_prefix p"
| "plain_op (RemoveByPeerOp w) = True"

subsection \<open>Addresses and their bits\<close>

definition addr_bits :: "Addr \<Rightarrow> bool list" where
  "addr_bits a = bits_of_bytes (Addr_MarshalBinary a)"

lemma bits_of_be_enc:
  assumes "8 * n = LENGTH('a :: len)"
  shows "bits_of_bytes (be_enc n (unat (a :: 'a word))) = bits_of a"
proof -
  have n: "LENGTH('a) div 8 = n" "8 dvd LENGTH('a)" using assms by (simp_all flip: assms)
  have "unat a < 256 ^ n"
    using unsigned_less [of a, where ?'a = nat] by (simp flip: assms add: power_mult)
  then have "(be_uint (be_enc n (unat a)) :: 'a word) = a"
    by (simp add: be_uint_def n(1))
  then show ?thesis
    using bits_of_be_uint [where ?'a = 'a, of "be_enc n (unat a)"] n by simp
qed

lemma addr_bits_simps [simp]:
  "addr_bits (Addr4 a) = bits_of a" "addr_bits (Addr6 b []) = bits_of b"
  by (simp_all add: addr_bits_def bits_of_be_enc)

lemma drop_bit_take_bits:
  assumes "k \<le> LENGTH('a)"
  shows "drop_bit (LENGTH('a :: len) - k) (a XOR b) = 0 \<longleftrightarrow> take k (bits_of (a :: 'a word)) = take k (bits_of b)"
proof -
  let ?n = "LENGTH('a)"
  have "drop_bit (?n - k) (a XOR b) = 0 \<longleftrightarrow> (\<forall>j. \<not> bit (drop_bit (?n - k) (a XOR b)) j)"
    using bit_eqI [of "drop_bit (?n - k) (a XOR b)" 0] bit_0_eq by (metis bot_apply bot_bool_def)
  also have "\<dots> \<longleftrightarrow> (\<forall>i. ?n - k \<le> i \<longrightarrow> \<not> bit (a XOR b) i)"
    unfolding bit_drop_bit_eq comp_def by (metis le_add1 le_Suc_ex)
  also have "\<dots> \<longleftrightarrow> (\<forall>i. ?n - k \<le> i \<longrightarrow> i < ?n \<longrightarrow> bit a i = bit b i)"
    unfolding bit_xor_iff by (metis bit_imp_le_length)
  also have "\<dots> \<longleftrightarrow> (\<forall>i < k. bit a (?n - Suc i) = bit b (?n - Suc i))" (is "?P \<longleftrightarrow> ?Q")
  proof
    show ?Q if ?P using that assms by auto
    show ?P if ?Q
    proof (rule allI, rule impI, rule impI)
      fix i assume i: "?n - k \<le> i" "i < ?n"
      have "?n - Suc i < k" "?n - Suc (?n - Suc i) = i" using i assms by linarith+
      with that show "bit a i = bit b i" by metis
    qed
  qed
  also have "\<dots> \<longleftrightarrow> take k (bits_of a) = take k (bits_of b)"
    using assms by (simp add: list_eq_iff_nth_eq nth_bits_of)
  finally show ?thesis .
qed

lemma length_addr_bits: "plain_addr a \<Longrightarrow> length (addr_bits a) = Addr_BitLen a"
  by (cases a) (auto simp: plain_addr_def)

lemma contains_bits:
  assumes "plain_prefix p" "plain_addr a"
  shows "Prefix_Contains p a \<longleftrightarrow> Addr_BitLen (Prefix_Addr p) = Addr_BitLen a \<and>
    take (nat (Prefix_Bits p)) (addr_bits a) = take (nat (Prefix_Bits p)) (addr_bits (Prefix_Addr p))"
proof -
  let ?k = "nat (Prefix_Bits p)"
  have k: "nat (int n - Prefix_Bits p) = n - ?k" "0 \<le> Prefix_Bits p" for n
    using assms by (auto simp: plain_prefix_def)
  consider x y where "Prefix_Addr p = Addr4 x" "a = Addr4 y" | x y where "Prefix_Addr p = Addr6 x []" "a = Addr6 y []"
    | "Addr_BitLen (Prefix_Addr p) \<noteq> Addr_BitLen a"
    using assms by (cases "Prefix_Addr p"; cases a) (auto simp: plain_prefix_def plain_addr_def)
  then show ?thesis
  proof cases
    case (1 x y)
    then have "?k \<le> LENGTH(32)" using assms by (auto simp: plain_prefix_def)
    from drop_bit_take_bits [OF this, of x y] 1 k(1) [of 32] k(2) show ?thesis
      by (auto simp: Prefix_Contains_def Prefix_IsValid_def)
  next
    case (2 x y)
    then have "?k \<le> LENGTH(128)" using assms by (auto simp: plain_prefix_def)
    from drop_bit_take_bits [OF this, of x y] 2 k(1) [of 128] k(2) show ?thesis
      by (auto simp: Prefix_Contains_def Prefix_IsValid_def)
  next
    case 3
    then show ?thesis
      by (cases "Prefix_Addr p"; cases a) (simp_all add: Prefix_Contains_def)
  qed
qed

subsection \<open>Rules and entries\<close>

definition entry_of :: "Prefix \<Rightarrow> bytes \<times> nat" where
  "entry_of p = (maskSelf (nat (Prefix_Bits p)) (Addr_MarshalBinary (Prefix_Addr p)), nat (Prefix_Bits p))"

lemma plain_prefixD:
  assumes "plain_prefix p"
  defines "ip \<equiv> Addr_MarshalBinary (Prefix_Addr p)" and "c \<equiv> nat (Prefix_Bits p)"
  shows "length ip = 4 \<or> length ip = 16" "c \<le> 8 * length ip" "prefix_key p = Some (ip, c)"
    "8 * length ip = Addr_BitLen (Prefix_Addr p)" "masked (length ip) (entry_of p)"
proof -
  have b: "0 \<le> Prefix_Bits p" "Prefix_Bits p \<le> int (Addr_BitLen (Prefix_Addr p))"
    using assms(1) by (simp_all add: plain_prefix_def)
  show l: "length ip = 4 \<or> length ip = 16" "8 * length ip = Addr_BitLen (Prefix_Addr p)"
    using assms(1) unfolding ip_def by (cases "Prefix_Addr p"; simp add: plain_prefix_def plain_addr_def)+
  then show c: "c \<le> 8 * length ip" using b(2) by (simp add: c_def)
  have "Prefix_Bits p mod 256 = Prefix_Bits p" using b BitLen_le [of "Prefix_Addr p"] by simp
  then show "prefix_key p = Some (ip, c)"
    using assms(1) by (simp add: prefix_key_def ip_def c_def plain_prefix_def plain_addr_def)
  show "masked (length ip) (entry_of p)"
    using masked_maskSelf [OF c] by (simp add: entry_of_def ip_def c_def)
qed

lemma key_entry_of:
  "plain_prefix p \<Longrightarrow> key (entry_of p) = take (nat (Prefix_Bits p)) (addr_bits (Prefix_Addr p))"
  using plain_prefixD(2) [of p] by (simp add: entry_of_def key_of_masked_ip addr_bits_def)

lemma length_key_entry_of: "plain_prefix p \<Longrightarrow> length (key (entry_of p)) = nat (Prefix_Bits p)"
  using length_key [OF plain_prefixD(5)] by (simp add: entry_of_def)

lemma matches_entry_of:
  assumes "plain_prefix p" "plain_addr a"
  shows "Prefix_Contains p a \<longleftrightarrow>
    length (fst (entry_of p)) = length (Addr_MarshalBinary a) \<and> matches (entry_of p) (Addr_MarshalBinary a)"
proof -
  have "length (fst (entry_of p)) = Addr_BitLen (Prefix_Addr p) div 8"
    using plain_prefixD(4) [OF assms(1)] by (simp add: entry_of_def)
  moreover have "length (Addr_MarshalBinary a) = Addr_BitLen a div 8"
    using assms(2) length_Addr_MarshalBinary [of a] by (simp add: plain_addr_def)
  moreover have "Addr_BitLen b div 8 = Addr_BitLen c div 8 \<longleftrightarrow> Addr_BitLen b = Addr_BitLen c" for b c
    by (cases b; cases c) simp_all
  ultimately show ?thesis
    using contains_bits [OF assms] length_key_entry_of [OF assms(1)] key_entry_of [OF assms(1)]
    by (simp add: matches_def flip: addr_bits_def)
qed

lemma same_prefix_entry:
  assumes "plain_prefix p" "plain_prefix q"
  shows "same_prefix p q \<longleftrightarrow> entry_of p = entry_of q"
proof -
  have pa: "plain_addr (Prefix_Addr q)" using assms(2) by (simp add: plain_prefix_def)
  note c = contains_bits [OF assms(1) pa] and k = key_entry_of [OF assms(1)] key_entry_of [OF assms(2)]
  have bits: "Prefix_Bits p = Prefix_Bits q \<longleftrightarrow> snd (entry_of p) = snd (entry_of q)"
    using assms by (auto simp: entry_of_def plain_prefix_def)
  have len: "Addr_BitLen (Prefix_Addr x) = 8 * length (fst (entry_of x))" if "plain_prefix x" for x
    using plain_prefixD(4) [OF that] by (simp add: entry_of_def)
  show ?thesis
  proof
    assume s: "same_prefix p q"
    then have "key (entry_of p) = key (entry_of q)" "Addr_BitLen (Prefix_Addr p) = Addr_BitLen (Prefix_Addr q)"
      using c k by (auto simp: same_prefix_def)
    then show "entry_of p = entry_of q"
      using masked_inj plain_prefixD(4,5) [OF assms(1)] plain_prefixD(4,5) [OF assms(2)] by (metis nat_mult_eq_cancel1 zero_less_numeral)
  next
    assume e: "entry_of p = entry_of q"
    then have "Prefix_Bits p = Prefix_Bits q" using bits by simp
    then show "same_prefix p q"
      using e c k len [OF assms(1)] len [OF assms(2)] by (simp add: same_prefix_def)
  qed
qed

subsection \<open>The simulation\<close>

definition represents :: "AllowedIPs \<Rightarrow> rules \<Rightarrow> bool" where
  "represents t rs \<longleftrightarrow> wf_table t \<and> (\<forall>(p, w) \<in> set rs. plain_prefix p) \<and>
     allowed t = (\<lambda>(p, w). (entry_of p, w)) ` set rs"

lemma step_refines:
  assumes "represents t rs" "plain_op op"
  shows "\<exists>t'. table_op op t = Some t' \<and> represents t' (rules_op op rs)"
proof -
  have t: "wf_table t" and pl: "\<forall>(p, w) \<in> set rs. plain_prefix p"
    and al: "allowed t = (\<lambda>(p, w). (entry_of p, w)) ` set rs"
    using assms(1) by (auto simp: represents_def)
  have same: "same_prefix q p \<longleftrightarrow> entry_of q = entry_of p" if "(q, v) \<in> set rs" "plain_prefix p" for q v p
    using pl that same_prefix_entry by fastforce
  show ?thesis
  proof (cases op)
    case (InsertOp p w)
    then have p: "plain_prefix p" using assms(2) by simp
    note d = plain_prefixD [OF p]
    obtain t' where t': "AllowedIPs_Insert p w t = Some t'" "wf_table t'"
      "allowed t' = insert (entry_of p, w) {y \<in> allowed t. fst y \<noteq> entry_of p}"
      using insert_at [OF t d(1,2,3)] unfolding entry_of_def by blast
    have "allowed t' = (\<lambda>(p, w). (entry_of p, w)) ` set (rules_op op rs)"
      unfolding t'(3) al using same p InsertOp by force
    then show ?thesis using t' p pl InsertOp by (auto simp: represents_def)
  next
    case (RemoveOp p w)
    then have p: "plain_prefix p" using assms(2) by simp
    note d = plain_prefixD [OF p]
    obtain t' where t': "AllowedIPs_Remove p w t = Some t'" "wf_table t'"
      "allowed t' = allowed t - {(entry_of p, w)}"
      using remove_at [OF t d(1,2,3)] unfolding entry_of_def by blast
    have "allowed t' = (\<lambda>(p, w). (entry_of p, w)) ` set (rules_op op rs)"
      unfolding t'(3) al using same p RemoveOp by force
    then show ?thesis using t' pl RemoveOp by (auto simp: represents_def)
  next
    case (RemoveByPeerOp w)
    obtain t' where t': "AllowedIPs_RemoveByPeer w t = Some t'" "wf_table t'" "allowed t' = {y \<in> allowed t. snd y \<noteq> w}"
      using remove_by_peer [OF t] by blast
    have "allowed t' = (\<lambda>(p, w). (entry_of p, w)) ` set (rules_op op rs)"
      unfolding t'(3) al using RemoveByPeerOp by force
    then show ?thesis using t' pl RemoveByPeerOp by (auto simp: represents_def)
  qed
qed

lemma run_refines:
  "represents t rs \<Longrightarrow> \<forall>op \<in> set ops. plain_op op \<Longrightarrow>
     \<exists>t'. fold_opt table_op ops t = Some t' \<and> represents t' (fold rules_op ops rs)"
proof (induction ops arbitrary: t rs)
  case (Cons op ops)
  obtain t1 where t1: "table_op op t = Some t1" "represents t1 (rules_op op rs)"
    using step_refines [OF Cons.prems(1)] Cons.prems(2) by auto
  from Cons.IH [OF t1(2)] Cons.prems(2) show ?case by (simp add: t1(1))
qed simp

lemma best_rule_None: "best_rule rs a = None \<longleftrightarrow> (\<forall>(p, w) \<in> set rs. \<not> Prefix_Contains p a)"
  by (induction rs) (auto split: option.splits if_splits)

lemma best_rule_Some:
  "best_rule rs a = Some (p, w) \<Longrightarrow> (p, w) \<in> set rs \<and> Prefix_Contains p a \<and>
     (\<forall>(q, v) \<in> set rs. Prefix_Contains q a \<longrightarrow> Prefix_Bits q \<le> Prefix_Bits p)"
proof (induction rs arbitrary: p w)
  case (Cons r rs)
  obtain q v where r: "r = (q, v)" by fastforce
  show ?case
  proof (cases "best_rule rs a")
    case None
    then have "\<forall>(p, w) \<in> set rs. \<not> Prefix_Contains p a" by (simp add: best_rule_None)
    with None Cons.prems r show ?thesis by (auto split: if_splits)
  next
    case (Some x)
    then obtain p' w' where x: "best_rule rs a = Some (p', w')" by (cases x) simp
    note IH = Cons.IH [OF x]
    show ?thesis using Cons.prems r x IH by (auto split: if_splits)
  qed
qed simp

lemma is_bestD:
  "is_best E ip d res \<Longrightarrow> (e, w) \<in> E \<Longrightarrow> matches e ip \<Longrightarrow>
     \<exists>e' v. (e', v) \<in> E \<and> matches e' ip \<and> res = Some v \<and> snd e \<le> snd e'"
  unfolding is_best_def by (auto split: if_splits) (metis (mono_tags, lifting) case_prod_conv snd_conv)

lemma same_entry:
  assumes "plain_prefix q" "plain_prefix p" "plain_addr a" "Prefix_Contains q a" "Prefix_Contains p a"
    and "Prefix_Bits q \<le> Prefix_Bits p" "snd (entry_of p) \<le> snd (entry_of q)"
  shows "entry_of q = entry_of p"
proof -
  have "Prefix_Bits q = Prefix_Bits p" using assms(1,2,6,7) by (auto simp: entry_of_def plain_prefix_def)
  then have "key (entry_of q) = key (entry_of p)" "Addr_BitLen (Prefix_Addr q) = Addr_BitLen (Prefix_Addr p)"
    using assms(1-5) by (simp_all add: key_entry_of contains_bits)
  then show ?thesis
    using masked_inj plain_prefixD(4,5) [OF assms(1)] plain_prefixD(4,5) [OF assms(2)]
    by (metis nat_mult_eq_cancel1 zero_less_numeral)
qed

lemma peer_unique:
  assumes "wf_table t" "plain_prefix p" "(entry_of p, v) \<in> allowed t" "(entry_of p, w) \<in> allowed t"
  shows "v = w"
proof -
  obtain x where "\<And>q. (entry_of p, q) \<in> allowed t \<longleftrightarrow> x = Some (Some q)"
    using exact_entry [OF assms(1) plain_prefixD(1,2) [OF assms(2)]] unfolding entry_of_def by metis
  with assms(3,4) show ?thesis by simp
qed

lemma lookup_refines:
  assumes r: "represents t rs" and a: "plain_addr a"
  shows "AllowedIPs_Lookup (Addr_MarshalBinary a) t = Some (map_option snd (best_rule rs a))"
proof -
  let ?ip = "Addr_MarshalBinary a"
  have t: "wf_table t" and pl: "\<And>p w. (p, w) \<in> set rs \<Longrightarrow> plain_prefix p"
    and al: "allowed t = (\<lambda>(p, w). (entry_of p, w)) ` set rs"
    using r by (auto simp: represents_def)
  have ip: "length ?ip = 4 \<or> length ?ip = 16" using a by (cases a) (auto simp: plain_addr_def)
  let ?E = "{x \<in> allowed t. length (fst (fst x)) = length ?ip}"
  obtain res where res: "trie_lookup ?ip (trie_of t ?ip) None = Some res" "is_best ?E ?ip None res"
    using trie_lookup_spec [OF wf_trie_of [OF t ip] ip refl] trie_of_entries [OF t ip] by metis
  have hit: "(e, w) \<in> ?E \<and> matches e ?ip \<longleftrightarrow> (\<exists>p. (p, w) \<in> set rs \<and> e = entry_of p \<and> Prefix_Contains p a)" for e w
    using matches_entry_of [OF pl a] al by auto
  have "res = map_option snd (best_rule rs a)"
  proof (cases "best_rule rs a")
    case None
    then have "\<not> (\<exists>(e, w) \<in> ?E. matches e ?ip)"
      using hit by (fastforce simp: best_rule_None)
    with None res(2) show ?thesis unfolding is_best_def by simp
  next
    case (Some x)
    then obtain p w where b: "best_rule rs a = Some (p, w)" by (cases x) simp
    note bs = best_rule_Some [OF b]
    have "(entry_of p, w) \<in> ?E \<and> matches (entry_of p) ?ip" using bs hit by blast
    then obtain e v where e: "(e, v) \<in> ?E" "matches e ?ip" "res = Some v" "snd (entry_of p) \<le> snd e"
      using is_bestD [OF res(2)] by blast
    then obtain q where q: "(q, v) \<in> set rs" "e = entry_of q" "Prefix_Contains q a" using hit by blast
    have "entry_of q = entry_of p"
      using same_entry [OF pl [OF q(1)] pl [of p w] a q(3)] bs e(4) q by auto
    then have "(entry_of p, v) \<in> allowed t" "(entry_of p, w) \<in> allowed t" using e(1) q(2) bs al by force+
    then have "v = w" using peer_unique [OF t pl [of p w]] bs by blast
    then show ?thesis using b e(3) by simp
  qed
  then show ?thesis using res(1) ip by (auto simp: AllowedIPs_Lookup_def trie_of_def)
qed

text \<open>C5: The table of allowed addresses refines the list of its rules: on the empty table, any sequence of
  insertions, removals and removals of a peer's entries with valid prefixes ends without a panic, and
  a lookup of any address then gives the peer of the longest prefix that contains the address among
  the rules, where an insertion replaces the rule for the same network and a removal only drops the
  rule if it belongs to the given peer. The entries listed for a peer are exactly its rules, each once.
\<close>

theorem allowed_ips_refine:
  assumes "\<forall>op \<in> set ops. plain_op op"
  defines "rs \<equiv> fold rules_op ops []"
  shows "\<exists>t. fold_opt table_op ops empty_table = Some t \<and>
    (\<forall>a. plain_addr a \<longrightarrow> AllowedIPs_Lookup (Addr_MarshalBinary a) t = Some (map_option snd (best_rule rs a))) \<and>
    (\<forall>w. distinct (peer_entries t w) \<and> set (peer_entries t w) = entry_of ` {p. (p, w) \<in> set rs})"
proof -
  have "represents empty_table []" by (simp add: represents_def wf_empty_table)
  from run_refines [OF this assms(1)] obtain t where
    t: "fold_opt table_op ops empty_table = Some t" "represents t rs" by (auto simp: rs_def)
  have "distinct (peer_entries t w) \<and> set (peer_entries t w) = entry_of ` {p. (p, w) \<in> set rs}" for w
    using t(2) by (auto simp: represents_def wf_table_def)
  with t lookup_refines [OF t(2)] show ?thesis by blast
qed

theorem allowed_ips_refine_witness:
  "\<exists>t. fold_opt table_op
      [InsertOp (PrefixFrom (Addr4 0x0A000000) 8) [1], InsertOp (PrefixFrom (Addr4 0x0A010000) 16) [2],
       InsertOp (PrefixFrom (Addr4 0x0A010203) 24) [3], RemoveOp (PrefixFrom (Addr4 0x0A010200) 24) [2],
       InsertOp (PrefixFrom (Addr4 0x0A0102FF) 24) [4], RemoveByPeerOp [2]] empty_table = Some t \<and>
    AllowedIPs_Lookup (Addr_MarshalBinary (Addr4 0x0A010204)) t = Some (Some [4]) \<and>
    AllowedIPs_Lookup (Addr_MarshalBinary (Addr4 0x0A010304)) t = Some (Some [1])"
proof -
  let ?ops = "[InsertOp (PrefixFrom (Addr4 0x0A000000) 8) [1], InsertOp (PrefixFrom (Addr4 0x0A010000) 16) [2],
       InsertOp (PrefixFrom (Addr4 0x0A010203) 24) [3], RemoveOp (PrefixFrom (Addr4 0x0A010200) 24) [2],
       InsertOp (PrefixFrom (Addr4 0x0A0102FF) 24) [4], RemoveByPeerOp [2]]"
  have ok: "\<forall>op \<in> set ?ops. plain_op op" by (simp add: plain_prefix_def plain_addr_def PrefixFrom_def)
  have "map_option snd (best_rule (fold rules_op ?ops []) (Addr4 0x0A010204)) = Some [4]"
    "map_option snd (best_rule (fold rules_op ?ops []) (Addr4 0x0A010304)) = Some [1]" by code_simp+
  with allowed_ips_refine [OF ok] show ?thesis by (metis Addr.distinct(1) Addr_WithoutZone.simps(3) plain_addr_def)
qed

end
