(* ===== verification/Traffic_Control.thy ===== *)
theory Traffic_Control
  imports Router_IO Allowed_IPs
begin

text \<open>
  Traffic control: the filters of the device (\<^verbatim>\<open>polyamide/device/traffic_control.go\<close>) and those the node
  installs (\<^verbatim>\<open>core/nylon_tc.go\<close>), the batches that run them, and the elements that the TUN reader, the
  receiver of a peer and \<^verbatim>\<open>SendNylonBundle\<close> put into a batch. A filter gives its action, its error, the
  changed element and the control packets it hands to \<^verbatim>\<open>handleNylonPacket\<close>; a panic is \<open>None\<close>. The
  filter that only traces, installed for debugging, always passes and is left out.
\<close>

subsection \<open>Excluded addresses\<close>

definition DefaultLocalIPv4Excludes :: "Prefix list" where
  "DefaultLocalIPv4Excludes =
     [PrefixFrom (Addr4 0x7F000000) 8, PrefixFrom (Addr4 0xA9FE0000) 16, PrefixFrom (Addr4 0xE0000000) 4,
      PrefixFrom (Addr4 0xFFFFFFFF) 32]"

definition DefaultLocalExcludes :: "Prefix list" where
  "DefaultLocalExcludes =
     DefaultLocalIPv4Excludes @
     [PrefixFrom (Addr6 1 []) 128, PrefixFrom (Addr6 0xFE800000000000000000000000000000 []) 10,
      PrefixFrom (Addr6 0xFF000000000000000000000000000000 []) 8]"

definition IsDefaultLocalExcludedAddr :: "Addr \<Rightarrow> bool" where
  "IsDefaultLocalExcludedAddr addr \<longleftrightarrow> list_ex (\<lambda>p. Prefix_Contains p addr) DefaultLocalExcludes"

subsection \<open>Filters\<close>

text \<open>The payload, endpoint and peer of a control packet.\<close>

type_synonym NylonPacket = "bytes \<times> AddrPort option \<times> Peer option"

type_synonym TCResult = "(TCAction \<times> string option \<times> TCElement \<times> NylonPacket list) option"

type_synonym TCFilter = "TCElement \<Rightarrow> TCResult"

definition tc_return :: "TCAction \<Rightarrow> TCElement \<Rightarrow> TCResult" where
  "tc_return act e = Some (act, None, e, [])"

definition TCFAllowedip :: "AllowedIPs \<Rightarrow> TCFilter" where
  "TCFAllowedip aip packet =
     (if tc_ToPeer packet \<noteq> None then tc_return TcForward packet
      else do {
        dst \<leftarrow> GetDstBytes packet;
        peer \<leftarrow> AllowedIPs_Lookup (case dst of None \<Rightarrow> [] | Some b \<Rightarrow> b) aip;
        (if peer \<noteq> None then tc_return TcForward (packet\<lparr>tc_ToPeer := peer\<rparr>) else tc_return TcPass packet)
      })"

definition TCFDrop :: TCFilter where
  "TCFDrop packet = tc_return TcDrop packet"

definition TCFBounce :: TCFilter where
  "TCFBounce packet = tc_return (if Incoming packet then TcBounce else TcPass) packet"

definition NewDevice_filters :: "AllowedIPs \<Rightarrow> TCFilter list" where
  "NewDevice_filters aip = [TCFDrop, TCFBounce, TCFAllowedip aip]"

definition InstallFilter :: "TCFilter \<Rightarrow> TCFilter list \<Rightarrow> TCFilter list" where
  "InstallFilter f filters = filters @ [f]"

definition NyProtoId :: nat where "NyProtoId = 8"

definition forward_lookup :: "('t, 'c) Packages \<Rightarrow> ('t, 'c) Nylon \<Rightarrow> Addr \<Rightarrow> RouteTableEntry option" where
  "forward_lookup pk n = tbl_Lookup (tables pk) (ny_ForwardTable n)"

definition exit_lookup :: "('t, 'c) Packages \<Rightarrow> ('t, 'c) Nylon \<Rightarrow> Addr \<Rightarrow> RouteTableEntry option" where
  "exit_lookup pk n = tbl_Lookup (tables pk) (ny_ExitTable n)"

text \<open>Wrapping a packet for the configured exit node once it has a route to it.\<close>

definition exit_encap :: "ExitFilterSnapshot \<Rightarrow> TCFilter" where
  "exit_encap snap packet =
     (case mget (snap_NodeForward snap) (snap_ExitNodeNumeric snap) of
        None \<Rightarrow> tc_return TcDrop packet
      | Some entry \<Rightarrow>
          if rte_Peer entry = None then tc_return TcDrop packet
          else do {
            src \<leftarrow> GetSrc packet;
            res \<leftarrow> wrapExitPacket packet (snap_ExitNodeNumeric snap);
            (case res of
               Inl err \<Rightarrow> tc_return TcDrop packet
             | Inr packet \<Rightarrow>
                 tc_return TcForward (packet\<lparr>tc_ToPeer := rte_Peer entry, tc_Priority := TcMediumPriority\<rparr>))
          })"

definition exit_encap_filter :: "('t, 'c) Packages \<Rightarrow> ('t, 'c) Nylon \<Rightarrow> TCFilter" where
  "exit_encap_filter pk n packet =
     (case ny_ExitFilter n of
        None \<Rightarrow> tc_return TcPass packet
      | Some snap \<Rightarrow>
          if snap_ExitNodeNumeric snap = InvalidNodeIdNumeric \<or> Incoming packet then tc_return TcPass packet
          else do {
            valid \<leftarrow> Validate packet;
            (if \<not> valid then tc_return TcPass packet
             else do {
               ver \<leftarrow> GetIPVersion packet;
               (if ver \<noteq> 4 \<and> ver \<noteq> 6 then tc_return TcPass packet
                else do {
                  dst \<leftarrow> GetDst packet;
                  (if forward_lookup pk n dst \<noteq> None then tc_return TcPass packet
                   else if IsDefaultLocalExcludedAddr dst then tc_return TcDrop packet
                   else exit_encap snap packet)
                })
             })
          })"

text \<open>What the two forwarding filters do with an entry.\<close>

definition forward_entry :: "RouteTableEntry \<Rightarrow> TCFilter" where
  "forward_entry entry packet =
     (if rte_Blackhole entry then tc_return TcDrop packet
      else tc_return TcForward (packet\<lparr>tc_ToPeer := rte_Peer entry\<rparr>))"

definition bounce_incoming_filter :: TCFilter where
  "bounce_incoming_filter packet = tc_return (if Incoming packet then TcBounce else TcPass) packet"

definition forward_outgoing_filter :: "('t, 'c) Packages \<Rightarrow> ('t, 'c) Nylon \<Rightarrow> TCFilter" where
  "forward_outgoing_filter pk n packet = do {
     dst \<leftarrow> GetDst packet;
     (case forward_lookup pk n dst of
        None \<Rightarrow> tc_return TcPass packet
      | Some entry \<Rightarrow> if Incoming packet then tc_return TcPass packet else forward_entry entry packet)
   }"

definition forward_filter :: "('t, 'c) Packages \<Rightarrow> ('t, 'c) Nylon \<Rightarrow> TCFilter" where
  "forward_filter pk n packet = do {
     dst \<leftarrow> GetDst packet;
     (case forward_lookup pk n dst of None \<Rightarrow> tc_return TcPass packet | Some entry \<Rightarrow> forward_entry entry packet)
   }"

definition ttl_filter :: TCFilter where
  "ttl_filter packet = do {
     ver \<leftarrow> GetIPVersion packet;
     (if Incoming packet \<and> (ver = 4 \<or> ver = 6)
      then do {
        ttl \<leftarrow> GetTTL packet;
        packet \<leftarrow> (if 1 \<le> ttl then DecrementTTL packet else Some packet);
        tc_return (if (if 1 \<le> ttl then ttl - 1 else ttl) = 0 then TcBounce else TcPass) packet
      }
      else tc_return TcPass packet)
   }"

definition exit_filter :: "('t, 'c) Packages \<Rightarrow> ('t, 'c) Nylon \<Rightarrow> TCFilter" where
  "exit_filter pk n packet = do {
     dst \<leftarrow> GetDst packet;
     (case exit_lookup pk n dst of
        None \<Rightarrow> tc_return TcPass packet
      | Some entry \<Rightarrow> tc_return (if rte_Nh entry = lc_Id (ny_Local n) then TcBounce else TcPass) packet)
   }"

definition nylon_filter :: TCFilter where
  "nylon_filter packet =
     (if Incoming packet
      then do {
        ver \<leftarrow> GetIPVersion packet;
        (if ver = NyProtoId
         then do {
           payload \<leftarrow> Payload packet;
           Some (TcDrop, None, packet, [(payload, tc_FromEp packet, tc_FromPeer packet)])
         }
         else tc_return TcPass packet)
      }
      else tc_return TcPass packet)"

definition unicast_filter :: "('t, 'c) Nylon \<Rightarrow> TCFilter" where
  "unicast_filter n packet = do {
     ver \<leftarrow> GetIPVersion packet;
     (if ver \<noteq> NyUnicastProtoId then tc_return TcPass packet
      else case ny_ExitFilter n of
             None \<Rightarrow> tc_return TcDrop packet
           | Some snap \<Rightarrow> do {
               payload \<leftarrow> Payload packet;
               (if length payload < NyUnicastHeaderSize then tc_return TcDrop packet
                else if payload ! NyUnicastOffsetSubtype \<noteq> NyUnicastSubtypeMpls then tc_return TcDrop packet
                else do {
                  (action, err, packet) \<leftarrow> handleMplsPacket packet snap;
                  Some (action, err, packet, [])
                })
             })
   }"

definition InstallTC :: "('t, 'c) Packages \<Rightarrow> ('t, 'c) Nylon \<Rightarrow> TCFilter list \<Rightarrow> TCFilter list" where
  "InstallTC pk n filters =
     (let filters = InstallFilter (exit_encap_filter pk n) filters;
          filters =
            (if lc_UseSystemRouting (ny_Local n)
             then InstallFilter (forward_outgoing_filter pk n) (InstallFilter bounce_incoming_filter filters)
             else InstallFilter ttl_filter (InstallFilter (forward_filter pk n) filters));
          filters = InstallFilter (exit_filter pk n) filters;
          filters = InstallFilter nylon_filter filters
      in InstallFilter (unicast_filter n) filters)"

subsection \<open>Batches\<close>

text \<open>The filters in the order they run, until one does not pass.\<close>

fun run_filters :: "TCFilter list \<Rightarrow> TCElement \<Rightarrow> (TCAction \<times> TCElement \<times> NylonPacket list) option" where
  "run_filters [] e = Some (TcPass, e, [])"
| "run_filters (f # fs) e = do {
     (nAct, err, e, ps) \<leftarrow> f e;
     let act = (if err \<noteq> None then TcDrop else nAct);
     (if act \<noteq> TcPass then Some (act, e, ps)
      else do {
        (act, e, ps') \<leftarrow> run_filters fs e;
        Some (act, e, ps @ ps')
      })
   }"

definition tc_element :: "TCFilter list \<Rightarrow> TCElement \<Rightarrow> (TCAction \<times> TCElement \<times> NylonPacket list) option" where
  "tc_element filters e = do {
     (ok, e) \<leftarrow> ParsePacket e;
     valid \<leftarrow> (if ok then Validate e else Some False);
     (if \<not> valid then Some (TcDrop, e, [])
      else do {
        (act, e, ps) \<leftarrow> run_filters (rev filters) e;
        Some (if act = TcPass then TcDrop else act, e, ps)
      })
   }"

record TCState =
  tcs_priority :: "TCElement list list"
  tcs_bouncePkts :: "TCElement list"
  tcs_elemsForPeer :: "(Peer, TCElement list) gomap"

definition NewTCState :: TCState where
  "NewTCState = \<lparr>tcs_priority = replicate (TcMaxPriority + 1) [], tcs_bouncePkts = [], tcs_elemsForPeer = []\<rparr>"

text \<open>Where an element goes; one that is to be forwarded and has no peer is dropped.\<close>

definition tc_place :: "TCAction \<Rightarrow> TCElement \<Rightarrow> TCState \<Rightarrow> TCState option" where
  "tc_place act e tcs =
     (case act of
        TcDrop \<Rightarrow> Some tcs
      | TcBounce \<Rightarrow> Some (tcs\<lparr>tcs_bouncePkts := tcs_bouncePkts tcs @ [e]\<rparr>)
      | TcForward \<Rightarrow>
          if tc_ToPeer e = None then Some tcs
          else if tc_Priority e < length (tcs_priority tcs)
          then Some (tcs\<lparr>tcs_priority := (tcs_priority tcs)[tc_Priority e := tcs_priority tcs ! tc_Priority e @ [e]]\<rparr>)
          else None
      | TcPass \<Rightarrow> None)"

fun tc_loop ::
  "TCFilter list \<Rightarrow> TCElement list \<Rightarrow> TCState \<Rightarrow> (TCState \<times> NylonPacket list) option" where
  "tc_loop filters [] tcs = Some (tcs, [])"
| "tc_loop filters (e # batch) tcs = do {
     (act, e, ps) \<leftarrow> tc_element filters e;
     tcs \<leftarrow> tc_place act e tcs;
     (tcs, ps') \<leftarrow> tc_loop filters batch tcs;
     Some (tcs, ps @ ps')
   }"

text \<open>\<^verbatim>\<open>elem.Buffer[:MessageTransportHeaderSize+len(elem.Packet)]\<close>, written to the TUN from the offset
\<^verbatim>\<open>MessageTransportHeaderSize\<close>, with the packet's ethertype.\<close>

definition bounce_buf :: "TCElement \<Rightarrow> (bytes \<times> u16) option" where
  "bounce_buf e =
     (if MessageTransportHeaderSize + tc_Len e \<le> length (tc_buf e)
      then Some (drop MessageTransportHeaderSize (take (MessageTransportHeaderSize + tc_Len e) (tc_buf e)), tc_L3Proto e)
      else None)"

definition stage :: "TCElement \<Rightarrow> (Peer, TCElement list) gomap \<Rightarrow> (Peer, TCElement list) gomap" where
  "stage e m =
     (case tc_ToPeer e of
        None \<Rightarrow> m
      | Some q \<Rightarrow> mput q ((case mget m q of None \<Rightarrow> [] | Some es \<Rightarrow> es) @ [e]) m)"

record TCOut =
  out_bounced :: "(bytes \<times> u16) list"
  out_staged :: "(Peer, TCElement list) gomap"
  out_nylon :: "NylonPacket list"

text \<open>A batch starts with an empty state and leaves it empty: higher priorities are staged first, and the
elements of peers that do not run are dropped.\<close>

definition TCBatch :: "TCFilter list \<Rightarrow> (Peer \<Rightarrow> bool) \<Rightarrow> TCElement list \<Rightarrow> TCOut option" where
  "TCBatch filters running batch = do {
     (tcs, ps) \<leftarrow> tc_loop filters batch NewTCState;
     bufs \<leftarrow> map_opt bounce_buf (tcs_bouncePkts tcs);
     let elemsForPeer = fold (fold stage) (rev (tcs_priority tcs)) (tcs_elemsForPeer tcs);
     Some \<lparr>out_bounced = bufs, out_staged = filter (\<lambda>(peer, _). running peer) elemsForPeer, out_nylon = ps\<rparr>
   }"

subsection \<open>The elements of a batch\<close>

text \<open>The size of a message buffer on the default platforms (Windows and iOS use smaller ones), and an
element as the pool gives it: \<^verbatim>\<open>PutTCElement\<close> has cleared its fields, the priority included.\<close>

definition MaxMessageSize :: nat where "MaxMessageSize = 65535"

definition NewTCElement :: "bytes \<Rightarrow> TCElement" where
  "NewTCElement buf =
     \<lparr>tc_Buffer = Some buf, tc_Off = 0, tc_Len = 0, tc_FromEp = None, tc_ToEp = None, tc_FromPeer = None,
      tc_ToPeer = None, tc_Priority = 0, tc_L3Proto = 0\<rparr>"

text \<open>A packet the TUN reader finds at the transport header's offset of a buffer, with its ethertype if the
TUN reports one, and a decrypted packet of a peer.\<close>

definition tun_element :: "bytes \<Rightarrow> nat \<Rightarrow> u16 option \<Rightarrow> TCElement" where
  "tun_element buf sz proto =
     (let off = MessageTransportHeaderSize;
          (sz, tce) =
            (if proto = Some EthPMplsUnicast
             then FrameMplsUnicast off sz NyUnicastProtoId (unat NyUnicastSubtypeMpls) (NewTCElement buf)
             else (sz, NewTCElement buf))
      in tce\<lparr>tc_Off := off, tc_Len := sz\<rparr>)"

definition received_element :: "bytes \<Rightarrow> nat \<Rightarrow> AddrPort option \<Rightarrow> Peer \<Rightarrow> TCElement" where
  "received_element buf sz endpoint peer =
     (NewTCElement buf)\<lparr>tc_Off := MessageTransportOffsetContent, tc_Len := sz, tc_FromEp := endpoint, tc_FromPeer := Some peer\<rparr>"

text \<open>The element of a bundle whose encoding is \<open>data\<close>: \<^verbatim>\<open>MarshalAppend\<close> leaves the buffer when its
capacity does not suffice.\<close>

definition nylon_element :: "bytes \<Rightarrow> bytes \<Rightarrow> AddrPort option \<Rightarrow> Peer option \<Rightarrow> TCElement option" where
  "nylon_element buf data endpoint peer = do {
     let off = MessageTransportOffsetContent + PolyHeaderSize;
     let tce = NewTCElement (if off + length data \<le> length buf then overwrite off data buf else buf);
     tce \<leftarrow> InitPacket NyProtoId (word_of_nat (length data + PolyHeaderSize)) tce;
     Some (tce\<lparr>tc_Priority := TcHighPriority, tc_ToEp := endpoint, tc_ToPeer := peer\<rparr>)
   }"

text \<open>\<open>marshal\<close> is the protobuf encoder; \<open>Inl\<close> is its error.\<close>

definition SendNylonBundle ::
  "(TransportBundle \<Rightarrow> bytes option) \<Rightarrow> TCFilter list \<Rightarrow> (Peer \<Rightarrow> bool) \<Rightarrow> bytes \<Rightarrow> TransportBundle \<Rightarrow>
   AddrPort option \<Rightarrow> Peer option \<Rightarrow> (unit + TCOut) option" where
  "SendNylonBundle marshal filters running buf pkt endpoint peer =
     (case marshal pkt of
        None \<Rightarrow> Some (Inl ())
      | Some data \<Rightarrow> do {
          tce \<leftarrow> nylon_element buf data endpoint peer;
          out \<leftarrow> TCBatch filters running [tce];
          Some (Inr out)
        })"

definition SendNylon ::
  "(TransportBundle \<Rightarrow> bytes option) \<Rightarrow> TCFilter list \<Rightarrow> (Peer \<Rightarrow> bool) \<Rightarrow> bytes \<Rightarrow> Ny \<Rightarrow>
   AddrPort option \<Rightarrow> Peer option \<Rightarrow> (unit + TCOut) option" where
  "SendNylon marshal filters running buf pkt = SendNylonBundle marshal filters running buf [pkt]"

end
