(* ===== verification/Traffic_Properties.thy ===== *)
theory Traffic_Properties
  imports Traffic_Control Unicast_Properties Allowed_IPs_Rules
begin

text \<open>
  The filters on well-formed packets: which packets can make a filter panic, what becomes of the
  elements of a batch, and where the data plane sends an IP packet.
\<close>

unbundle bit_operations_syntax

subsection \<open>Headers of a well-formed packet\<close>

text \<open>A packet at the place where the transport header leaves it, and one with its header.\<close>

lemmas tc_priorities = TcNormalPriority_def TcMediumPriority_def TcHighPriority_def TcMaxPriority_def

definition placed :: "TCElement \<Rightarrow> bool" where
  "placed e \<longleftrightarrow> valid_packet e \<and> tc_Off e = MessageTransportHeaderSize \<and> tc_Priority e \<le> TcMaxPriority"

definition framed :: "TCElement \<Rightarrow> bool" where
  "framed e \<longleftrightarrow> placed e \<and> hasPacketHeader e"

definition version :: "TCElement \<Rightarrow> nat" where
  "version e = unat (drop_bit 4 (tc_Packet e ! 0))"

definition dst_bytes :: "TCElement \<Rightarrow> bytes option" where
  "dst_bytes e =
     (if version e = 4 then Some (window 16 4 (tc_Packet e))
      else if version e = 6 then Some (window 24 16 (tc_Packet e)) else None)"

definition dst_addr :: "TCElement \<Rightarrow> Addr" where
  "dst_addr e = addr_of_bytes (version e) (dst_bytes e)"

lemma framedD:
  assumes "framed e"
  shows "valid_packet e" "tc_Off e = 16" "GetIPVersion e = Some (version e)" "3 \<le> tc_Len e"
    "header_len (version e) \<le> tc_Len e" "length (tc_Packet e) = tc_Len e" "placed e"
proof -
  show v: "valid_packet e" "tc_Off e = 16" "placed e"
    using assms by (simp_all add: framed_def placed_def packet_consts)
  show l: "3 \<le> tc_Len e" using assms by (simp add: framed_def hasPacketHeader_def packet_consts)
  then show "GetIPVersion e = Some (version e)"
    using v by (simp add: GetIPVersion_valid version_def)
  then show "header_len (version e) \<le> tc_Len e"
    using assms by (simp add: framed_def hasPacketHeader_def)
  show "length (tc_Packet e) = tc_Len e" using v by (simp add: length_tc_Packet)
qed

lemma framed_len:
  "framed e \<Longrightarrow> version e = 4 \<Longrightarrow> 20 \<le> tc_Len e" "framed e \<Longrightarrow> version e = 6 \<Longrightarrow> 40 \<le> tc_Len e"
  using framedD(5) [of e] by (simp_all add: header_len_def)

lemma framed_GetDstBytes: "framed e \<Longrightarrow> GetDstBytes e = Some (dst_bytes e)"
  using framedD [of e] framed_len [of e]
  by (auto simp: GetDstBytes_def dst_bytes_def packet_consts pkt_slice_eq)

lemma framed_GetDst: "framed e \<Longrightarrow> GetDst e = Some (dst_addr e)"
  using framedD(3) [of e] framed_GetDstBytes [of e] by (simp add: GetDst_def dst_addr_def)

lemma framed_GetSrc: "framed e \<Longrightarrow> GetSrc e \<noteq> None"
  using framedD [of e] framed_len [of e]
  by (auto simp: GetSrc_def GetSrcBytes_def packet_consts pkt_slice_eq)

lemma dst_other: "version e \<noteq> 4 \<Longrightarrow> version e \<noteq> 6 \<Longrightarrow> dst_addr e = IPv4Unspecified"
  by (simp add: dst_addr_def dst_bytes_def addr_of_bytes_def)

lemma framed_Payload: "framed e \<Longrightarrow> Payload e = Some (drop (header_len (version e)) (tc_Packet e))"
  using framedD [of e] by (simp add: Payload_def)

lemma framed_GetLength: "framed e \<Longrightarrow> GetLength e \<noteq> None"
  using framedD [of e] framed_len [of e]
  by (auto simp: GetLength_def packet_consts pkt_slice_eq)

lemma framed_Validate: "framed e \<Longrightarrow> Validate e \<noteq> None"
  using framedD [of e] framed_GetLength [of e] by (auto simp: Validate_def)

text \<open>Elements that filters treat alike.\<close>

definition similar :: "TCElement \<Rightarrow> TCElement \<Rightarrow> bool" where
  "similar e e' \<longleftrightarrow> tc_Len e' = tc_Len e \<and> version e' = version e \<and> dst_bytes e' = dst_bytes e \<and>
     tc_FromPeer e' = tc_FromPeer e \<and> tc_ToPeer e' = tc_ToPeer e \<and> tc_ToEp e' = tc_ToEp e \<and>
     tc_Priority e' = tc_Priority e \<and> tc_L3Proto e' = tc_L3Proto e"

lemma similar_refl [simp]: "similar e e"
  by (simp add: similar_def)

lemma similarD:
  assumes "similar e e'"
  shows "tc_Len e' = tc_Len e" "version e' = version e" "dst_bytes e' = dst_bytes e" "dst_addr e' = dst_addr e"
    "tc_ToPeer e' = tc_ToPeer e" "Incoming e' = Incoming e" "tc_Priority e' = tc_Priority e"
  using assms by (auto simp: similar_def dst_addr_def Incoming_def)

subsection \<open>The hop limit of a well-formed packet\<close>

definition hops :: "TCElement \<Rightarrow> u8" where
  "hops e = tc_Packet e ! (if version e = 4 then 8 else 7)"

lemma framed_GetTTL: "framed e \<Longrightarrow> version e = 4 \<or> version e = 6 \<Longrightarrow> GetTTL e = Some (hops e)"
  using framedD [of e] framed_len [of e]
  by (auto simp: GetTTL_def ttl_offset_def hops_def pkt_slice_eq window_one)

lemma with_packet_fields [simp]:
  "tc_ToEp (with_packet p e) = tc_ToEp e" "tc_Priority (with_packet p e) = tc_Priority e"
  "tc_L3Proto (with_packet p e) = tc_L3Proto e" "tc_FromEp (with_packet p e) = tc_FromEp e"
  by (simp_all add: with_packet_def)

lemma placed_with_packet:
  "placed e \<Longrightarrow> length p = tc_Len e \<Longrightarrow> placed (with_packet p e) \<and> tc_Packet (with_packet p e) = p"
  by (simp add: placed_def)

lemma framed_with_packet:
  assumes e: "framed e" and p: "length p = tc_Len e" "p ! 0 = tc_Packet e ! 0"
    "\<And>i. 12 \<le> i \<Longrightarrow> i < tc_Len e \<Longrightarrow> p ! i = tc_Packet e ! i"
  shows "framed (with_packet p e)" "similar e (with_packet p e)"
proof -
  note d = framedD [OF e] and w = placed_with_packet [OF framedD(7) [OF e] p(1)]
  have v: "version (with_packet p e) = version e" using w p(2) by (simp add: version_def)
  have win: "window a n p = window a n (tc_Packet e)" if "12 \<le> a" "a + n \<le> tc_Len e" for a n
    using that p(1,3) d(6) by (intro nth_equalityI) (auto simp: length_window nth_window)
  have "dst_bytes (with_packet p e) = dst_bytes e"
    using framed_len [OF e] w by (auto simp: dst_bytes_def v win)
  then show "similar e (with_packet p e)" by (simp add: similar_def v)
  have "GetIPVersion (with_packet p e) = Some (version e)"
    using w d(4) v by (simp add: GetIPVersion_valid placed_def version_def)
  then show "framed (with_packet p e)"
    using w d(4,5) by (simp add: framed_def hasPacketHeader_def packet_consts)
qed

lemma framed_DecrementTTL:
  assumes e: "framed e" and v: "version e = 4 \<or> version e = 6"
  shows "\<exists>e'. DecrementTTL e = Some e' \<and> framed e' \<and> similar e e' \<and> hops e' = hops e - 1 \<and>
    drop 12 (tc_Packet e') = drop 12 (tc_Packet e)"
proof -
  note d = framedD [OF e]
  have "\<exists>p. DecrementTTL e = Some (with_packet p e) \<and> length p = tc_Len e \<and> p ! 0 = tc_Packet e ! 0 \<and>
    (\<forall>i. 12 \<le> i \<and> i < tc_Len e \<longrightarrow> p ! i = tc_Packet e ! i) \<and>
    p ! (if version e = 4 then 8 else 7) = hops e - 1"
  proof (cases "version e = 4")
    case True
    have "12 \<le> tc_Len e" using framed_len(1) [OF e True] by simp
    then show ?thesis
      using DecrementTTL_4 [of e] d True
      by (intro exI [of _ "ttl_dropped (tc_Packet e)"])
        (auto simp: ttl_dropped_def unat_put16(1) nth_overwrite hops_def)
  next
    case False
    then have 6: "version e = 6" and l: "40 \<le> tc_Len e" using v framed_len(2) [OF e] by simp_all
    let ?p = "(tc_Packet e)[7 := tc_Packet e ! 7 - 1]"
    have "pkt_write 7 [tc_Packet e ! 7 - 1] e = Some (with_packet ?p e)"
      using d l by (simp add: pkt_write_eq list_update_overwrite)
    moreover have "GetIPVersion (with_packet ?p e) = Some 6"
      using d l 6 by (simp add: GetIPVersion_valid version_def)
    ultimately have "DecrementTTL e = Some (with_packet ?p e)"
      using d l 6 by (simp add: DecrementTTL_def ttl_offset_def pkt_slice_eq window_one)
    then show ?thesis using d(6) l 6 by (intro exI [of _ ?p]) (auto simp: hops_def)
  qed
  then obtain p where p: "DecrementTTL e = Some (with_packet p e)" "length p = tc_Len e" "p ! 0 = tc_Packet e ! 0"
    "\<forall>i. 12 \<le> i \<and> i < tc_Len e \<longrightarrow> p ! i = tc_Packet e ! i" "p ! (if version e = 4 then 8 else 7) = hops e - 1" by blast
  note w = placed_with_packet [OF d(7) p(2)]
  have f: "framed (with_packet p e)" "similar e (with_packet p e)" using framed_with_packet [OF e p(2,3)] p(4) by auto
  have "drop 12 p = drop 12 (tc_Packet e)"
    using p(2,4) d(6) by (intro nth_equalityI) auto
  moreover have "hops (with_packet p e) = hops e - 1"
    using w p(5) similarD(2) [OF f(2)] by (simp add: hops_def)
  ultimately show ?thesis using p(1) f w by auto
qed

subsection \<open>Filters do not fail on well-formed packets\<close>

definition good_result :: "TCElement \<Rightarrow> TCResult \<Rightarrow> bool" where
  "good_result e r \<longleftrightarrow>
     (\<exists>act err e' ps. r = Some (act, err, e', ps) \<and> placed e' \<and>
        (act = TcPass \<and> err = None \<longrightarrow> framed e' \<and> similar e e' \<and> ps = []))"

definition good_filter :: "TCFilter \<Rightarrow> bool" where
  "good_filter f \<longleftrightarrow> (\<forall>e. framed e \<longrightarrow> good_result e (f e))"

lemma good_return: "framed e \<Longrightarrow> good_result e (tc_return act e)"
  by (simp add: good_result_def tc_return_def framedD)

lemma good_return_placed: "placed e' \<Longrightarrow> act \<noteq> TcPass \<Longrightarrow> good_result e (tc_return act e')"
  by (simp add: good_result_def tc_return_def)

lemma placed_update [simp]:
  "placed (e\<lparr>tc_ToPeer := q\<rparr>) = placed e" "placed e \<Longrightarrow> placed (e\<lparr>tc_Priority := TcMediumPriority\<rparr>)"
  "placed e \<Longrightarrow> placed (e\<lparr>tc_ToPeer := q, tc_Priority := TcMediumPriority\<rparr>)"
  "placed (e\<lparr>tc_L3Proto := x\<rparr>) = placed e"
  by (simp_all add: placed_def valid_packet_def tc_buf_def tc_priorities)

lemma good_forward_entry: "framed e \<Longrightarrow> good_result e (forward_entry entry e)"
  by (simp add: forward_entry_def good_return good_return_placed framedD)

lemma good_forward_filter: "good_filter (forward_filter pk n)"
  by (auto simp: good_filter_def forward_filter_def framed_GetDst good_return good_forward_entry split: option.splits)

lemma good_forward_outgoing_filter: "good_filter (forward_outgoing_filter pk n)"
  by (auto simp: good_filter_def forward_outgoing_filter_def framed_GetDst good_return good_forward_entry split: option.splits)

lemma good_bounce_incoming_filter: "good_filter bounce_incoming_filter"
  by (simp add: good_filter_def bounce_incoming_filter_def good_return)

lemma good_exit_filter: "good_filter (exit_filter pk n)"
  by (auto simp: good_filter_def exit_filter_def framed_GetDst good_return split: option.splits)

lemma good_nylon_filter: "good_filter nylon_filter"
  by (auto simp: good_filter_def nylon_filter_def framedD framed_Payload good_return good_result_def tc_return_def)

lemma good_ttl_filter: "good_filter ttl_filter"
  unfolding good_filter_def
proof (intro allI impI)
  fix e assume e: "framed e"
  show "good_result e (ttl_filter e)"
  proof (cases "Incoming e \<and> (version e = 4 \<or> version e = 6)")
    case True
    then obtain e' where "DecrementTTL e = Some e'" "framed e'" "similar e e'"
      using framed_DecrementTTL [OF e] by blast
    then show ?thesis
      using e True by (auto simp: ttl_filter_def framedD(3) framed_GetTTL good_result_def tc_return_def framedD(7))
  next
    case False
    then show ?thesis using e by (auto simp: ttl_filter_def framedD(3) good_return)
  qed
qed

text \<open>Writing into a packet does not move it.\<close>

lemma pkt_writes_off:
  "pkt_set i v e = Some e' \<Longrightarrow> tc_Off e' = tc_Off e \<and> tc_Priority e' = tc_Priority e"
  "pkt_write a bs e = Some e' \<Longrightarrow> tc_Off e' = tc_Off e \<and> tc_Priority e' = tc_Priority e"
  by (auto simp: pkt_set_def pkt_write_def split: if_splits)

lemma SetLength_off: "SetLength l e = Some e' \<Longrightarrow> tc_Off e' = tc_Off e \<and> tc_Priority e' = tc_Priority e"
  unfolding SetLength_def by (auto dest: pkt_writes_off split: if_splits bind_splits)

lemma placed_wrap:
  assumes "framed e" "wrapExitPacket e x = Some (Inr e')"
  shows "placed e'"
proof -
  have "tc_Off e' = MessageTransportHeaderSize \<and> tc_Priority e' = tc_Priority e"
    using assms(2)
    by (auto simp: wrapExitPacket_def Let_def SetIPVersion_def split: if_splits bind_splits
        dest!: pkt_writes_off SetLength_off)
  moreover have "valid_packet e'"
    using wrap_holds_frame [OF assms(2)] framedD(1) [OF assms(1)] by (simp add: holds_frame_def)
  ultimately show ?thesis using framedD(7) [OF assms(1)] by (simp add: placed_def)
qed

lemma wrap_not_None:
  assumes "framed e"
  shows "wrapExitPacket e x \<noteq> None"
proof (cases "x = InvalidNodeIdNumeric \<or> length (tc_buf e) < 24 + tc_Len e")
  case True
  then show ?thesis by (auto simp: wrapExitPacket_def Let_def packet_consts unicast_consts)
next
  case False
  then show ?thesis using wrap_frame [OF framedD(1) [OF assms], of x] by auto
qed

lemma good_exit_encap:
  assumes "framed e"
  shows "good_result e (exit_encap snap e)"
proof -
  obtain src res where "GetSrc e = Some src" "wrapExitPacket e (snap_ExitNodeNumeric snap) = Some res"
    using framed_GetSrc [OF assms] wrap_not_None [OF assms] by blast
  moreover have "placed e'" if "res = Inr e'" for e'
    using that calculation placed_wrap [OF assms] by blast
  ultimately show ?thesis
    using assms by (auto simp: exit_encap_def good_return good_return_placed split: option.splits sum.splits)
qed

lemma good_exit_encap_filter: "good_filter (exit_encap_filter pk n)"
  unfolding good_filter_def
proof (intro allI impI)
  fix e assume e: "framed e"
  obtain b where "Validate e = Some b" using framed_Validate [OF e] by blast
  then show "good_result e (exit_encap_filter pk n e)"
    using e by (auto simp: exit_encap_filter_def good_return framedD framed_GetDst good_exit_encap split: option.splits)
qed

lemma placed_strip_header:
  assumes "placed e" "k \<le> tc_Len e"
  shows "placed (strip_header k e)"
  using assms by (auto simp: placed_def strip_header_def Let_def valid_packet_def length_tc_Packet [unfolded valid_packet_def] tc_buf_def)

lemma ParsePacket_placed:
  assumes "placed e" "0 < tc_Len e"
  shows "\<exists>ok e'. ParsePacket e = Some (ok, e') \<and> placed e' \<and> (ok \<longrightarrow> tc_Len e' \<le> tc_Len e)"
proof (cases "hasPacketHeader e")
  case True
  then have f: "framed e" using assms by (simp add: framed_def)
  then obtain l where "GetLength e = Some l" using framed_GetLength by blast
  then show ?thesis
    using True assms by (auto simp: ParsePacket_def placed_def valid_packet_def tc_buf_def)
qed (use assms in \<open>auto simp: ParsePacket_def\<close>)

lemma handleMplsPacket_placed:
  assumes e: "framed e"
  shows "\<exists>act err e'. handleMplsPacket e snap = Some (act, err, e') \<and> placed e' \<and> act \<noteq> TcPass"
proof -
  note d = framedD [OF e]
  let ?h = "header_len (version e)" and ?p = "drop (header_len (version e)) (tc_Packet e)"
  note start = handleMplsPacket_def framed_Payload [OF e] d(3) Let_def
  show ?thesis
  proof (cases "length ?p < NyUnicastHeaderSize")
    case True
    then show ?thesis using d(7) by (simp add: start)
  next
    case False
    then have l: "?h + 5 \<le> tc_Len e" using d(5,6) by (simp add: unicast_consts packet_consts)
    obtain label tc bos ttl where lse: "decodeMplsLse (window NyUnicastOffsetLse MplsLseLen ?p) = (label, tc, bos, ttl)"
      by (metis prod_cases4)
    let ?i = "?h + NyUnicastOffsetLse + MplsLseLen - 1"
    have i: "?i < tc_Len e" using l by (simp add: unicast_consts packet_consts)
    have set_ttl: "\<exists>e'. pkt_set ?i (b - 1) e = Some e' \<and> placed e'" for b
      using pkt_set_eq [OF d(1) i, of "b - 1"] placed_with_packet [OF d(7), of "(tc_Packet e)[?i := b - 1]"] d(6) by simp
    have get: "pkt_get e ?i = Some (tc_Packet e ! ?i)" using pkt_get_eq [OF d(1)] i by simp
    let ?s = "strip_header (?h + NyUnicastHeaderSize) e"
    have st: "placed ?s" using placed_strip_header [OF d(7)] l by (simp add: unicast_consts packet_consts)
    have rest: "\<exists>ok e'. ParsePacket ?s = Some (ok, e') \<and> placed e'" if "drop NyUnicastHeaderSize ?p \<noteq> []"
    proof -
      have "0 < tc_Len ?s" using that by (simp add: strip_header_def Let_def add.commute)
      then show ?thesis using ParsePacket_placed [OF st] by blast
    qed
    obtain e1 where e1: "pkt_set ?i (tc_Packet e ! ?i - 1) e = Some e1" "placed e1" using set_ttl by blast
    consider "ttl = 0" | "ttl \<noteq> 0" "label \<noteq> snap_LocalIdNumeric snap" | "ttl \<noteq> 0" "label = snap_LocalIdNumeric snap"
      "drop NyUnicastHeaderSize ?p = [] \<or> \<not> snap_AdvertiseExitNode snap \<or> \<not> bos"
      | "ttl \<noteq> 0" "label = snap_LocalIdNumeric snap" "drop NyUnicastHeaderSize ?p \<noteq> []" "snap_AdvertiseExitNode snap" bos
      by blast
    then show ?thesis
    proof cases
      case 2
      then show ?thesis using False e1 get d(7) by (cases "mget (snap_NodeForward snap) label") (auto simp: start lse)
    next
      case 3
      then show ?thesis using False st d(7) by (auto simp: start lse)
    next
      case 4
      then obtain ok e2 where "ParsePacket ?s = Some (ok, e2)" "placed e2" using rest by blast
      with 4 False d(7) show ?thesis
        by (cases "packetAddr (drop NyUnicastHeaderSize ?p) True"; cases "packetAddr (drop NyUnicastHeaderSize ?p) False")
          (simp_all add: start lse)
    qed (use False d(7) in \<open>simp add: start lse\<close>)
  qed
qed

lemma good_unicast_filter: "good_filter (unicast_filter n)"
  unfolding good_filter_def
proof (intro allI impI)
  fix e assume e: "framed e"
  have "good_result e (do { (action, err, packet) \<leftarrow> handleMplsPacket e snap; Some (action, err, packet, []) })" for snap
    using handleMplsPacket_placed [OF e, of snap] by (auto simp: good_result_def)
  then show "good_result e (unicast_filter n e)"
    using e by (simp add: unicast_filter_def framedD(3) framed_Payload good_return split: option.splits)
qed

subsection \<open>Running the filters\<close>

lemma run_filters_good:
  assumes "\<forall>f \<in> set fs. good_filter f" "framed e"
  shows "\<exists>act e' ps. run_filters fs e = Some (act, e', ps) \<and> placed e' \<and>
    (act = TcPass \<longrightarrow> framed e' \<and> similar e e' \<and> ps = [])"
  using assms
proof (induction fs arbitrary: e)
  case Nil
  then show ?case by (simp add: framedD)
next
  case (Cons f fs)
  have "good_result e (f e)" using Cons.prems by (simp add: good_filter_def)
  then obtain act err e' ps where f: "f e = Some (act, err, e', ps)" "placed e'"
    "act = TcPass \<and> err = None \<longrightarrow> framed e' \<and> similar e e' \<and> ps = []"
    unfolding good_result_def by blast
  show ?case
  proof (cases "act = TcPass \<and> err = None")
    case True
    with f(3) obtain act2 e2 ps2 where "run_filters fs e' = Some (act2, e2, ps2)" "placed e2"
      "act2 = TcPass \<longrightarrow> framed e2 \<and> similar e' e2 \<and> ps2 = []" "similar e e'" "ps = []"
      using Cons.IH [of e'] Cons.prems(1) by auto
    then show ?thesis using True f(1) by (auto simp: similar_def)
  next
    case False
    then show ?thesis using f(1,2) by auto
  qed
qed

lemma run_filters_append:
  "run_filters (fs @ gs) e = do {
     (act, e, ps) \<leftarrow> run_filters fs e;
     (if act \<noteq> TcPass then Some (act, e, ps)
      else do { (act, e, ps') \<leftarrow> run_filters gs e; Some (act, e, ps @ ps') })
   }"
proof (induction fs arbitrary: e)
  case (Cons f fs)
  show ?case
  proof (cases "f e")
    case (Some r)
    obtain act err e1 ps where r: "r = (act, err, e1, ps)" by (metis prod_cases4)
    show ?thesis
    proof (cases "(if err \<noteq> None then TcDrop else act) = TcPass")
      case True
      then show ?thesis
        unfolding append_Cons run_filters.simps Some r Cons
        by (cases "run_filters fs e1") (auto split: bind_splits)
    next
      case False
      then show ?thesis unfolding append_Cons run_filters.simps Some r by simp
    qed
  qed simp
qed (auto split: bind_splits)

definition node_filters :: "('t, 'c) Packages \<Rightarrow> ('t, 'c) Nylon \<Rightarrow> TCFilter list" where
  "node_filters pk n =
     [unicast_filter n, nylon_filter, exit_filter pk n] @
     (if lc_UseSystemRouting (ny_Local n) then [forward_outgoing_filter pk n, bounce_incoming_filter]
      else [ttl_filter, forward_filter pk n]) @ [exit_encap_filter pk n]"

lemma filters_in_order:
  "rev (InstallTC pk n (NewDevice_filters aip)) = node_filters pk n @ [TCFAllowedip aip, TCFBounce, TCFDrop]"
  by (simp add: InstallTC_def NewDevice_filters_def InstallFilter_def node_filters_def)

lemma good_node_filters: "\<forall>f \<in> set (node_filters pk n). good_filter f"
  by (auto simp: node_filters_def good_unicast_filter good_nylon_filter good_exit_filter good_forward_outgoing_filter
      good_bounce_incoming_filter good_ttl_filter good_forward_filter good_exit_encap_filter)

text \<open>The addresses a packet that is not IP is looked up with is the unspecified one.\<close>

definition exits_here :: "('t, 'c) Packages \<Rightarrow> ('t, 'c) Nylon \<Rightarrow> Addr \<Rightarrow> bool" where
  "exits_here pk n dst \<longleftrightarrow> (case exit_lookup pk n dst of None \<Rightarrow> False | Some entry \<Rightarrow> rte_Nh entry = lc_Id (ny_Local n))"

definition unroutable :: "('t, 'c) Packages \<Rightarrow> ('t, 'c) Nylon \<Rightarrow> TCElement \<Rightarrow> bool" where
  "unroutable pk n e \<longleftrightarrow>
     version e \<notin> {4, 6, 9} \<and> \<not> (Incoming e \<and> version e = 8) \<and> tc_ToPeer e = None \<and>
     \<not> exits_here pk n IPv4Unspecified \<and>
     (if lc_UseSystemRouting (ny_Local n) then \<not> Incoming e \<and> forward_lookup pk n IPv4Unspecified = None
      else forward_lookup pk n IPv4Unspecified = None)"

lemma exit_filter_eq:
  "framed e \<Longrightarrow> exit_filter pk n e = tc_return (if exits_here pk n (dst_addr e) then TcBounce else TcPass) e"
  by (simp add: exit_filter_def framed_GetDst exits_here_def split: option.splits)

lemma pass_step: "f e = tc_return TcPass e \<Longrightarrow> run_filters (f # fs) e = run_filters fs e"
  by (simp add: tc_return_def split: bind_splits)

lemma return_step: "f e = tc_return act e' \<Longrightarrow> act \<noteq> TcPass \<Longrightarrow> run_filters (f # fs) e = Some (act, e', [])"
  by (simp add: tc_return_def)

lemma unicast_filter_stops:
  assumes e: "framed e" and "version e = 9"
  shows "\<exists>act err e'. unicast_filter n e = Some (act, err, e', []) \<and> act \<noteq> TcPass"
proof (cases "ny_ExitFilter n")
  case None
  then show ?thesis using assms by (simp add: unicast_filter_def framedD tc_return_def unicast_consts)
next
  case (Some snap)
  obtain act err e' where "handleMplsPacket e snap = Some (act, err, e')" "act \<noteq> TcPass"
    using handleMplsPacket_placed [OF e] by blast
  then show ?thesis
    using assms Some by (simp add: unicast_filter_def framedD framed_Payload tc_return_def unicast_consts)
qed

lemma node_filters_other:
  assumes e: "framed e" and v: "version e \<notin> {4, 6}"
  shows "(\<exists>e' ps. run_filters (node_filters pk n) e = Some (TcPass, e', ps)) \<longleftrightarrow>
    version e \<noteq> 9 \<and> \<not> (Incoming e \<and> version e = 8) \<and> \<not> exits_here pk n IPv4Unspecified \<and>
     (if lc_UseSystemRouting (ny_Local n) then \<not> Incoming e \<and> forward_lookup pk n IPv4Unspecified = None
      else forward_lookup pk n IPv4Unspecified = None)"
proof -
  note d = framedD [OF e]
  have dst: "dst_addr e = IPv4Unspecified" using v dst_other by simp
  have enc: "exit_encap_filter pk n e = tc_return TcPass e"
    using framed_Validate [OF e] v by (auto simp: exit_encap_filter_def d(3) split: option.splits)
  have ttl: "ttl_filter e = tc_return TcPass e" using v by (simp add: ttl_filter_def d(3))
  have fw: "forward_filter pk n e =
      (case forward_lookup pk n IPv4Unspecified of None \<Rightarrow> tc_return TcPass e | Some entry \<Rightarrow> forward_entry entry e)"
    by (simp add: forward_filter_def framed_GetDst [OF e] dst)
  have fo: "forward_outgoing_filter pk n e =
      (case forward_lookup pk n IPv4Unspecified of None \<Rightarrow> tc_return TcPass e
       | Some entry \<Rightarrow> if Incoming e then tc_return TcPass e else forward_entry entry e)"
    by (simp add: forward_outgoing_filter_def framed_GetDst [OF e] dst)
  consider "version e = 9" | "version e \<noteq> 9" "Incoming e" "version e = 8" | "version e \<noteq> 9" "\<not> (Incoming e \<and> version e = 8)"
    by blast
  then show ?thesis
  proof cases
    case 1
    obtain act err e' where u: "unicast_filter n e = Some (act, err, e', [])" "act \<noteq> TcPass"
      using unicast_filter_stops [OF e 1] by blast
    from u 1 show ?thesis by (simp add: node_filters_def)
  next
    case 2
    have u: "unicast_filter n e = tc_return TcPass e" using 2 by (simp add: unicast_filter_def d(3) unicast_consts)
    have "nylon_filter e = Some (TcDrop, None, e, [(drop (header_len 8) (tc_Packet e), tc_FromEp e, tc_FromPeer e)])"
      using 2 by (simp add: nylon_filter_def d(3) framed_Payload [OF e] NyProtoId_def)
    then show ?thesis using 2 by (simp add: node_filters_def u tc_return_def)
  next
    case 3
    have u: "unicast_filter n e = tc_return TcPass e" using 3 by (simp add: unicast_filter_def d(3) unicast_consts)
    have ny: "nylon_filter e = tc_return TcPass e" using 3 by (simp add: nylon_filter_def d(3) NyProtoId_def)
    have x: "exit_filter pk n e = tc_return (if exits_here pk n IPv4Unspecified then TcBounce else TcPass) e"
      using exit_filter_eq [OF e] dst by metis
    show ?thesis
      using 3
      by (simp add: node_filters_def u ny x ttl fw fo enc forward_entry_def bounce_incoming_filter_def tc_return_def
          split: option.splits)
  qed
qed

lemma base_filters:
  assumes e: "framed e" and t: "wf_table aip"
  shows "run_filters [TCFAllowedip aip, TCFBounce, TCFDrop] e = None \<longleftrightarrow> tc_ToPeer e = None \<and> version e \<notin> {4, 6}"
    "run_filters [TCFAllowedip aip, TCFBounce, TCFDrop] e = Some (act, e', ps) \<Longrightarrow> placed e'"
proof -
  have l4: "\<exists>q. AllowedIPs_Lookup (window 16 4 (tc_Packet e)) aip = Some q" if "version e = 4"
  proof -
    have "length (window 16 4 (tc_Packet e)) = 4" using framed_len(1) [OF e that] framedD(6) [OF e] by (simp add: length_window)
    then show ?thesis
      using trie_lookup_spec [of 4 "aip_IPv4 aip" "window 16 4 (tc_Packet e)" None] t
      by (auto simp: AllowedIPs_Lookup_def wf_table_def)
  qed
  have l6: "\<exists>q. AllowedIPs_Lookup (window 24 16 (tc_Packet e)) aip = Some q" if "version e = 6"
  proof -
    have "length (window 24 16 (tc_Packet e)) = 16" using framed_len(2) [OF e that] framedD(6) [OF e] by (simp add: length_window)
    then show ?thesis
      using trie_lookup_spec [of 16 "aip_IPv6 aip" "window 24 16 (tc_Packet e)" None] t
      by (auto simp: AllowedIPs_Lookup_def wf_table_def)
  qed
  have nil: "AllowedIPs_Lookup [] aip = None" by (simp add: AllowedIPs_Lookup_def)
  show "run_filters [TCFAllowedip aip, TCFBounce, TCFDrop] e = None \<longleftrightarrow> tc_ToPeer e = None \<and> version e \<notin> {4, 6}"
    using l4 l6 nil
    by (auto simp: TCFAllowedip_def framed_GetDstBytes [OF e] dst_bytes_def TCFBounce_def TCFDrop_def tc_return_def
        split: if_splits option.splits)
  show "run_filters [TCFAllowedip aip, TCFBounce, TCFDrop] e = Some (act, e', ps) \<Longrightarrow> placed e'"
    using framedD(7) [OF e]
    by (auto simp: TCFAllowedip_def TCFBounce_def TCFDrop_def tc_return_def split: if_splits option.splits bind_splits)
qed

lemma placed_Validate: "placed e \<Longrightarrow> \<exists>b. Validate e = Some b \<and> (b \<longrightarrow> framed e)"
  using framed_Validate [of e] by (cases "hasPacketHeader e") (auto simp: framed_def Validate_def)

lemma element_result:
  fixes pk :: "('t, 'c) Packages" and n :: "('t, 'c) Nylon"
  assumes t: "wf_table aip" and e: "placed e" "0 < tc_Len e"
  defines "F \<equiv> InstallTC pk n (NewDevice_filters aip)"
  shows "tc_element F e = None \<longleftrightarrow> (\<exists>e'. ParsePacket e = Some (True, e') \<and> Validate e' = Some True \<and> unroutable pk n e')"
    and "tc_element F e = Some (act, e1, ps) \<Longrightarrow> placed e1 \<and> act \<noteq> TcPass"
proof -
  obtain ok e' b where p: "ParsePacket e = Some (ok, e')" "placed e'" and b: "Validate e' = Some b" "b \<Longrightarrow> framed e'"
    using ParsePacket_placed [OF e] placed_Validate by metis
  have "(tc_element F e = None \<longleftrightarrow> (\<exists>e'. ParsePacket e = Some (True, e') \<and> Validate e' = Some True \<and> unroutable pk n e')) \<and>
    (tc_element F e = Some (act, e1, ps) \<longrightarrow> placed e1 \<and> act \<noteq> TcPass)"
  proof (cases "ok \<and> b")
    case False
    then show ?thesis using p b by (auto simp: tc_element_def)
  next
    case True
    then have f: "framed e'" using b(2) by simp
    obtain act2 e2 ps2 where r: "run_filters (node_filters pk n) e' = Some (act2, e2, ps2)" "placed e2"
      "act2 = TcPass \<longrightarrow> framed e2 \<and> similar e' e2 \<and> ps2 = []"
      using run_filters_good [OF good_node_filters f] by blast
    have el: "tc_element F e = do {
        (act, e, ps) \<leftarrow> (if act2 \<noteq> TcPass then Some (act2, e2, ps2)
          else do { (act, e, ps') \<leftarrow> run_filters [TCFAllowedip aip, TCFBounce, TCFDrop] e2; Some (act, e, ps2 @ ps') });
        Some (if act = TcPass then TcDrop else act, e, ps) }"
      using True p(1) b(1) r(1)
      by (simp add: tc_element_def F_def filters_in_order run_filters_append del: run_filters.simps(2))
    show ?thesis
    proof (cases "act2 = TcPass")
      case pass: True
      then have e2: "framed e2" "similar e' e2" using r(3) by auto
      have un: "run_filters [TCFAllowedip aip, TCFBounce, TCFDrop] e2 = None \<longleftrightarrow> unroutable pk n e'"
        using base_filters(1) [OF e2(1) t] similarD [OF e2(2)] node_filters_other [OF f, of pk n] r(1) pass
        by (auto simp: unroutable_def)
      show ?thesis
        using un base_filters(2) [OF e2(1) t] True p(1) b(1) pass unfolding el
        by (cases "run_filters [TCFAllowedip aip, TCFBounce, TCFDrop] e2") (auto split: if_splits)
    next
      case False
      then have "\<not> unroutable pk n e'"
        using node_filters_other [OF f, of pk n] r(1) by (auto simp: unroutable_def)
      then show ?thesis using False True p b r(2) unfolding el by auto
    qed
  qed
  then show "tc_element F e = None \<longleftrightarrow> (\<exists>e'. ParsePacket e = Some (True, e') \<and> Validate e' = Some True \<and> unroutable pk n e')"
    and "tc_element F e = Some (act, e1, ps) \<Longrightarrow> placed e1 \<and> act \<noteq> TcPass" by blast+
qed

lemma bounce_buf_placed: "placed e \<Longrightarrow> bounce_buf e = Some (tc_Packet e, tc_L3Proto e)"
  by (simp add: bounce_buf_def placed_def valid_packet_def tc_Packet_def window_def drop_take)

subsection \<open>Batches\<close>

type_synonym outcome = "TCAction \<times> TCElement \<times> NylonPacket list"

definition bounced :: "outcome list \<Rightarrow> TCElement list" where
  "bounced rs = map (\<lambda>(act, e, ps). e) (filter (\<lambda>(act, e, ps). act = TcBounce) rs)"

definition forwarded :: "outcome list \<Rightarrow> TCElement list" where
  "forwarded rs = map (\<lambda>(act, e, ps). e) (filter (\<lambda>(act, e, ps). act = TcForward \<and> tc_ToPeer e \<noteq> None) rs)"

definition by_priority :: "TCElement list \<Rightarrow> TCElement list list" where
  "by_priority es = map (\<lambda>p. filter (\<lambda>e. tc_Priority e = p) es) [0..<TcMaxPriority + 1]"

lemma length_by_priority: "length (by_priority es) = TcMaxPriority + 1"
  by (simp add: by_priority_def)

lemma tc_place_spec:
  assumes "placed e" "act \<noteq> TcPass" "tcs_priority tcs = by_priority es"
  shows "\<exists>tcs'. tc_place act e tcs = Some tcs' \<and> tcs_priority tcs' = by_priority (es @ forwarded [(act, e, ps)]) \<and>
    tcs_bouncePkts tcs' = tcs_bouncePkts tcs @ bounced [(act, e, ps)] \<and> tcs_elemsForPeer tcs' = tcs_elemsForPeer tcs"
proof (cases "act = TcForward \<and> tc_ToPeer e \<noteq> None")
  case True
  have p: "tc_Priority e < TcMaxPriority + 1" using assms(1) by (simp add: placed_def)
  have "(by_priority es)[tc_Priority e := by_priority es ! tc_Priority e @ [e]] = by_priority (es @ [e])"
    using p by (intro nth_equalityI) (auto simp: by_priority_def nth_list_update simp del: upt_Suc)
  then show ?thesis
    using True assms(3) p length_by_priority [of es] by (auto simp: tc_place_def forwarded_def bounced_def)
next
  case False
  then show ?thesis
    using assms by (cases act) (auto simp: tc_place_def forwarded_def bounced_def)
qed

lemma outcome_lists_Cons:
  "bounced (r # rs) = bounced [r] @ bounced rs" "forwarded (r # rs) = forwarded [r] @ forwarded rs"
  by (simp_all add: bounced_def forwarded_def)

lemma tc_loop_spec:
  assumes "\<forall>e \<in> set batch. \<forall>act e' ps. tc_element F e = Some (act, e', ps) \<longrightarrow> placed e' \<and> act \<noteq> TcPass"
    and "tcs_priority tcs = by_priority es"
  shows "(case map_opt (tc_element F) batch of
      None \<Rightarrow> tc_loop F batch tcs = None
    | Some rs \<Rightarrow> \<exists>tcs'. tc_loop F batch tcs = Some (tcs', concat (map (\<lambda>(_, _, ps). ps) rs)) \<and>
        tcs_priority tcs' = by_priority (es @ forwarded rs) \<and> tcs_bouncePkts tcs' = tcs_bouncePkts tcs @ bounced rs \<and>
        tcs_elemsForPeer tcs' = tcs_elemsForPeer tcs)"
  using assms
proof (induction batch arbitrary: tcs es)
  case Nil
  then show ?case by (simp add: forwarded_def bounced_def)
next
  case (Cons e batch)
  show ?case
  proof (cases "tc_element F e")
    case (Some r)
    obtain act e1 ps where r: "r = (act, e1, ps)" by (metis prod_cases3)
    have p: "placed e1" "act \<noteq> TcPass" using Cons.prems(1) Some r by auto
    obtain tcs1 where t: "tc_place act e1 tcs = Some tcs1" "tcs_priority tcs1 = by_priority (es @ forwarded [r])"
      "tcs_bouncePkts tcs1 = tcs_bouncePkts tcs @ bounced [r]" "tcs_elemsForPeer tcs1 = tcs_elemsForPeer tcs"
      using tc_place_spec [OF p Cons.prems(2), of ps] r by blast
    note IH = Cons.IH [OF _ t(2)]
    show ?thesis
    proof (cases "map_opt (tc_element F) batch")
      case None
      then have "tc_loop F batch tcs1 = None" using IH Cons.prems(1) by simp
      then show ?thesis using Some r t(1) None by simp
    next
      case rs: (Some rs)
      obtain tcs2 where "tc_loop F batch tcs1 = Some (tcs2, concat (map (\<lambda>(_, _, ps). ps) rs))"
        "tcs_priority tcs2 = by_priority (es @ forwarded [r] @ forwarded rs)"
        "tcs_bouncePkts tcs2 = tcs_bouncePkts tcs1 @ bounced rs" "tcs_elemsForPeer tcs2 = tcs_elemsForPeer tcs1"
        using IH Cons.prems(1) rs by auto
      then show ?thesis
        using Some r rs t outcome_lists_Cons [of r rs] by simp
    qed
  qed simp
qed

text \<open>What is staged for a peer.\<close>

definition staged_for :: "(Peer, TCElement list) gomap \<Rightarrow> Peer \<Rightarrow> TCElement list" where
  "staged_for m q = (case mget m q of None \<Rightarrow> [] | Some es \<Rightarrow> es)"

lemma staged_for_fold:
  "staged_for (fold stage es m) q = staged_for m q @ filter (\<lambda>e. tc_ToPeer e = Some q) es"
proof (induction es arbitrary: m)
  case (Cons e es)
  have "staged_for (stage e m) q = staged_for m q @ filter (\<lambda>e. tc_ToPeer e = Some q) [e]"
    by (auto simp: staged_for_def stage_def split: option.splits)
  then show ?case using Cons by simp
qed simp

lemma staged_for_running:
  "staged_for (filter (\<lambda>(peer, _). running peer) m) q = (if running q then staged_for m q else [])"
  by (induction m) (auto simp: staged_for_def)

text \<open>Higher priorities first, and within one in the order of arrival.\<close>

definition highest_first :: "TCElement list \<Rightarrow> TCElement list" where
  "highest_first es = concat (map (\<lambda>p. filter (\<lambda>e. tc_Priority e = p) es) [3, 2, 1, 0])"

lemma highest_first_concat: "highest_first es = concat (rev (by_priority es))"
  by (simp add: highest_first_def by_priority_def tc_priorities numeral_3_eq_3 numeral_2_eq_2)

lemma filter_highest_first: "filter P (highest_first es) = highest_first (filter P es)"
  by (simp add: highest_first_def conj_commute)

definition ready :: "TCElement list \<Rightarrow> bool" where
  "ready batch \<longleftrightarrow> (\<forall>e \<in> set batch. placed e \<and> 0 < tc_Len e)"

lemma batch_result:
  fixes pk :: "('t, 'c) Packages" and n :: "('t, 'c) Nylon"
  assumes t: "wf_table aip" and b: "ready batch"
  defines "F \<equiv> InstallTC pk n (NewDevice_filters aip)"
  shows "(case map_opt (tc_element F) batch of
      None \<Rightarrow> TCBatch F running batch = None
    | Some rs \<Rightarrow> \<exists>out. TCBatch F running batch = Some out \<and>
        out_bounced out = map (\<lambda>e. (tc_Packet e, tc_L3Proto e)) (bounced rs) \<and>
        (\<forall>q. staged_for (out_staged out) q =
           (if running q then highest_first (filter (\<lambda>e. tc_ToPeer e = Some q) (forwarded rs)) else [])) \<and>
        out_nylon out = concat (map (\<lambda>(_, _, ps). ps) rs))"
proof -
  have el: "\<forall>e \<in> set batch. \<forall>act e' ps. tc_element F e = Some (act, e', ps) \<longrightarrow> placed e' \<and> act \<noteq> TcPass"
    using element_result(2) [OF t, of _ pk n] b unfolding F_def ready_def by blast
  have new: "tcs_priority NewTCState = by_priority []" "tcs_bouncePkts NewTCState = []" "tcs_elemsForPeer NewTCState = []"
    by (simp_all add: NewTCState_def by_priority_def tc_priorities numeral_eq_Suc)
  note loop = tc_loop_spec [OF el new(1)]
  show ?thesis
  proof (cases "map_opt (tc_element F) batch")
    case None
    then show ?thesis using loop by (simp add: TCBatch_def)
  next
    case (Some rs)
    then obtain tcs where l: "tc_loop F batch NewTCState = Some (tcs, concat (map (\<lambda>(_, _, ps). ps) rs))"
      "tcs_priority tcs = by_priority (forwarded rs)" "tcs_bouncePkts tcs = bounced rs" "tcs_elemsForPeer tcs = []"
      using loop new by auto
    have "placed e" if m: "e \<in> set (bounced rs)" for e
    proof -
      obtain act ps where "(act, e, ps) \<in> set rs" using m by (auto simp: bounced_def)
      moreover have "map (tc_element F) batch = map Some rs" using Some by (simp add: map_opt_Some)
      ultimately obtain e0 where "e0 \<in> set batch" "tc_element F e0 = Some (act, e, ps)"
        by (metis (no_types, lifting) image_eqI image_iff list.set_map)
      then show ?thesis using el by blast
    qed
    then have "map_opt bounce_buf (bounced rs) = Some (map (\<lambda>e. (tc_Packet e, tc_L3Proto e)) (bounced rs))"
      unfolding map_opt_Some by (simp add: bounce_buf_placed)
    then show ?thesis
      using Some l
      by (simp add: TCBatch_def staged_for_running fold_fold_concat staged_for_fold filter_highest_first
          flip: highest_first_concat) (simp add: staged_for_def)
  qed
qed

subsection \<open>Where an IP packet goes\<close>

text \<open>A received packet has one hop less.\<close>

definition hop_taken :: "TCElement \<Rightarrow> TCElement" where
  "hop_taken e = (if Incoming e \<and> 1 \<le> hops e then the (DecrementTTL e) else e)"

definition hop_limit_reached :: "TCElement \<Rightarrow> bool" where
  "hop_limit_reached e \<longleftrightarrow> Incoming e \<and> hops e \<le> 1"

lemma hop_taken_framed:
  assumes "framed e" "version e = 4 \<or> version e = 6"
  shows "framed (hop_taken e)" "similar e (hop_taken e)" "drop 12 (tc_Packet (hop_taken e)) = drop 12 (tc_Packet e)"
    "hops (hop_taken e) = (if Incoming e \<and> 1 \<le> hops e then hops e - 1 else hops e)"
  using framed_DecrementTTL [OF assms] assms(1) by (auto simp: hop_taken_def)

lemma ttl_filter_ip:
  assumes e: "framed e" "version e = 4 \<or> version e = 6"
  shows "ttl_filter e = tc_return (if hop_limit_reached e then TcBounce else TcPass) (hop_taken e)"
proof (cases "Incoming e")
  case True
  have h: "(if 1 \<le> hops e then hops e - 1 else hops e) = 0 \<longleftrightarrow> hops e \<le> 1"
    by (auto simp: word_le_nat_alt word_unat_eq_iff unat_sub_if')
  obtain e' where "DecrementTTL e = Some e'" using framed_DecrementTTL [OF e] by blast
  then show ?thesis
    using True e h by (auto simp: ttl_filter_def framedD(3) framed_GetTTL hop_limit_reached_def hop_taken_def)
next
  case False
  then show ?thesis using e by (simp add: ttl_filter_def framedD(3) hop_limit_reached_def hop_taken_def)
qed

lemma node_filters_ip:
  assumes e: "framed e" "version e = 4 \<or> version e = 6" and sys: "\<not> lc_UseSystemRouting (ny_Local n)"
  shows "run_filters (node_filters pk n) e =
    (if exits_here pk n (dst_addr e) then Some (TcBounce, e, [])
     else if hop_limit_reached e then Some (TcBounce, hop_taken e, [])
     else case forward_lookup pk n (dst_addr e) of
            Some entry \<Rightarrow>
              if rte_Blackhole entry then Some (TcDrop, hop_taken e, [])
              else Some (TcForward, (hop_taken e)\<lparr>tc_ToPeer := rte_Peer entry\<rparr>, [])
          | None \<Rightarrow> run_filters [exit_encap_filter pk n] (hop_taken e))"
proof -
  note h = hop_taken_framed [OF e]
  have u: "unicast_filter n e = tc_return TcPass e" using e by (auto simp: unicast_filter_def framedD(3) unicast_consts)
  have ny: "nylon_filter e = tc_return TcPass e" using e by (auto simp: nylon_filter_def framedD(3) NyProtoId_def)
  have fw: "forward_filter pk n (hop_taken e) =
      (case forward_lookup pk n (dst_addr e) of None \<Rightarrow> tc_return TcPass (hop_taken e) | Some entry \<Rightarrow> forward_entry entry (hop_taken e))"
    by (simp add: forward_filter_def framed_GetDst [OF h(1)] similarD(4) [OF h(2)])
  let ?x = "run_filters [exit_encap_filter pk n] (hop_taken e)"
  have "run_filters [forward_filter pk n, exit_encap_filter pk n] (hop_taken e) =
      (case forward_lookup pk n (dst_addr e) of
            Some entry \<Rightarrow>
              if rte_Blackhole entry then Some (TcDrop, hop_taken e, [])
              else Some (TcForward, (hop_taken e)\<lparr>tc_ToPeer := rte_Peer entry\<rparr>, [])
          | None \<Rightarrow> ?x)"
  proof (cases "forward_lookup pk n (dst_addr e)")
    case None
    then show ?thesis using pass_step [of "forward_filter pk n" "hop_taken e"] fw by (simp del: run_filters.simps(2))
  next
    case (Some entry)
    then show ?thesis
      using return_step [of "forward_filter pk n" "hop_taken e"] fw by (simp add: forward_entry_def del: run_filters.simps(2))
  qed
  moreover have "run_filters (ttl_filter # fs) e =
      (if hop_limit_reached e then Some (TcBounce, hop_taken e, []) else run_filters fs (hop_taken e))" for fs
    using ttl_filter_ip [OF e] by (simp add: tc_return_def split: bind_splits)
  moreover have "run_filters (exit_filter pk n # fs) e = (if exits_here pk n (dst_addr e) then Some (TcBounce, e, []) else run_filters fs e)" for fs
    using exit_filter_eq [OF e(1), of pk n] by (simp add: tc_return_def split: bind_splits)
  ultimately show ?thesis
    using sys pass_step [of "unicast_filter n" e, OF u] pass_step [of nylon_filter e, OF ny] by (simp add: node_filters_def del: run_filters.simps(2))
qed

lemma element_ip:
  fixes pk :: "('t, 'c) Packages" and n :: "('t, 'c) Nylon"
  assumes e: "framed e" "version e = 4 \<or> version e = 6" "ParsePacket e = Some (True, e)" "Validate e = Some True"
    and sys: "\<not> lc_UseSystemRouting (ny_Local n)"
    and stop: "exits_here pk n (dst_addr e) \<or> hop_limit_reached e \<or> forward_lookup pk n (dst_addr e) \<noteq> None"
  shows "tc_element (InstallTC pk n (NewDevice_filters aip)) e =
    Some (if exits_here pk n (dst_addr e) then (TcBounce, e, [])
     else if hop_limit_reached e then (TcBounce, hop_taken e, [])
     else if rte_Blackhole (the (forward_lookup pk n (dst_addr e))) then (TcDrop, hop_taken e, [])
     else (TcForward, (hop_taken e)\<lparr>tc_ToPeer := rte_Peer (the (forward_lookup pk n (dst_addr e)))\<rparr>, []))"
  using stop e(3,4)
  by (auto simp: tc_element_def filters_in_order run_filters_append node_filters_ip [OF e(1,2) sys] simp del: run_filters.simps(2))

lemma element_ip_unrouted:
  assumes e: "framed e" "version e = 4 \<or> version e = 6" "ParsePacket e = Some (True, e)" "Validate e = Some True"
    and sys: "\<not> lc_UseSystemRouting (ny_Local n)"
    and out: "\<not> exits_here pk n (dst_addr e)" "\<not> Incoming e" "forward_lookup pk n (dst_addr e) = None"
    and snap: "ny_ExitFilter n = None" and to: "tc_ToPeer e \<noteq> None"
  shows "tc_element (InstallTC pk n (NewDevice_filters aip)) e = Some (TcForward, e, [])"
proof -
  have h: "\<not> hop_limit_reached e" "hop_taken e = e" using out(2) by (simp_all add: hop_limit_reached_def hop_taken_def)
  have x: "exit_encap_filter pk n e = tc_return TcPass e" using snap by (simp add: exit_encap_filter_def)
  have "run_filters (node_filters pk n) e = Some (TcPass, e, [])"
    using node_filters_ip [OF e(1,2) sys, of pk] out h pass_step [of "exit_encap_filter pk n" e, OF x, of "[]"] by (simp del: run_filters.simps(2))
  then show ?thesis
    using e(3,4) to by (simp add: tc_element_def filters_in_order run_filters_append TCFAllowedip_def tc_return_def)
qed

subsection \<open>Properties\<close>


definition packages_0 :: "(unit, unit) Packages" where
  "packages_0 =
     \<lparr>tables = \<lparr>tbl_new = (), tbl_Insert = (\<lambda>_ _ _. ()), tbl_Delete = (\<lambda>_ _. ()), tbl_Lookup = (\<lambda>_ _. None)\<rparr>,
      caches = \<lparr>cache_New = (\<lambda>_. ()), cache_Get = (\<lambda>_ _ _. None), cache_Set = (\<lambda>_ _ _ _. ()), cache_DeleteExpired = (\<lambda>_ _. ())\<rparr>\<rparr>"

definition local_1 :: LocalCfg where
  "local_1 = \<lparr>lc_Key = [], lc_Id = ''a'', lc_Port = 51820, lc_Dist = None, lc_UseSystemRouting = False,
     lc_NoNetConfigure = False, lc_DnsResolvers = [], lc_InterfaceName = [], lc_Mtu = 0, lc_LogPath = [],
     lc_UnexcludeIPs = [], lc_ExcludeIPs = [], lc_PreUp = [], lc_PreDown = [], lc_PostUp = [], lc_PostDown = [],
     lc_Binds = [], lc_LANDiscovery = [], lc_TransitCost = 0, lc_TCPCost = 0, lc_UDPCost = 0,
     lc_AdvertiseExitNode = False, lc_ExitNode = [], lc_ExitNodeDefaultRoute = False\<rparr>"

definition node_with :: "'t \<Rightarrow> ('t, 'c) Nylon" where
  "node_with t = \<lparr>ny_Tunables = DefaultRouterTunables, ny_Central = network_1, ny_Local = local_1,
     ny_State = router_1, ny_IO = [], ny_RouteComputePending = False, ny_ForwardTable = t, ny_ExitTable = t,
     ny_NodeIdMap = None, ny_ExitFilter = None, ny_Peers = [[2], [3]]\<rparr>"

definition junk_1 :: TCElement where
  "junk_1 = received_element (replicate 16 0 @ [0x10, 0, 2, 7, 7] @ replicate 10 0) 5 None [9]"

lemma junk_1_fields:
  "tc_buf junk_1 = replicate 16 0 @ [0x10, 0, 2, 7, 7] @ replicate 10 0" "tc_Off junk_1 = 16" "tc_Len junk_1 = 5"
  "tc_ToPeer junk_1 = None" "Incoming junk_1" "tc_Priority junk_1 = 0" "tc_Buffer junk_1 \<noteq> None"
  by (simp_all add: junk_1_def received_element_def NewTCElement_def tc_buf_def Incoming_def packet_consts)

lemma junk_1_packet: "tc_Packet junk_1 = [0x10, 0, 2, 7, 7]" "valid_packet junk_1"
  by (simp_all add: tc_Packet_def window_def valid_packet_def junk_1_fields)


text \<open>C7: A batch loses, duplicates and reorders nothing beyond its priorities. If the filters give an
outcome for every packet, the bounced ones are written to the system unchanged, in order and with their
protocol; each running peer gets exactly the packets forwarded to it, higher priorities first and
otherwise in the order of arrival, and a peer that does not run gets none; control packets are handed
over in order.\<close>

theorem batch_outcome:
  assumes "wf_table aip" "ready batch"
    and "map (tc_element (InstallTC pk n (NewDevice_filters aip))) batch = map Some rs"
  shows "\<exists>out. TCBatch (InstallTC pk n (NewDevice_filters aip)) running batch = Some out \<and>
    out_bounced out = map (\<lambda>e. (tc_Packet e, tc_L3Proto e)) (bounced rs) \<and>
    (\<forall>q. staged_for (out_staged out) q =
       (if running q then highest_first (filter (\<lambda>e. tc_ToPeer e = Some q) (forwarded rs)) else [])) \<and>
    out_nylon out = concat (map (\<lambda>(_, _, ps). ps) rs)"
  using batch_result [OF assms(1,2), of pk n running] assms(3) [folded map_opt_Some] by simp

definition data_1 :: "nat \<Rightarrow> TCElement" where
  "data_1 pr = packet_1\<lparr>tc_ToPeer := Some [2], tc_Priority := pr\<rparr>"

lemma data_1_placed: "pr \<le> 3 \<Longrightarrow> placed (data_1 pr)" "tc_Len (data_1 pr) = 20" "tc_Packet (data_1 pr) = header_1"
  using packet_1_fields
  by (simp_all add: data_1_def placed_def valid_packet_def tc_buf_def tc_priorities packet_consts tc_Packet_def)
    (simp add: packet_1_def)

lemma data_1_framed:
  assumes "pr \<le> 3"
  shows "framed (data_1 pr)" "version (data_1 pr) = 4" "ParsePacket (data_1 pr) = Some (True, data_1 pr)"
    "Validate (data_1 pr) = Some True"
proof -
  note p = data_1_placed(1) [OF assms]
  have v: "GetIPVersion (data_1 pr) = Some 4"
    using p by (simp add: GetIPVersion_valid placed_def data_1_placed header_1_def drop_bit_eq_div)
  show "version (data_1 pr) = 4" by (simp add: version_def data_1_placed header_1_def drop_bit_eq_div)
  show "framed (data_1 pr)" using p v by (simp add: framed_def hasPacketHeader_def data_1_placed header_len_def packet_consts)
  have l: "GetLength (data_1 pr) = Some 20"
    using p by (simp add: GetLength_def v pkt_slice_eq placed_def data_1_placed packet_consts window_def header_1_def be16_def be_dec_def)
  then show "Validate (data_1 pr) = Some True"
    by (simp add: Validate_def hasPacketHeader_def v data_1_placed header_len_def packet_consts)
  show "ParsePacket (data_1 pr) = Some (True, data_1 pr)"
    using l data_1_placed(2) [of pr] by (simp add: ParsePacket_def hasPacketHeader_def v header_len_def packet_consts)
qed

lemma data_1_forwarded:
  assumes "pr \<le> 3"
  shows "tc_element (InstallTC packages_0 (node_with ()) (NewDevice_filters empty_table)) (data_1 pr) = Some (TcForward, data_1 pr, [])"
  using data_1_framed [OF assms]
  by (intro element_ip_unrouted)
    (auto simp: node_with_def local_1_def exits_here_def exit_lookup_def forward_lookup_def packages_0_def data_1_def
      packet_1_def Incoming_def)

theorem batch_outcome_witness:
  "\<exists>out. TCBatch (InstallTC packages_0 (node_with ()) (NewDevice_filters empty_table)) (\<lambda>q. q = [2]) [data_1 0, data_1 2] = Some out \<and>
    out_bounced out = [] \<and> staged_for (out_staged out) [2] = [data_1 2, data_1 0]"
proof -
  have "ready [data_1 0, data_1 2]" by (simp add: ready_def data_1_placed)
  moreover have "map (tc_element (InstallTC packages_0 (node_with ()) (NewDevice_filters empty_table))) [data_1 0, data_1 2] =
      map Some [(TcForward, data_1 0, []), (TcForward, data_1 2, [])]"
    by (simp add: data_1_forwarded)
  ultimately obtain out where o: "TCBatch (InstallTC packages_0 (node_with ()) (NewDevice_filters empty_table)) (\<lambda>q. q = [2])
      [data_1 0, data_1 2] = Some out"
    "out_bounced out = map (\<lambda>e. (tc_Packet e, tc_L3Proto e)) (bounced [(TcForward, data_1 0, []), (TcForward, data_1 2, [])])"
    "\<forall>q. staged_for (out_staged out) q = (if q = [2]
       then highest_first (filter (\<lambda>e. tc_ToPeer e = Some q) (forwarded [(TcForward, data_1 0, []), (TcForward, data_1 2, [])])) else [])"
    using batch_outcome [OF wf_empty_table(1)] by blast
  have "tc_ToPeer (data_1 pr) = Some [2]" "tc_Priority (data_1 pr) = pr" for pr by (simp_all add: data_1_def)
  then have "staged_for (out_staged out) [2] = [data_1 2, data_1 0]" "out_bounced out = []"
    by (simp_all add: o(2,3) forwarded_def bounced_def highest_first_def)
  with o(1) show ?thesis by blast
qed

end
