(* ===== verification/Flush_Properties.thy ===== *)
theory Flush_Properties
  imports Traffic_Properties
begin

text \<open>
  What \<^verbatim>\<open>flushIO\<close> (\<^verbatim>\<open>core/router.go\<close>) does for a neighbour: it sends every message that waits, in bundles
  that respect the size limit, and what an encoding error loses.
\<close>

definition one_message_or_fits :: "(Ny \<Rightarrow> nat) \<Rightarrow> int \<Rightarrow> TransportBundle \<Rightarrow> bool" where
  "one_message_or_fits sz mtu b \<longleftrightarrow> length b = 1 \<or> b \<noteq> [] \<and> int (total_size sz b) < mtu"

lemma total_size_0: "(\<And>m. 0 < sz m) \<Longrightarrow> total_size sz ms = 0 \<longleftrightarrow> ms = []"
  by (cases ms) (simp_all add: neq0_conv [symmetric] del: neq0_conv)

lemma fits_bundle:
  assumes "\<And>m. 0 < sz m" "fits sz mtu b" "b \<noteq> []"
  shows "one_message_or_fits sz mtu b"
proof (cases "int (total_size sz b) < mtu")
  case False
  then have "total_size sz (butlast b) = 0" using assms(2) by (simp add: fits_def)
  then have "butlast b = []" using total_size_0 [OF assms(1)] by simp
  then show ?thesis using assms(3) by (cases b rule: rev_cases) (simp_all add: one_message_or_fits_def)
qed (use assms(3) in \<open>simp add: one_message_or_fits_def\<close>)

lemma drain_spec:
  assumes "\<And>m. 0 < sz m" "drain sz encodable mtu nio = (nio', bundles, err)"
  shows "(\<forall>b\<in>set bundles. one_message_or_fits sz mtu b \<and> encodable b) \<and>
    io_SeqnoDedup nio' = io_SeqnoDedup nio \<and>
    (if err then \<exists>lost. \<not> encodable lost \<and> pending nio = concat bundles @ lost @ pending nio'
     else concat bundles = pending nio \<and> pending nio' = [])"
  using assms(2)
proof (induction nio arbitrary: nio' bundles err rule: measure_induct_rule [where f = "\<lambda>nio. length (pending nio)"])
  case (less nio)
  obtain n1 l ps where f: "fill_bundle sz mtu nio = (n1, l, ps)" by (metis prod_cases3)
  note spec = fill_bundle_spec [OF f]
  consider "l = 0" | "l \<noteq> 0" "\<not> encodable ps" | "l \<noteq> 0" "encodable ps" by blast
  then show ?case
  proof cases
    case 1
    then have "ps = []" using spec(2) total_size_0 [OF assms(1)] by simp
    then show ?thesis using 1 less.prems spec f by (simp add: drain.simps [of sz encodable mtu nio])
  next
    case 2
    then show ?thesis using less.prems spec f by (auto simp: drain.simps [of sz encodable mtu nio])
  next
    case 3
    obtain n2 bs e where d: "drain sz encodable mtu n1 = (n2, bs, e)" by (metis prod_cases3)
    then have res: "nio' = n2" "bundles = ps # bs" "err = e"
      using 3 less.prems f by (simp_all add: drain.simps [of sz encodable mtu nio])
    have "ps \<noteq> []" using 3(1) spec(2) by auto
    then have "one_message_or_fits sz mtu ps" using fits_bundle [OF assms(1) spec(3)] by simp
    then show ?thesis
      using less.IH [OF fill_bundle_progress [OF f 3(1)] d] 3(2) spec(1,4) by (auto simp: res)
  qed
qed

lemma GetNeighIO_with:
  "GetNeighIO pk (with_NeighIO pk q f n) q = f (GetNeighIO pk n q)"
  "q' \<noteq> q \<Longrightarrow> mget (ny_IO (with_NeighIO pk q f n)) q' = mget (ny_IO n) q'"
  by (simp_all add: with_NeighIO_def GetNeighIO_def mget_mput)

lemma flush_neigh_active:
  fixes pk :: "('t, 'c) Packages"
  defines "q n i \<equiv> neigh_Id (rs_Neighbours (ny_State n) ! i)"
  assumes "BestEndpoint now (neigh_Eps (rs_Neighbours (ny_State n) ! i)) = Some (Some b, eps)"
    and "Endpoint_IsActive now (eps ! b)" and "GetNode (ny_Central n) (q n i) = Some node"
    and "drain sz encodable (SafeMTU (ny_Tunables n)) (GetNeighIO pk n (q n i)) = (nio, bundles, err)"
  obtains n' where
    "flush_neigh pk sz encodable now i n = Some (n', map (\<lambda>b. (LookupPeer n (nc_PubKey node), b)) bundles, err)"
    "GetNeighIO pk n' (q n i) = nio"
    "\<And>q'. q' \<noteq> q n i \<Longrightarrow> mget (ny_IO n') q' = mget (ny_IO n) q'"
proof -
  let ?s = "neigh_at i (\<lambda>x. x\<lparr>neigh_Eps := eps\<rparr>) (ny_State n)"
  let ?n1 = "with_NeighIO pk (q n i) (\<lambda>nio. nio) (n\<lparr>ny_State := ?s\<rparr>)"
  let ?n2 = "with_NeighIO pk (q n i) (\<lambda>_. nio) ?n1"
  have io: "GetNeighIO pk ?n1 (q n i) = GetNeighIO pk n (q n i)"
    by (simp only: GetNeighIO_with(1)) (simp add: GetNeighIO_def split: option.splits)
  have "flush_neigh pk sz encodable now i n =
    Some (?n2, map (\<lambda>b. (LookupPeer n (nc_PubKey node), b)) bundles, err)"
    using assms(2-5) io
    by (simp add: flush_neigh_def q_def Let_def with_NeighIO_def LookupPeer_def)
  then show ?thesis by (rule that) (simp_all add: GetNeighIO_with)
qed


definition node_acks :: "(unit, unit) Nylon" where
  "node_acks = (node_with ())\<lparr>ny_Peers := [[]], ny_IO :=
     [(''b'', \<lparr>io_SeqnoReq = [], io_SeqnoDedup = (), io_Acks = [(host 7, ()), (host 8, ())], io_Updates = []\<rparr>)]\<rparr>"

lemma node_acks_facts:
  "neigh_Id (rs_Neighbours (ny_State node_acks) ! 0) = ''b''"
  "BestEndpoint 0 (neigh_Eps (rs_Neighbours (ny_State node_acks) ! 0)) =
     Some (Some 0, [EpMock (NewMockEndpoint ''b'' 10\<lparr>me_active := True\<rparr>)])"
  "Endpoint_IsActive 0 ([EpMock (NewMockEndpoint ''b'' 10\<lparr>me_active := True\<rparr>)] ! 0)"
  "GetNode (ny_Central node_acks) ''b'' = Some (rc_NodeCfg (node_x ''b'' 0))"
  "LookupPeer node_acks (nc_PubKey (rc_NodeCfg (node_x ''b'' 0))) = Some []"
  "pending (GetNeighIO packages_0 node_acks ''b'') = [ack_msg (host 7, ()), ack_msg (host 8, ())]"
  by code_simp+


end
