(* ===== verification/Replay.thy ===== *)
theory Replay
  imports Prelude
begin

text \<open>
  The sliding-window replay filter of a session (\<^verbatim>\<open>polyamide/replay/replay.go\<close>). The loop that clears the
  blocks the window moves over compares 64-bit numbers, so it is a partial function: not returning is
  \<open>None\<close>. The filter is compared with a filter that remembers every accepted counter.
\<close>

unbundle bit_operations_syntax

subsection \<open>The filter\<close>

definition blockBitLog :: nat where "blockBitLog = 6"

definition blockBits :: nat where "blockBits = 2 ^ blockBitLog"

definition ringBlocks :: nat where "ringBlocks = 2 ^ 7"

definition windowSize :: nat where "windowSize = (ringBlocks - 1) * blockBits"

definition blockMask :: u64 where "blockMask = word_of_nat (ringBlocks - 1)"

definition bitMask :: u64 where "bitMask = word_of_nat (blockBits - 1)"

record Filter =
  flt_last :: u64
  flt_ring :: "u64 list"

text \<open>The zero value of the type.\<close>

definition zero_Filter :: Filter where
  "zero_Filter = \<lparr>flt_last = 0, flt_ring = replicate ringBlocks 0\<rparr>"

definition Filter_Reset :: "Filter \<Rightarrow> Filter" where
  "Filter_Reset f = f\<lparr>flt_last := 0, flt_ring := (flt_ring f)[0 := 0]\<rparr>"

partial_function (option) clear_blocks :: "u64 \<Rightarrow> u64 \<Rightarrow> u64 list \<Rightarrow> u64 list option" where
  "clear_blocks i stop ring =
     (if i \<le> stop then clear_blocks (i + 1) stop (ring[unat (i AND blockMask) := 0]) else Some ring)"

declare clear_blocks.simps [code]

definition check_and_set :: "u64 \<Rightarrow> Filter \<Rightarrow> bool \<times> Filter" where
  "check_and_set counter f =
     (let indexBlock = unat (drop_bit blockBitLog counter AND blockMask);
          indexBit = unat (counter AND bitMask);
          old = flt_ring f ! indexBlock;
          new = old OR push_bit indexBit 1
      in (old \<noteq> new, f\<lparr>flt_ring := (flt_ring f)[indexBlock := new]\<rparr>))"

definition ValidateCounter :: "u64 \<Rightarrow> u64 \<Rightarrow> Filter \<Rightarrow> (bool \<times> Filter) option" where
  "ValidateCounter counter limit f =
     (if counter \<ge> limit then Some (False, f)
      else
        let indexBlock = drop_bit blockBitLog counter
        in if counter > flt_last f
           then do {
             let current = drop_bit blockBitLog (flt_last f);
             let diff = indexBlock - current;
             let diff = (if diff > word_of_nat ringBlocks then word_of_nat ringBlocks else diff);
             ring \<leftarrow> clear_blocks (current + 1) (current + diff) (flt_ring f);
             Some (check_and_set counter (f\<lparr>flt_last := counter, flt_ring := ring\<rparr>))
           }
           else if flt_last f - counter > word_of_nat windowSize then Some (False, f)
           else Some (check_and_set counter f))"

subsection \<open>A filter with an unbounded memory\<close>

datatype ReplayEvent = ResetFilter | Counter u64 u64

fun filter_run :: "ReplayEvent list \<Rightarrow> Filter \<Rightarrow> bool list option" where
  "filter_run [] f = Some []"
| "filter_run (ResetFilter # evs) f = filter_run evs (Filter_Reset f)"
| "filter_run (Counter counter limit # evs) f = do {
     (ok, f) \<leftarrow> ValidateCounter counter limit f;
     oks \<leftarrow> filter_run evs f;
     Some (ok # oks)
   }"

text \<open>A counter is fresh when it is below the limit, was not accepted since the last reset and is not more
than the window behind the greatest counter accepted.\<close>

definition fresh :: "u64 \<Rightarrow> u64 \<Rightarrow> u64 list \<Rightarrow> bool" where
  "fresh counter limit seen \<longleftrightarrow>
     counter < limit \<and> counter \<notin> set seen \<and> unat (foldr max seen 0) \<le> unat counter + windowSize"

fun history_run :: "ReplayEvent list \<Rightarrow> u64 list \<Rightarrow> bool list" where
  "history_run [] seen = []"
| "history_run (ResetFilter # evs) seen = history_run evs []"
| "history_run (Counter counter limit # evs) seen =
     (let ok = fresh counter limit seen in ok # history_run evs (if ok then counter # seen else seen))"

subsection \<open>The ring as a window\<close>

lemmas replay_consts = blockBitLog_def blockBits_def ringBlocks_def windowSize_def

lemma unat_take_bit: "unat (take_bit n w) = unat w mod 2 ^ n" for w :: u64
  by (subst unsigned_take_bit_eq) (simp add: take_bit_eq_mod)

lemma block_index: "unat (w AND blockMask) = unat w mod 128" for w :: u64
proof -
  have "blockMask = (mask 7 :: u64)" by (simp add: blockMask_def ringBlocks_def mask_eq_exp_minus_1)
  then have "w AND blockMask = take_bit 7 w" by (simp only: take_bit_eq_mask)
  then show ?thesis by (simp add: unat_take_bit)
qed

lemma bit_index: "unat (w AND bitMask) = unat w mod 64" for w :: u64
proof -
  have "bitMask = (mask 6 :: u64)" by (simp add: bitMask_def blockBits_def blockBitLog_def mask_eq_exp_minus_1)
  then have "w AND bitMask = take_bit 6 w" by (simp only: take_bit_eq_mask)
  then show ?thesis by (simp add: unat_take_bit)
qed

lemma block_number: "unat (drop_bit blockBitLog w) = unat w div 64" for w :: u64
  by (simp add: blockBitLog_def drop_bit_eq_div unat_div_distrib)

lemma block_number_less: "unat w div 64 < 2 ^ 58" for w :: u64
  using unsigned_less [where w = w and 'a = nat] by (simp add: div_less_iff_less_mult)

lemma same_block:
  fixes a b :: nat
  assumes "a mod 128 = b mod 128" "a \<le> b" "b < a + 128"
  shows "a = b"
proof -
  obtain q where "b = a + 128 * q" using assms(1) [symmetric] assms(2) by (rule mod_eq_nat1E)
  then show ?thesis using assms(3) by simp
qed

lemma all_blocks:
  assumes "j < 128"
  shows "\<exists>k\<in>{l + 1..l + 128}. k mod 128 = (j::nat)"
proof -
  define k where "k = l + 1 + (j + 127 * (l + 1)) mod 128"
  have "k mod 128 = (l + 1 + (j + 127 * (l + 1))) mod 128" by (simp only: k_def mod_add_right_eq)
  also have "\<dots> = (j + 128 * (l + 1)) mod 128" by (rule arg_cong [where f = "\<lambda>n. n mod 128"]) simp
  also have "\<dots> = j" using assms by (simp only: mod_mult_self2 mod_less)
  finally have "k mod 128 = j" .
  moreover have "k \<in> {l + 1..l + 128}" using mod_less_divisor [of 128 "j + 127 * (l + 1)"] by (simp add: k_def)
  ultimately show ?thesis by blast
qed

lemma clear_blocks_result:
  assumes "unat stop < 2 ^ 60"
  shows "\<exists>ring'. clear_blocks i stop ring = Some ring' \<and> length ring' = length ring \<and>
    (\<forall>j < length ring. ring' ! j = (if \<exists>k\<in>{unat i..unat stop}. k mod 128 = j then 0 else ring ! j))"
proof (induction "unat stop + 1 - unat i" arbitrary: i ring)
  case 0
  then have "\<not> i \<le> stop" by (simp add: word_le_nat_alt)
  moreover have "{unat i..unat stop} = {}" using 0 by simp
  ultimately show ?case by (simp add: clear_blocks.simps [of i])
next
  case (Suc n)
  then have le: "i \<le> stop" by (simp add: word_le_nat_alt)
  have next_i: "unat (i + 1) = unat i + 1"
    using le assms by (simp add: word_le_nat_alt unat_word_ariths)
  let ?r = "ring[unat (i AND blockMask) := 0]"
  have "n = unat stop + 1 - unat (i + 1)" using Suc.hyps(2) next_i by simp
  from Suc.hyps(1) [OF this, of ?r] obtain ring' where r:
    "clear_blocks (i + 1) stop ?r = Some ring'" "length ring' = length ring"
    "\<And>j. j < length ring \<Longrightarrow>
       ring' ! j = (if \<exists>k\<in>{unat i + 1..unat stop}. k mod 128 = j then 0 else ?r ! j)"
    by (auto simp: next_i)
  have "{unat i..unat stop} = insert (unat i) {unat i + 1..unat stop}"
    using le by (auto simp: word_le_nat_alt)
  then show ?case using r le by (auto simp: clear_blocks.simps [of i] block_index nth_list_update)
qed

text \<open>The ring holds one bit per counter of the last \<^const>\<open>ringBlocks\<close> blocks.\<close>

definition ring_window :: "Filter \<Rightarrow> u64 list \<Rightarrow> bool" where
  "ring_window f seen \<longleftrightarrow>
     length (flt_ring f) = 128 \<and> (\<forall>c\<in>set seen. c \<le> flt_last f) \<and>
     (\<forall>b k. b \<le> unat (flt_last f) div 64 \<and> unat (flt_last f) div 64 < b + 128 \<and> k < 64 \<longrightarrow>
        (bit (flt_ring f ! (b mod 128)) k \<longleftrightarrow> b * 64 + k \<in> unat ` set seen))"

lemma window_bit:
  assumes "ring_window f seen" "b \<le> unat (flt_last f) div 64" "unat (flt_last f) div 64 < b + 128" "k < 64"
  shows "bit (flt_ring f ! (b mod 128)) k \<longleftrightarrow> b * 64 + k \<in> unat ` set seen"
  using assms by (simp add: ring_window_def)

lemma window_zero: "length (flt_ring f) = 128 \<Longrightarrow> ring_window (Filter_Reset f) []"
  by (simp add: ring_window_def Filter_Reset_def)

lemma set_bit_word:
  fixes old :: u64
  assumes "k < 64"
  shows "old \<noteq> (old OR push_bit k 1) \<longleftrightarrow> \<not> bit old k"
    "m < 64 \<Longrightarrow> bit (old OR push_bit k 1) m \<longleftrightarrow> bit old m \<or> m = k"
proof -
  show b: "bit (old OR push_bit k 1) m \<longleftrightarrow> bit old m \<or> m = k" if "m < 64" for m
    using that assms by (auto simp: bit_or_iff bit_push_bit_iff bit_exp_iff)
  show "old \<noteq> (old OR push_bit k 1) \<longleftrightarrow> \<not> bit old k"
  proof
    assume "old \<noteq> (old OR push_bit k 1)"
    then show "\<not> bit old k" using b bit_word_eqI [of old "old OR push_bit k 1"] by auto
  next
    assume "\<not> bit old k"
    then show "old \<noteq> (old OR push_bit k 1)" using b [OF assms] by auto
  qed
qed

lemma check_and_set_window:
  assumes w: "ring_window f seen" and le: "counter \<le> flt_last f"
    and near: "unat (flt_last f) \<le> unat counter + windowSize"
  obtains f' where "check_and_set counter f = (counter \<notin> set seen, f')" "ring_window f' (counter # seen)"
    "flt_last f' = flt_last f"
proof -
  define b where "b = unat counter div 64"
  define k where "k = unat counter mod 64"
  define ring where "ring = flt_ring f"
  let ?new = "ring ! (b mod 128) OR push_bit k 1"
  let ?f = "f\<lparr>flt_ring := ring[b mod 128 := ?new]\<rparr>"
  have k: "k < 64" and c: "unat counter = b * 64 + k" by (simp_all add: k_def b_def)
  have len: "length ring = 128" using w by (simp add: ring_window_def ring_def)
  have "unat (flt_last f) div 64 \<le> (unat counter + 127 * 64) div 64"
    using near by (intro div_le_mono) (simp add: replay_consts)
  also have "\<dots> = b + 127" by (simp add: b_def)
  finally have "unat (flt_last f) div 64 < b + 128" by simp
  moreover have "b \<le> unat (flt_last f) div 64" using le by (simp add: b_def word_le_nat_alt div_le_mono)
  ultimately have b: "b \<le> unat (flt_last f) div 64" "unat (flt_last f) div 64 < b + 128" by simp_all
  have eq: "b' = b" if h: "b' mod 128 = b mod 128" "b' \<le> unat (flt_last f) div 64"
      "unat (flt_last f) div 64 < b' + 128" for b'
  proof (cases "b \<le> b'")
    case True
    moreover have "b' < b + 128" using h(2) b(2) by linarith
    ultimately show ?thesis using same_block [OF h(1) [symmetric]] by blast
  next
    case False
    moreover have "b < b' + 128" using h(3) b(1) by linarith
    ultimately show ?thesis using same_block [OF h(1)] by simp
  qed
  have mem: "unat counter \<in> unat ` set seen \<longleftrightarrow> counter \<in> set seen"
    by (auto simp: image_iff dest: unsigned_word_eqI)
  have step: "check_and_set counter f = (counter \<notin> set seen, ?f)"
    using window_bit [OF w b k] set_bit_word(1) [OF k, of "ring ! (b mod 128)"]
    by (simp add: check_and_set_def Let_def block_index bit_index block_number mem ring_def b_def k_def)
  have bits: "bit (ring[b mod 128 := ?new] ! (b' mod 128)) m \<longleftrightarrow> b' * 64 + m \<in> unat ` set (counter # seen)"
    if h: "b' \<le> unat (flt_last f) div 64" "unat (flt_last f) div 64 < b' + 128" "m < 64" for b' m
  proof (cases "b' = b")
    case True
    then show ?thesis
      using window_bit [OF w b h(3)] set_bit_word(2) [OF k h(3), of "ring ! (b mod 128)"] len c
      by (auto simp: ring_def)
  next
    case False
    then have "b' mod 128 \<noteq> b mod 128" using eq [OF _ h(1,2)] by blast
    moreover have "b' * 64 + m \<noteq> unat counter" using False h(3) by (auto simp: b_def)
    ultimately show ?thesis using window_bit [OF w h] by (simp add: ring_def)
  qed
  have "ring_window ?f (counter # seen)"
    using w le len bits by (simp add: ring_window_def)
  then show ?thesis by (rule that [OF step]) simp
qed

lemma window_moves:
  assumes w: "ring_window f seen" and gt: "flt_last f < counter"
    and diff: "diff = min (unat counter div 64 - unat (flt_last f) div 64) 128"
    and len: "length ring = 128"
    and ring: "\<And>j. j < 128 \<Longrightarrow>
      ring ! j = (if \<exists>k\<in>{unat (flt_last f) div 64 + 1..unat (flt_last f) div 64 + diff}. k mod 128 = j
                  then 0 else flt_ring f ! j)"
  shows "ring_window (f\<lparr>flt_last := counter, flt_ring := ring\<rparr>) seen"
proof -
  define l where "l = unat (flt_last f) div 64"
  define l' where "l' = unat counter div 64"
  have "l \<le> l'" using gt by (simp add: l_def l'_def word_less_nat_alt div_le_mono)
  have d: "diff = min (l' - l) 128" using diff by (simp only: l_def l'_def)
  have ring: "ring ! j = (if \<exists>k\<in>{l + 1..l + diff}. k mod 128 = j then 0 else flt_ring f ! j)" if "j < 128" for j
    using ring [OF that] by (simp only: l_def)
  have old: "unat c \<le> unat (flt_last f)" if "c \<in> set seen" for c
    using w that by (simp add: ring_window_def word_le_nat_alt)
  have bits: "bit (ring ! (b mod 128)) k \<longleftrightarrow> b * 64 + k \<in> unat ` set seen"
    if h: "b \<le> l'" "l' < b + 128" "k < 64" for b k
  proof (cases "b \<le> l")
    case True
    have "m mod 128 \<noteq> b mod 128" if m: "m \<in> {l + 1..l + diff}" for m
    proof
      assume "m mod 128 = b mod 128"
      moreover have "b < m" "m < b + 128" using m True h(2) \<open>l \<le> l'\<close> by (simp_all add: d)
      ultimately show False using same_block [of b m] by simp
    qed
    then have "\<not> (\<exists>m\<in>{l + 1..l + diff}. m mod 128 = b mod 128)" by blast
    then have "ring ! (b mod 128) = flt_ring f ! (b mod 128)" using ring [of "b mod 128"] by simp
    then show ?thesis using window_bit [OF w, of b k] True h \<open>l \<le> l'\<close> by (simp add: l_def)
  next
    case False
    have "\<exists>m\<in>{l + 1..l + diff}. m mod 128 = b mod 128"
    proof (cases "l' - l \<le> 128")
      case True
      then show ?thesis using False h(1) by (intro bexI [of _ b]) (simp_all add: d)
    next
      case False
      then show ?thesis using all_blocks [of "b mod 128" l] by (simp add: d)
    qed
    then have "ring ! (b mod 128) = 0" using ring [of "b mod 128"] by simp
    moreover have "b * 64 + k \<notin> unat ` set seen"
    proof
      assume "b * 64 + k \<in> unat ` set seen"
      then have "b * 64 + k \<le> unat (flt_last f)" using old by auto
      then have "b \<le> l" by (simp add: l_def less_eq_div_iff_mult_less_eq)
      then show False using False by simp
    qed
    ultimately show ?thesis by simp
  qed
  have "c \<le> counter" if "c \<in> set seen" for c
    using old [OF that] gt by (simp add: word_le_nat_alt word_less_nat_alt)
  then show ?thesis using len bits by (simp add: ring_window_def l'_def)
qed

definition tracks :: "Filter \<Rightarrow> u64 list \<Rightarrow> bool" where
  "tracks f seen \<longleftrightarrow> ring_window f seen \<and> foldr max seen 0 = flt_last f"

lemma window_again: "ring_window f (c # seen) \<Longrightarrow> c \<in> set seen \<Longrightarrow> ring_window f seen"
  by (simp add: ring_window_def insert_absorb)

lemma max_seen: "c \<in> set seen \<Longrightarrow> c \<le> foldr max seen 0" for c :: u64
  by (induction seen) (auto intro: max.coboundedI2)

lemma clear_diff:
  fixes last counter :: u64
  assumes "last < counter"
  shows "unat (let d = drop_bit blockBitLog counter - drop_bit blockBitLog last
               in if d > word_of_nat ringBlocks then word_of_nat ringBlocks else d) =
    min (unat counter div 64 - unat last div 64) 128"
proof -
  have "unat last div 64 \<le> unat counter div 64" using assms by (simp add: word_less_nat_alt div_le_mono)
  then have "unat (drop_bit blockBitLog counter - drop_bit blockBitLog last) = unat counter div 64 - unat last div 64"
    by (simp add: unat_sub word_le_nat_alt block_number)
  then show ?thesis by (simp add: Let_def word_less_nat_alt ringBlocks_def)
qed

lemma validate_forward:
  assumes w: "ring_window f seen" and limit: "counter < limit" and gt: "flt_last f < counter"
  obtains f' where "ValidateCounter counter limit f = Some (True, f')" "ring_window f' (counter # seen)"
    "flt_last f' = counter"
proof -
  define l where "l = unat (flt_last f) div 64"
  define current where "current = drop_bit blockBitLog (flt_last f)"
  define diff where "diff = (let d = drop_bit blockBitLog counter - current
                             in if d > word_of_nat ringBlocks then word_of_nat ringBlocks else d)"
  have l: "unat current = l" by (simp add: current_def l_def block_number)
  have diff: "unat diff = min (unat counter div 64 - l) 128" using clear_diff [OF gt]
    by (simp add: diff_def current_def l_def)
  have small: "l < 2 ^ 58" by (simp add: l_def block_number_less del: power_numeral)
  have stop: "unat (current + diff) = l + unat diff" "unat (current + 1) = l + 1"
    using small diff by (simp_all add: unat_word_ariths l)
  have "unat (current + diff) < 2 ^ 60" using small diff by (simp add: stop)
  from clear_blocks_result [OF this, of "current + 1" "flt_ring f"] w obtain ring where ring:
    "clear_blocks (current + 1) (current + diff) (flt_ring f) = Some ring" "length ring = 128"
    "\<And>j. j < 128 \<Longrightarrow> ring ! j = (if \<exists>k\<in>{l + 1..l + unat diff}. k mod 128 = j then 0 else flt_ring f ! j)"
    by (auto simp: ring_window_def stop)
  let ?f = "f\<lparr>flt_last := counter, flt_ring := ring\<rparr>"
  have "ring_window ?f seen" using window_moves [OF w gt _ ring(2)] diff ring(3) by (simp add: l_def)
  from check_and_set_window [OF this, of counter] obtain f' where f':
    "check_and_set counter ?f = (counter \<notin> set seen, f')" "ring_window f' (counter # seen)" "flt_last f' = counter"
    by auto
  have "counter \<notin> set seen" using w gt by (auto simp: ring_window_def)
  then have "ValidateCounter counter limit f = Some (True, f')"
    using limit gt ring(1) f'(1)
    by (simp add: ValidateCounter_def Let_def diff_def [unfolded Let_def, symmetric] flip: current_def)
  then show ?thesis using f'(2,3) by (rule that)
qed

lemma validate_tracks:
  assumes t: "tracks f seen"
  obtains f' where "ValidateCounter counter limit f = Some (fresh counter limit seen, f')"
    "tracks f' (if fresh counter limit seen then counter # seen else seen)"
proof -
  have w: "ring_window f seen" and last: "foldr max seen 0 = flt_last f" using t by (simp_all add: tracks_def)
  consider "limit \<le> counter" | "counter < limit" "flt_last f < counter" | "counter < limit" "counter \<le> flt_last f"
    by force
  then show thesis
  proof cases
    case 1
    then show ?thesis using t by (intro that [of f]) (auto simp: ValidateCounter_def fresh_def)
  next
    case 2
    from validate_forward [OF w 2] obtain f' where f':
      "ValidateCounter counter limit f = Some (True, f')" "ring_window f' (counter # seen)" "flt_last f' = counter"
      by blast
    have "counter \<notin> set seen" using w 2(2) by (auto simp: ring_window_def)
    then have "fresh counter limit seen" using 2 by (simp add: fresh_def last word_less_nat_alt)
    then show ?thesis using f' 2(2) by (intro that [of f']) (auto simp: tracks_def last max_def)
  next
    case 3
    have far: "word_of_nat windowSize < flt_last f - counter \<longleftrightarrow> \<not> unat (flt_last f) \<le> unat counter + windowSize"
      using 3(2) by (auto simp: word_less_nat_alt word_le_nat_alt unat_sub replay_consts)
    show ?thesis
    proof (cases "unat (flt_last f) \<le> unat counter + windowSize")
      case False
      then show ?thesis using 3 t far by (intro that [of f]) (auto simp: ValidateCounter_def fresh_def last)
    next
      case True
      from check_and_set_window [OF w 3(2) True] obtain f' where f':
        "check_and_set counter f = (counter \<notin> set seen, f')" "ring_window f' (counter # seen)"
        "flt_last f' = flt_last f" by auto
      have fr: "fresh counter limit seen \<longleftrightarrow> counter \<notin> set seen" using 3 True by (simp add: fresh_def last)
      have "\<not> limit \<le> counter" "\<not> flt_last f < counter" using 3 by auto
      then have "ValidateCounter counter limit f = Some (fresh counter limit seen, f')"
        using far True f'(1) fr by (simp add: ValidateCounter_def Let_def)
      then show ?thesis using f' fr 3(2) window_again [OF f'(2)]
        by (intro that [of f']) (auto simp: tracks_def last max_def)
    qed
  qed
qed

lemma reset_tracks: "length (flt_ring f) = 128 \<Longrightarrow> tracks (Filter_Reset f) []"
  using window_zero [of f] by (simp add: tracks_def Filter_Reset_def)

lemma run_tracks: "tracks f seen \<Longrightarrow> filter_run evs f = Some (history_run evs seen)"
proof (induction evs seen arbitrary: f rule: history_run.induct)
  case (2 evs seen)
  then show ?case using reset_tracks [of f] by (simp add: tracks_def ring_window_def)
next
  case (3 counter limit evs seen)
  from validate_tracks [OF 3(2), of counter limit] obtain f' where
    "ValidateCounter counter limit f = Some (fresh counter limit seen, f')"
    "tracks f' (if fresh counter limit seen then counter # seen else seen)" by blast
  then show ?case using 3(1) [OF refl] by (simp add: Let_def)
qed simp

text \<open>C8: Whatever counters arrive and whenever the filter is reset, every call of \<^verbatim>\<open>ValidateCounter\<close> on a
filter that was zero returns, and it accepts exactly the counters below the limit that were not accepted
since the last reset and are at most \<^const>\<open>windowSize\<close> behind the greatest one accepted. In particular
\<^verbatim>\<open>Reset\<close>, which clears one block only, forgets everything.\<close>

theorem replay_filter_exact: "filter_run evs zero_Filter = Some (history_run evs [])"
proof -
  have "zero_Filter = Filter_Reset zero_Filter" 
    using list_update_id [of "replicate 128 (0::u64)" 0] by (simp add: zero_Filter_def Filter_Reset_def ringBlocks_def)
  then show ?thesis using run_tracks reset_tracks [of zero_Filter] by (simp add: zero_Filter_def ringBlocks_def)
qed

end
