(* ===== verification/Spec2Isabelle.thy ===== *)
theory Spec2Isabelle
  imports
    Prelude
    Float64
    Metric
    Netip
    Tunables
    Link_Measure
    Link_Select
    Routing_State
    Router_Algo
    Route_Compute
    Route_Properties
    Route_Table
    Router_Handlers
    Handler_Properties
    Config
    Node_Ids
    Graph_Config
    Graph_Resolve
    Graph_Properties
    Packet
    Unicast
    Unicast_Properties
    Router_IO
    Allowed_IPs
    Allowed_IPs_Properties
    Allowed_IPs_Table
    Allowed_IPs_Rules
    Traffic_Control
    Traffic_Properties
    Flush_Properties
    Replay
begin

text \<open>
  Nylon is a mesh VPN. Its nodes find routes with a distance-vector protocol derived from Babel
  (\<^verbatim>\<open>core/\<close>), measure their links with timestamped probes (\<^verbatim>\<open>state/\<close>) and carry packets over a fork of
  WireGuard with a traffic-control layer (\<^verbatim>\<open>polyamide/\<close>). This development models the decisions of these
  parts as functions and proves what they guarantee. Paths below are relative to \<^verbatim>\<open>src/\<close>.

  \<^bold>\<open>Conventions.\<close> Unsigned integers are words of their width and wrap; Go's \<^verbatim>\<open>int\<close> and \<^verbatim>\<open>int64\<close> are
  integers wrapped by \<open>s64\<close> where they can leave their range; a \<^verbatim>\<open>float64\<close> is a rational number with
  every result rounded. A Go map is an association list: theorems hold for every list, hence for every
  order of iteration, and the graph parser takes that order as a parameter. Handlers take the clock
  reading \<open>now\<close> and return the new state with the calls they make. A panic is \<open>None\<close>, an error is
  \<open>Inl\<close>. Code outside the repository is a parameter: the routing tables of \<^verbatim>\<open>bart\<close>, the cache
  \<^verbatim>\<open>ttlcache\<close>, and the encoder of protobuf as the size and encodability of messages.

  \<^bold>\<open>Links.\<close> \<open>Float64\<close>, \<open>Link_Measure\<close> and \<open>Link_Select\<close> model \<^verbatim>\<open>state/endpoint.go\<close>: delay filters,
  pending probes, the loss estimate, the metric of a link, the choice of the endpoint to send on and the
  cost of a hop. Shown: the invariant of an endpoint, that an echo counts once, the bounds of loss and
  metric, that the choice is a least active endpoint, and that clock offsets cancel.

  \<^bold>\<open>Routing.\<close> \<open>Metric\<close> and \<open>Tunables\<close> hold the arithmetic and constants, \<open>Routing_State\<close> the state of
  \<^verbatim>\<open>state/routing.go\<close>, \<open>Router_Algo\<close> every function of \<^verbatim>\<open>core/router_algo.go\<close>. \<open>Route_Compute\<close>,
  \<open>Route_Properties\<close> and \<open>Route_Table\<close> prove \<^verbatim>\<open>ComputeRoutes\<close>: selected routes are feasible,
  announcements are covered by the feasibility distance, which only improves, forwarding tables follow
  the routes, and selection, hysteresis, retraction and hold are as specified. \<open>Router_Handlers\<close> and
  \<open>Handler_Properties\<close> do the same for updates, sequence-number requests, starvation and garbage
  collection.

  \<^bold>\<open>The node.\<close> \<open>Netip\<close> and \<open>Config\<close> model addresses and configuration, \<open>Node_Ids\<close> the numeric ids of
  nodes, \<open>Graph_Config\<close> the parser of the network graph; \<open>Graph_Resolve\<close> and \<open>Graph_Properties\<close> show that
  it ends, which graphs it accepts, which edges they have and that peers are symmetric. \<open>Router_IO\<close> models
  \<^verbatim>\<open>core/router.go\<close> with the passive clients and the garbage collection of the node; \<open>Flush_Properties\<close>
  shows that \<^verbatim>\<open>flushIO\<close> sends everything that is pending.

  \<^bold>\<open>Packets.\<close> \<open>Packet\<close> models packets as windows of a buffer (\<^verbatim>\<open>polyamide/device/traffic_manip.go\<close>),
  \<open>Unicast\<close> the packets for exit nodes (\<^verbatim>\<open>core/nylon_unicast.go\<close>), \<open>Allowed_IPs\<close> the tries of
  \<^verbatim>\<open>polyamide/device/allowedips.go\<close>, \<open>Traffic_Control\<close> the filters of \<^verbatim>\<open>core/nylon_tc.go\<close> and the
  batches of \<^verbatim>\<open>polyamide/device/traffic_control.go\<close>, \<open>Replay\<close> the filter of \<^verbatim>\<open>polyamide/replay\<close>. The
  theories \<open>Unicast_Properties\<close>, \<open>Allowed_IPs_Properties\<close>, \<open>Allowed_IPs_Table\<close>, \<open>Allowed_IPs_Rules\<close> and
  \<open>Traffic_Properties\<close> show that wrapping and unwrapping are inverse, that the tries refine a table of
  rules with longest-prefix match, which packets make a batch panic, and where every other packet
  goes; \<open>Replay\<close> shows that the ring accepts exactly the fresh counters of its window.

  \<^bold>\<open>Loops.\<close> No definition uses fuel. Loops that could run forever are partial functions whose results
  are proved to exist (the resolution of groups, the clearing of the replay ring) or functions with a
  termination proof (the bundles of \<^verbatim>\<open>flushIO\<close>).

  \<^bold>\<open>Bounds of the model.\<close> Graph lines are ASCII. Infinities and NaN of \<^verbatim>\<open>float64\<close> are not represented.
  Message buffers have the size of the default platforms. The filter of \<^verbatim>\<open>core/nylon_tc.go\<close> that only
  traces is left out. A handler runs to its end at one instant, as the dispatch goroutine runs it.

  \<^bold>\<open>Not modelled.\<close> The handshake, key rotation and cookies of WireGuard rest on cryptography; queues,
  pools, timers, futures and the scheduler are concurrency without decisions of their own; sockets, TUN
  devices, system routes, the TCP disguise, DNS and the control sockets are system calls; the YAML and
  protobuf forms are serialisation by other packages. Of \<^verbatim>\<open>core/nylon_endpoints.go\<close>, \<^verbatim>\<open>core/nylon_apply.go\<close>,
  \<^verbatim>\<open>state/validation.go\<close> and the rate limiter only what the modelled parts call is included, if anything.
\<close>

end
